(* ===== verification/Prelude.thy ===== *)
theory Prelude
  imports Main "HOL-Library.Word" "HOL-Library.Monad_Syntax" "HOL-Library.Multiset"
begin

text \<open>
  Shared vocabulary of the development: the fixed-width integers of the source, Rust's
  saturating and checked arithmetic, the vector operations the source uses
  (\<^verbatim>\<open>swap_remove\<close>, bounds-checked reads), runs of partial step functions, and
  the locales for the contracts that several components share.

  Throughout the development \<open>None\<close> of an operation with an \<open>option\<close> result whose
  documentation says so stands for a Rust panic or for undefined behaviour (an out-of-range
  index, a read of an uninitialised slot, a failed \<^verbatim>\<open>expect\<close>); everything an operation
  reports through \<^verbatim>\<open>Result\<close> is a value of a sum type with \<open>Inl\<close> for the error.
\<close>

unbundle bit_operations_syntax

section \<open>Integers\<close>

type_synonym u8 = "8 word"
type_synonym u16 = "16 word"
type_synonym u32 = "32 word"
type_synonym u64 = "64 word"

definition u64_max :: nat where
  "u64_max = 2 ^ 64 - 1"

definition u128_max :: nat where
  "u128_max = 2 ^ 128 - 1"

text \<open>\<^verbatim>\<open>saturating_add\<close>, \<^verbatim>\<open>saturating_sub\<close>, \<^verbatim>\<open>saturating_mul\<close> on an unsigned
  integer with largest value \<open>m\<close>; \<^verbatim>\<open>checked_div\<close>.\<close>

definition sat_add :: "nat \<Rightarrow> nat \<Rightarrow> nat \<Rightarrow> nat" where
  "sat_add m a b = min m (a + b)"

definition sat_sub :: "nat \<Rightarrow> nat \<Rightarrow> nat" where
  "sat_sub a b = a - b"

definition sat_mul :: "nat \<Rightarrow> nat \<Rightarrow> nat \<Rightarrow> nat" where
  "sat_mul m a b = min m (a * b)"

definition checked_div :: "nat \<Rightarrow> nat \<Rightarrow> nat option" where
  "checked_div a b = (if b = 0 then None else Some (a div b))"

named_theorems sat_simps "saturating arithmetic unfolded"

declare sat_add_def [sat_simps] sat_sub_def [sat_simps] sat_mul_def [sat_simps]

lemma sat_add_le [simp]: "sat_add m a b \<le> m"
  by (simp add: sat_simps)

lemma sat_mul_le [simp]: "sat_mul m a b \<le> m"
  by (simp add: sat_simps)

lemma sat_add_exact: "a + b \<le> m \<Longrightarrow> sat_add m a b = a + b"
  by (simp add: sat_simps)

lemma sat_mul_exact: "a * b \<le> m \<Longrightarrow> sat_mul m a b = a * b"
  by (simp add: sat_simps)

text \<open>\<^verbatim>\<open>div_ceil\<close> of an unsigned integer.\<close>

definition div_ceil :: "nat \<Rightarrow> nat \<Rightarrow> nat" where
  "div_ceil a b = a div b + (if a mod b = 0 then 0 else 1)"

lemma div_ceil_lower:
  assumes "0 < b"
  shows "a \<le> div_ceil a b * b"
proof (cases "a mod b = 0")
  case True
  then have "a div b * b = a" by (metis add.right_neutral div_mult_mod_eq)
  with True show ?thesis by (simp add: div_ceil_def)
next
  case False
  have "a div b * b + a mod b = a" by (rule div_mult_mod_eq)
  moreover have "a mod b < b" using assms by simp
  ultimately have "a \<le> a div b * b + b" by linarith
  with False show ?thesis by (simp add: div_ceil_def)
qed

lemma div_ceil_upper:
  assumes "0 < b" and "0 < a"
  shows "div_ceil a b * b < a + b"
proof (cases "a mod b = 0")
  case True
  then have "a div b * b = a" by (metis add.right_neutral div_mult_mod_eq)
  with True assms show ?thesis by (simp add: div_ceil_def)
next
  case False
  have "a div b * b + a mod b = a" by simp
  with False have "a div b * b < a" by linarith
  with False show ?thesis by (simp add: div_ceil_def)
qed

section \<open>Vectors\<close>

text \<open>A bounds-checked read: \<open>None\<close> where the source panics.\<close>

definition get_at :: "'a list \<Rightarrow> nat \<Rightarrow> 'a option" where
  "get_at xs i = (if i < length xs then Some (xs ! i) else None)"

lemma get_at_Some_iff [simp]: "get_at xs i = Some x \<longleftrightarrow> i < length xs \<and> xs ! i = x"
  by (auto simp: get_at_def)

lemma get_at_None_iff [simp]: "get_at xs i = None \<longleftrightarrow> length xs \<le> i"
  by (auto simp: get_at_def)

text \<open>\<^verbatim>\<open>v.iter().position(|&x| x == a)\<close>.\<close>

fun position :: "'a \<Rightarrow> 'a list \<Rightarrow> nat option" where
  "position a [] = None"
| "position a (x # xs) = (if x = a then Some 0 else map_option Suc (position a xs))"

lemma position_None [simp]: "position a xs = None \<longleftrightarrow> a \<notin> set xs"
  by (induction xs) auto

lemma position_SomeD: "position a xs = Some i \<Longrightarrow> i < length xs \<and> xs ! i = a"
  by (induction xs arbitrary: i) (auto split: if_splits)

text \<open>\<^verbatim>\<open>Vec::swap_remove\<close>: the last element takes the place of the removed one.\<close>

definition swap_remove :: "'a list \<Rightarrow> nat \<Rightarrow> 'a list" where
  "swap_remove xs i = butlast (xs[i := last xs])"

lemma mset_swap_remove:
  assumes "i < length xs"
  shows "mset (swap_remove xs i) = mset xs - {#xs ! i#}"
proof -
  have ne: "xs \<noteq> []" using assms by auto
  show ?thesis
  proof (cases "i = length xs - 1")
    case True
    then have "xs[i := last xs] = xs"
      using ne by (simp add: last_conv_nth)
    moreover have "xs ! i = last xs" using True ne by (simp add: last_conv_nth)
    moreover have "mset xs = add_mset (last xs) (mset (butlast xs))"
      using ne by (metis add_mset_add_single append_butlast_last_id mset.simps(1) mset.simps(2) mset_append)
    ultimately show ?thesis by (simp add: swap_remove_def)
  next
    case False
    with assms have i: "i < length (butlast xs)" by simp
    have "xs[i := last xs] = (butlast xs)[i := last xs] @ [last xs]"
      using i ne by (metis append_butlast_last_id list_update_append1)
    then have "swap_remove xs i = (butlast xs)[i := last xs]"
      by (simp add: swap_remove_def)
    moreover have "xs ! i = butlast xs ! i" using i by (simp add: nth_butlast)
    moreover have "mset xs = add_mset (last xs) (mset (butlast xs))"
      using ne by (metis add_mset_add_single append_butlast_last_id mset.simps(1) mset.simps(2) mset_append)
    moreover have "butlast xs ! i \<in># mset (butlast xs)" using i by simp
    ultimately show ?thesis using i
      by (simp add: mset_update)
  qed
qed

lemma swap_remove_distinct:
  assumes "distinct xs" "i < length xs"
  shows "distinct (swap_remove xs i)" "set (swap_remove xs i) = set xs - {xs ! i}"
proof -
  have eq: "mset (swap_remove xs i) = mset (remove1 (xs ! i) xs)"
    using assms(2) by (simp add: mset_swap_remove)
  show "distinct (swap_remove xs i)"
    using mset_eq_imp_distinct_iff [OF eq] assms(1) by (simp add: distinct_remove1)
  show "set (swap_remove xs i) = set xs - {xs ! i}"
    using mset_eq_setD [OF eq] assms(1) by (simp add: set_remove1_eq)
qed

section \<open>Runs of partial step functions\<close>

text \<open>
  A component whose operations can panic is a step function into \<open>option\<close>; a history
  of the component is a list of inputs, run from left to right.
\<close>

fun run_steps :: "('s \<Rightarrow> 'e \<Rightarrow> 's option) \<Rightarrow> 's \<Rightarrow> 'e list \<Rightarrow> 's option" where
  "run_steps step s [] = Some s"
| "run_steps step s (e # es) = step s e \<bind> (\<lambda>s'. run_steps step s' es)"

text \<open>
  The contract of a component that never panics on well-formed inputs: every step from a
  state that satisfies the invariant returns, and returns a state that satisfies it. A
  client then knows that whole histories are safe.
\<close>

locale safe_machine =
  fixes step :: "'s \<Rightarrow> 'e \<Rightarrow> 's option"
    and good :: "'e \<Rightarrow> bool"
    and inv :: "'s \<Rightarrow> bool"
  assumes step_safe: "inv s \<Longrightarrow> good e \<Longrightarrow> \<exists>s'. step s e = Some s' \<and> inv s'"
begin

lemma run_safe:
  "inv s \<Longrightarrow> list_all good es \<Longrightarrow> \<exists>s'. run_steps step s es = Some s' \<and> inv s'"
proof (induction es arbitrary: s)
  case Nil
  then show ?case by simp
next
  case (Cons e es)
  from Cons.prems obtain s' where "step s e = Some s'" "inv s'"
    using step_safe [of s e] by auto
  with Cons show ?case by auto
qed

lemma run_inv:
  "inv s \<Longrightarrow> list_all good es \<Longrightarrow> run_steps step s es = Some s' \<Longrightarrow> inv s'"
  using run_safe by fastforce

end

text \<open>
  The contract of a state machine given as a step relation: the invariant is kept by every step.
  A client then knows that it holds in every reachable state.
\<close>

locale inductive_system =
  fixes step :: "'s \<Rightarrow> 's \<Rightarrow> bool"
    and inv :: "'s \<Rightarrow> bool"
  assumes step_inv: "inv s \<Longrightarrow> step s s' \<Longrightarrow> inv s'"
begin

lemma reachable_inv: "step\<^sup>*\<^sup>* s s' \<Longrightarrow> inv s \<Longrightarrow> inv s'"
  by (induction rule: rtranclp_induct) (auto dest: step_inv)

end

end
