(* ===== verification/C100k.thy ===== *)
theory C100k
  imports Prelude
begin

text \<open>
  The timer-wheel expiry cache of \<^verbatim>\<open>base/src/cache/c100k.rs\<close>: entries in a slab with an
  intrusive free list, an index from key hashes to slots, a three-level timer wheel
  (512 slots of one tick, 128 of 512 ticks, 128 of 65536 ticks) and a batch of expiry
  events handed to a channel.

  Model conventions. The key hasher (\<^verbatim>\<open>ahash\<close>) is the parameter \<open>hash\<close>; the event channel
  (\<^verbatim>\<open>tokio::sync::mpsc\<close>) is a state of type \<open>'q\<close> with the parameter \<open>send\<close>, the effect of
  \<^verbatim>\<open>try_send\<close> on it, whose result the source only logs. Slot numbers (\<^verbatim>\<open>u32\<close>) and ticks
  (\<^verbatim>\<open>u64\<close>) are natural numbers: slot numbers stay below the capacity, and
  \<open>expire_tick_no_overflow\<close> shows that the sums of ticks stay below \<open>2 ^ 64\<close>. Versions are
  32-bit words, which wrap. A key slot (\<^verbatim>\<open>MaybeUninit<K>\<close>) is an \<open>option\<close>, with \<open>None\<close>
  for memory that holds no key; reading or dropping it there is undefined behaviour and
  makes the operation return \<open>None\<close>, as does a slice index out of range.
\<close>

section \<open>Configuration\<close>

definition SHARDS :: nat where "SHARDS = 4"
definition WHEEL_L1 :: nat where "WHEEL_L1 = 512"
definition WHEEL_L2 :: nat where "WHEEL_L2 = 128"
definition WHEEL_L3 :: nat where "WHEEL_L3 = 128"
definition MAX_CATCHUP :: nat where "MAX_CATCHUP = 1024"
definition TICK_MS :: nat where "TICK_MS = 200"
definition CHANNEL :: nat where "CHANNEL = 65536"
definition BATCH :: nat where "BATCH = 64"
definition COMPACT_THRESHOLD :: nat where "COMPACT_THRESHOLD = 1024"
definition DEFAULT_CAPACITY_PER_SHARD :: nat where "DEFAULT_CAPACITY_PER_SHARD = 128000"

lemmas wheel_consts = WHEEL_L1_def WHEEL_L2_def WHEEL_L3_def

section \<open>Entries, events and commands\<close>

record 'k cache_event =
  ev_key :: 'k
  ev_hash :: u64
  ev_version :: u32

datatype 'k command = Insert 'k nat | Refresh 'k | Delete 'k

record 'k entry =
  e_key :: "'k option"
  e_hash :: u64
  e_version :: u32
  expire_tick :: nat
  ttl_tick :: nat
  next_free :: nat
  in_use :: bool

definition entry_new_empty :: "nat \<Rightarrow> 'k entry" where
  "entry_new_empty n =
     \<lparr>e_key = None, e_hash = 0, e_version = 0, expire_tick = 0, ttl_tick = 0,
      next_free = n, in_use = False\<rparr>"

definition entry_write :: "'k entry \<Rightarrow> 'k \<Rightarrow> u64 \<Rightarrow> nat \<Rightarrow> nat \<Rightarrow> 'k entry" where
  "entry_write e k h ttl now =
     e\<lparr>e_key := Some k, e_hash := h, e_version := 1, ttl_tick := ttl,
       expire_tick := now + ttl, in_use := True\<rparr>"

text \<open>\<^verbatim>\<open>drop_key\<close> and \<^verbatim>\<open>take_key\<close> are \<^verbatim>\<open>unsafe\<close>: they need an initialised key, which is
  gone afterwards.\<close>

definition drop_key :: "'k entry \<Rightarrow> 'k entry option" where
  "drop_key e = (case e_key e of None \<Rightarrow> None | Some _ \<Rightarrow> Some (e\<lparr>e_key := None\<rparr>))"

definition take_key :: "'k entry \<Rightarrow> ('k \<times> 'k entry) option" where
  "take_key e =
     (case e_key e of None \<Rightarrow> None | Some k \<Rightarrow> Some (k, e\<lparr>in_use := False, e_key := None\<rparr>))"

text \<open>\<^verbatim>\<open>Drop for Entry\<close>: an entry in use drops its key.\<close>

definition entry_drop :: "'k entry \<Rightarrow> 'k list option" where
  "entry_drop e = (if in_use e then map_option (\<lambda>k. [k]) (e_key e) else Some [])"

section \<open>The shard\<close>

type_synonym wheel_item = "nat \<times> u32"

record ('k, 'q) shard =
  entries :: "'k entry list"
  free_head :: nat
  index_map :: "u64 \<rightharpoonup> nat list"
  wheel_l1 :: "wheel_item list list"
  wheel_l2 :: "wheel_item list list"
  wheel_l3 :: "wheel_item list list"
  tick :: nat
  event_tx :: 'q
  batch :: "'k cache_event list"

definition shard_new :: "nat \<Rightarrow> 'q \<Rightarrow> ('k, 'q) shard" where
  "shard_new capacity tx =
     \<lparr>entries = map (\<lambda>i. entry_new_empty ((i + 1) mod 2 ^ 32)) [0..<capacity],
      free_head = 0, index_map = Map.empty,
      wheel_l1 = replicate WHEEL_L1 [], wheel_l2 = replicate WHEEL_L2 [],
      wheel_l3 = replicate WHEEL_L3 [],
      tick = 0, event_tx = tx, batch = []\<rparr>"

text \<open>The end of a shard drops its entries one by one; the keys that are dropped.\<close>

fun drop_entries :: "'k entry list \<Rightarrow> 'k list option" where
  "drop_entries [] = Some []"
| "drop_entries (e # es) = do { ks \<leftarrow> entry_drop e; rest \<leftarrow> drop_entries es; Some (ks @ rest) }"

definition shard_drop :: "('k, 'q) shard \<Rightarrow> 'k list option" where
  "shard_drop s = drop_entries (entries s)"

definition alloc :: "('k, 'q) shard \<Rightarrow> nat option \<times> ('k, 'q) shard" where
  "alloc s =
     (let idx = free_head s in
      if length (entries s) \<le> idx then (None, s)
      else (Some idx, s\<lparr>free_head := next_free (entries s ! idx)\<rparr>))"

definition free :: "('k, 'q) shard \<Rightarrow> nat \<Rightarrow> ('k, 'q) shard option" where
  "free s idx = do {
     e \<leftarrow> get_at (entries s) idx;
     e \<leftarrow> (if in_use e then drop_key e else Some e);
     Some (s\<lparr>entries := (entries s)[idx := e\<lparr>in_use := False, next_free := free_head s\<rparr>],
             free_head := idx\<rparr>)
   }"

definition insert_index :: "('k, 'q) shard \<Rightarrow> u64 \<Rightarrow> nat \<Rightarrow> ('k, 'q) shard" where
  "insert_index s h idx =
     s\<lparr>index_map := (index_map s)
         (h \<mapsto> (case index_map s h of None \<Rightarrow> [] | Some v \<Rightarrow> v) @ [idx])\<rparr>"

definition remove_index :: "('k, 'q) shard \<Rightarrow> u64 \<Rightarrow> nat \<Rightarrow> ('k, 'q) shard" where
  "remove_index s h idx =
     (case index_map s h of
        None \<Rightarrow> s
      | Some v \<Rightarrow>
          (let v' = (case position idx v of None \<Rightarrow> v | Some pos \<Rightarrow> swap_remove v pos) in
           s\<lparr>index_map := (index_map s)(h := if v' = [] then None else Some v')\<rparr>))"

fun find_in :: "'k entry list \<Rightarrow> 'k \<Rightarrow> nat list \<Rightarrow> nat option option" where
  "find_in es k [] = Some None"
| "find_in es k (idx # rest) = do {
     e \<leftarrow> get_at es idx;
     if in_use e then
       (case e_key e of
          None \<Rightarrow> None
        | Some k' \<Rightarrow> if k' = k then Some (Some idx) else find_in es k rest)
     else find_in es k rest
   }"

definition find_entry :: "('k, 'q) shard \<Rightarrow> 'k \<Rightarrow> u64 \<Rightarrow> nat option option" where
  "find_entry s k h =
     (case index_map s h of None \<Rightarrow> Some None | Some list \<Rightarrow> find_in (entries s) k list)"

section \<open>The timer wheel\<close>

definition push_slot :: "'a list list \<Rightarrow> nat \<Rightarrow> 'a \<Rightarrow> 'a list list option" where
  "push_slot w i x = (if i < length w then Some (w[i := w ! i @ [x]]) else None)"

definition schedule :: "('k, 'q) shard \<Rightarrow> nat \<Rightarrow> ('k, 'q) shard option" where
  "schedule s idx = do {
     e \<leftarrow> get_at (entries s) idx;
     if expire_tick e \<le> tick s then do {
       w \<leftarrow> push_slot (wheel_l1 s) ((tick s + 1) mod WHEEL_L1) (idx, e_version e);
       Some (s\<lparr>wheel_l1 := w\<rparr>)
     } else let diff = expire_tick e - tick s in
     if diff < WHEEL_L1 then do {
       w \<leftarrow> push_slot (wheel_l1 s) (expire_tick e mod WHEEL_L1) (idx, e_version e);
       Some (s\<lparr>wheel_l1 := w\<rparr>)
     } else if diff < WHEEL_L1 * WHEEL_L2 then do {
       w \<leftarrow> push_slot (wheel_l2 s) (expire_tick e div WHEEL_L1 mod WHEEL_L2) (idx, e_version e);
       Some (s\<lparr>wheel_l2 := w\<rparr>)
     } else do {
       w \<leftarrow> push_slot (wheel_l3 s) (expire_tick e div (WHEEL_L1 * WHEEL_L2) mod WHEEL_L3)
              (idx, e_version e);
       Some (s\<lparr>wheel_l3 := w\<rparr>)
     }
   }"

text \<open>The loop of both cascades: entries whose version still matches are scheduled again.\<close>

fun cascade_items :: "('k, 'q) shard \<Rightarrow> wheel_item list \<Rightarrow> ('k, 'q) shard option" where
  "cascade_items s [] = Some s"
| "cascade_items s ((idx, ver) # rest) = do {
     e \<leftarrow> get_at (entries s) idx;
     s \<leftarrow> (if in_use e \<and> e_version e = ver then schedule s idx else Some s);
     cascade_items s rest
   }"

definition cascade_l2 :: "('k, 'q) shard \<Rightarrow> ('k, 'q) shard option" where
  "cascade_l2 s =
     (let slot = tick s div WHEEL_L1 mod WHEEL_L2 in do {
        bucket \<leftarrow> get_at (wheel_l2 s) slot;
        cascade_items (s\<lparr>wheel_l2 := (wheel_l2 s)[slot := []]\<rparr>) bucket
      })"

definition cascade_l3 :: "('k, 'q) shard \<Rightarrow> ('k, 'q) shard option" where
  "cascade_l3 s =
     (let slot = tick s div (WHEEL_L1 * WHEEL_L2) mod WHEEL_L3 in do {
        bucket \<leftarrow> get_at (wheel_l3 s) slot;
        cascade_items (s\<lparr>wheel_l3 := (wheel_l3 s)[slot := []]\<rparr>) bucket
      })"

definition flush :: "('q \<Rightarrow> 'k cache_event list \<Rightarrow> 'q) \<Rightarrow> ('k, 'q) shard \<Rightarrow> ('k, 'q) shard" where
  "flush send s = s\<lparr>event_tx := send (event_tx s) (batch s), batch := []\<rparr>"

text \<open>The part of \<^verbatim>\<open>process_bucket\<close> for an entry that is due: its key moves into an event,
  its slot to the head of the free list.\<close>

definition expire_entry ::
  "('q \<Rightarrow> 'k cache_event list \<Rightarrow> 'q) \<Rightarrow> ('k, 'q) shard \<Rightarrow> nat \<Rightarrow> ('k, 'q) shard option" where
  "expire_entry send s idx = do {
     e \<leftarrow> get_at (entries s) idx;
     (k, e') \<leftarrow> take_key e;
     let s = s\<lparr>entries := (entries s)[idx := e']\<rparr>;
         s = remove_index s (e_hash e) idx;
         s = s\<lparr>entries := (entries s)[idx := (entries s ! idx)\<lparr>next_free := free_head s\<rparr>],
               free_head := idx,
               batch := batch s @ [\<lparr>ev_key = k, ev_hash = e_hash e, ev_version = e_version e\<rparr>]\<rparr>
     in Some (if BATCH \<le> length (batch s) then flush send s else s)
   }"

fun process_bucket ::
  "('q \<Rightarrow> 'k cache_event list \<Rightarrow> 'q) \<Rightarrow> ('k, 'q) shard \<Rightarrow> wheel_item list \<Rightarrow>
   ('k, 'q) shard option" where
  "process_bucket send s [] = Some s"
| "process_bucket send s ((idx, ver) # rest) = do {
     e \<leftarrow> get_at (entries s) idx;
     if \<not> in_use e \<or> e_version e \<noteq> ver then process_bucket send s rest
     else if tick s < expire_tick e then do {
       s \<leftarrow> schedule s idx;
       process_bucket send s rest
     } else do {
       s \<leftarrow> expire_entry send s idx;
       process_bucket send s rest
     }
   }"

text \<open>\<^verbatim>\<open>bucket.retain\<close> of \<^verbatim>\<open>on_tick\<close>; the closure indexes the slab.\<close>

fun retain_current :: "'k entry list \<Rightarrow> wheel_item list \<Rightarrow> wheel_item list option" where
  "retain_current es [] = Some []"
| "retain_current es ((idx, ver) # rest) = do {
     e \<leftarrow> get_at es idx;
     rest' \<leftarrow> retain_current es rest;
     Some (if in_use e \<and> e_version e = ver then (idx, ver) # rest' else rest')
   }"

text \<open>The body of the loop of \<^verbatim>\<open>on_tick\<close>, after \<^verbatim>\<open>self.tick += 1\<close>.\<close>

definition cascade :: "('k, 'q) shard \<Rightarrow> ('k, 'q) shard option" where
  "cascade s =
     (if tick s mod WHEEL_L1 = 0 then do {
        s \<leftarrow> cascade_l2 s;
        if tick s div WHEEL_L1 mod WHEEL_L2 = 0 then cascade_l3 s else Some s
      } else Some s)"

definition tick_body ::
  "('q \<Rightarrow> 'k cache_event list \<Rightarrow> 'q) \<Rightarrow> ('k, 'q) shard \<Rightarrow> ('k, 'q) shard option" where
  "tick_body send s = do {
     s \<leftarrow> cascade s;
     let slot = tick s mod WHEEL_L1;
     bucket \<leftarrow> get_at (wheel_l1 s) slot;
     let s = s\<lparr>wheel_l1 := (wheel_l1 s)[slot := []]\<rparr>;
     bucket \<leftarrow> (if COMPACT_THRESHOLD < length bucket then retain_current (entries s) bucket
                else Some bucket);
     process_bucket send s bucket
   }"

section \<open>Commands\<close>

definition shard_insert :: "('k \<Rightarrow> u64) \<Rightarrow> ('k, 'q) shard \<Rightarrow> 'k \<Rightarrow> nat \<Rightarrow> ('k, 'q) shard option" where
  "shard_insert hash s k ttl = (let h = hash k in do {
     old \<leftarrow> find_entry s k h;
     s \<leftarrow> (case old of None \<Rightarrow> Some s | Some old_idx \<Rightarrow> free (remove_index s h old_idx) old_idx);
     case alloc s of
       (Some idx, s) \<Rightarrow> do {
         e \<leftarrow> get_at (entries s) idx;
         let s = s\<lparr>entries := (entries s)[idx := entry_write e k h ttl (tick s)]\<rparr>;
         schedule (insert_index s h idx) idx
       }
     | (None, s) \<Rightarrow> Some s
   })"

definition shard_refresh :: "('k \<Rightarrow> u64) \<Rightarrow> ('k, 'q) shard \<Rightarrow> 'k \<Rightarrow> ('k, 'q) shard option" where
  "shard_refresh hash s k = do {
     found \<leftarrow> find_entry s k (hash k);
     case found of
       None \<Rightarrow> Some s
     | Some idx \<Rightarrow> do {
         e \<leftarrow> get_at (entries s) idx;
         schedule (s\<lparr>entries := (entries s)[idx :=
           e\<lparr>e_version := e_version e + 1, expire_tick := tick s + ttl_tick e\<rparr>]\<rparr>) idx
       }
   }"

definition shard_delete :: "('k \<Rightarrow> u64) \<Rightarrow> ('k, 'q) shard \<Rightarrow> 'k \<Rightarrow> ('k, 'q) shard option" where
  "shard_delete hash s k = do {
     found \<leftarrow> find_entry s k (hash k);
     case found of
       None \<Rightarrow> Some s
     | Some idx \<Rightarrow> free (remove_index s (hash k) idx) idx
   }"

fun shard_handle :: "('k \<Rightarrow> u64) \<Rightarrow> ('k, 'q) shard \<Rightarrow> 'k command \<Rightarrow> ('k, 'q) shard option" where
  "shard_handle hash s (Insert k ttl) = shard_insert hash s k ttl"
| "shard_handle hash s (Refresh k) = shard_refresh hash s k"
| "shard_handle hash s (Delete k) = shard_delete hash s k"

section \<open>The tick loop\<close>

text \<open>No operation of the loop body touches \<^verbatim>\<open>self.tick\<close>, which makes the loop terminate.\<close>

definition same_slab :: "('k, 'q) shard \<Rightarrow> ('k, 'q) shard \<Rightarrow> bool" where
  "same_slab s s' \<longleftrightarrow> entries s' = entries s \<and> free_head s' = free_head s \<and>
     index_map s' = index_map s \<and> tick s' = tick s \<and> event_tx s' = event_tx s \<and> batch s' = batch s"

lemma same_slab_refl [simp]: "same_slab s s"
  by (simp add: same_slab_def)

lemma same_slab_trans [trans]: "same_slab s t \<Longrightarrow> same_slab t u \<Longrightarrow> same_slab s u"
  by (simp add: same_slab_def)

lemma same_slab_wheels [simp]:
  "same_slab (s\<lparr>wheel_l1 := w\<rparr>) t = same_slab s t" "same_slab (s\<lparr>wheel_l2 := w\<rparr>) t = same_slab s t"
  "same_slab (s\<lparr>wheel_l3 := w\<rparr>) t = same_slab s t" "same_slab s (t\<lparr>wheel_l1 := w\<rparr>) = same_slab s t"
  "same_slab s (t\<lparr>wheel_l2 := w\<rparr>) = same_slab s t" "same_slab s (t\<lparr>wheel_l3 := w\<rparr>) = same_slab s t"
  by (simp_all add: same_slab_def)

lemma same_slabD:
  assumes "same_slab s s'"
  shows "entries s' = entries s" "free_head s' = free_head s" "index_map s' = index_map s"
    "tick s' = tick s" "event_tx s' = event_tx s" "batch s' = batch s"
  using assms by (simp_all add: same_slab_def)

lemma schedule_same_slab: "schedule s idx = Some s' \<Longrightarrow> same_slab s s'"
  by (auto simp: schedule_def Let_def bind_eq_Some_conv split: if_splits)

lemma cascade_items_same_slab: "cascade_items s items = Some s' \<Longrightarrow> same_slab s s'"
proof (induction s items rule: cascade_items.induct)
  case (1 s)
  then show ?case by simp
next
  case (2 s idx ver rest)
  from "2.prems" obtain e s1
    where e: "get_at (entries s) idx = Some e"
      and s1: "(if in_use e \<and> e_version e = ver then schedule s idx else Some s) = Some s1"
      and rest: "cascade_items s1 rest = Some s'"
    by (auto simp: bind_eq_Some_conv)
  have "same_slab s s1" using s1 by (auto split: if_splits dest: schedule_same_slab)
  also have "same_slab s1 s'" using e s1 rest by (rule "2.IH")
  finally show ?case .
qed

lemma cascade_same_slab:
  assumes "cascade s = Some s'"
  shows "same_slab s s'"
proof (cases "tick s mod WHEEL_L1 = 0")
  case True
  with assms obtain s1 where s1: "cascade_l2 s = Some s1"
    and s': "(if tick s1 div WHEEL_L1 mod WHEEL_L2 = 0 then cascade_l3 s1 else Some s1) = Some s'"
    by (auto simp: cascade_def bind_eq_Some_conv)
  have "same_slab s s1" using s1 cascade_items_same_slab
    by (fastforce simp: cascade_l2_def Let_def bind_eq_Some_conv)
  also have "same_slab s1 s'" using s' cascade_items_same_slab
    by (fastforce simp: cascade_l3_def Let_def bind_eq_Some_conv split: if_splits)
  finally show ?thesis .
next
  case False
  with assms show ?thesis by (simp add: cascade_def)
qed

lemma remove_index_frame [simp]:
  "entries (remove_index s h i) = entries s" "free_head (remove_index s h i) = free_head s"
  "tick (remove_index s h i) = tick s" "batch (remove_index s h i) = batch s"
  "event_tx (remove_index s h i) = event_tx s" "wheel_l1 (remove_index s h i) = wheel_l1 s"
  "wheel_l2 (remove_index s h i) = wheel_l2 s" "wheel_l3 (remove_index s h i) = wheel_l3 s"
  by (auto simp: remove_index_def Let_def split: option.splits)

lemma flush_frame [simp]:
  "entries (flush send s) = entries s" "free_head (flush send s) = free_head s"
  "index_map (flush send s) = index_map s" "tick (flush send s) = tick s"
  "wheel_l1 (flush send s) = wheel_l1 s" "wheel_l2 (flush send s) = wheel_l2 s"
  "wheel_l3 (flush send s) = wheel_l3 s" "batch (flush send s) = []"
  by (simp_all add: flush_def)

lemma expire_entry_tick: "expire_entry send s i = Some s' \<Longrightarrow> tick s' = tick s"
  by (auto simp: expire_entry_def Let_def bind_eq_Some_conv split: if_splits)

lemma process_bucket_tick: "process_bucket send s items = Some s' \<Longrightarrow> tick s' = tick s"
proof (induction send s items rule: process_bucket.induct)
  case (1 send s)
  then show ?case by simp
next
  case (2 send s idx ver rest)
  then show ?case
    by (auto simp: bind_eq_Some_conv expire_entry_tick schedule_same_slab [THEN same_slabD(4)]
        split: if_splits)
qed

lemma tick_body_tick: "tick_body send s = Some s' \<Longrightarrow> tick s' = tick s"
  by (auto simp: tick_body_def Let_def bind_eq_Some_conv
      dest!: process_bucket_tick cascade_same_slab [THEN same_slabD(4)])

function tick_loop ::
  "('q \<Rightarrow> 'k cache_event list \<Rightarrow> 'q) \<Rightarrow> nat \<Rightarrow> ('k, 'q) shard \<Rightarrow> ('k, 'q) shard option" where
  "tick_loop send target s =
     (if tick s < target
      then (case tick_body send (s\<lparr>tick := tick s + 1\<rparr>) of
              None \<Rightarrow> None
            | Some s' \<Rightarrow> tick_loop send target s')
      else Some s)"
  by pat_completeness auto
termination
  by (relation "measure (\<lambda>(send, target, s). target - tick s)")
    (auto dest!: tick_body_tick)

declare tick_loop.simps [simp del]

text \<open>\<^verbatim>\<open>elapsed_ms\<close> is \<^verbatim>\<open>(now - self.start).as_millis() as u64\<close>.\<close>

definition on_tick ::
  "('q \<Rightarrow> 'k cache_event list \<Rightarrow> 'q) \<Rightarrow> nat \<Rightarrow> ('k, 'q) shard \<Rightarrow> ('k, 'q) shard option" where
  "on_tick send elapsed_ms s =
     (let expected_tick = elapsed_ms div TICK_MS;
          target = min expected_tick (tick s + MAX_CATCHUP) in do {
        s \<leftarrow> tick_loop send target s;
        Some (if batch s \<noteq> [] then flush send s else s)
      })"

section \<open>The shard task\<close>

text \<open>
  What the environment does to \<^verbatim>\<open>run\<close>: \<^verbatim>\<open>try_recv\<close> yields a command, or finds the channel
  empty (then the ticker fires, at the given number of milliseconds after the start), or
  finds it disconnected, which ends the task.
\<close>

datatype 'k shard_input = Cmd "'k command" | EmptyThenTick nat | Disconnected

record ('k, 'q) shard_task =
  st_shard :: "('k, 'q) shard"
  st_running :: bool

definition run_step ::
  "('k \<Rightarrow> u64) \<Rightarrow> ('q \<Rightarrow> 'k cache_event list \<Rightarrow> 'q) \<Rightarrow> ('k, 'q) shard_task \<Rightarrow>
   'k shard_input \<Rightarrow> ('k, 'q) shard_task option" where
  "run_step hash send t i =
     (if \<not> st_running t then Some t
      else case i of
        Cmd c \<Rightarrow> map_option (\<lambda>s. t\<lparr>st_shard := s\<rparr>) (shard_handle hash (st_shard t) c)
      | EmptyThenTick ms \<Rightarrow> map_option (\<lambda>s. t\<lparr>st_shard := s\<rparr>) (on_tick send ms (st_shard t))
      | Disconnected \<Rightarrow>
          Some (t\<lparr>st_shard := (if batch (st_shard t) \<noteq> [] then flush send (st_shard t)
                               else st_shard t),
                  st_running := False\<rparr>))"

section \<open>The cache front\<close>

text \<open>
  \<^verbatim>\<open>(hash as usize) & (self.shards.len() - 1)\<close>: with no shard the subtraction underflows and
  the indexing panics.
\<close>

definition shard_select :: "nat \<Rightarrow> u64 \<Rightarrow> nat option" where
  "shard_select shard_len h =
     (if shard_len = 0 then None
      else let i = unat h AND (shard_len - 1) in if i < shard_len then Some i else None)"

text \<open>\<^verbatim>\<open>Duration::as_millis() as u64\<close> truncates; durations here are milliseconds.\<close>

definition ttl_to_tick :: "nat \<Rightarrow> nat" where
  "ttl_to_tick ttl_ms =
     (let ms = ttl_ms mod 2 ^ 64 in if ms = 0 then 1 else div_ceil ms TICK_MS)"

text \<open>
  The public calls: the selected shard and the command sent to it. \<open>try_send\<close> stands for the
  command channel of a shard; its answer is what \<^verbatim>\<open>hand_log\<close> wraps.
\<close>

definition cache_send ::
  "('k \<Rightarrow> u64) \<Rightarrow> (nat \<Rightarrow> 'k command \<Rightarrow> 'r) \<Rightarrow> nat \<Rightarrow> 'k \<Rightarrow> 'k command \<Rightarrow> 'r option" where
  "cache_send hash try_send shard_len k c =
     map_option (\<lambda>i. try_send i c) (shard_select shard_len (hash k))"

definition cache_insert ::
  "('k \<Rightarrow> u64) \<Rightarrow> (nat \<Rightarrow> 'k command \<Rightarrow> 'r) \<Rightarrow> nat \<Rightarrow> 'k \<Rightarrow> nat \<Rightarrow> 'r option" where
  "cache_insert hash try_send shard_len k ttl_ms =
     cache_send hash try_send shard_len k (Insert k (ttl_to_tick ttl_ms))"

definition cache_refresh ::
  "('k \<Rightarrow> u64) \<Rightarrow> (nat \<Rightarrow> 'k command \<Rightarrow> 'r) \<Rightarrow> nat \<Rightarrow> 'k \<Rightarrow> 'r option" where
  "cache_refresh hash try_send shard_len k = cache_send hash try_send shard_len k (Refresh k)"

definition cache_delete ::
  "('k \<Rightarrow> u64) \<Rightarrow> (nat \<Rightarrow> 'k command \<Rightarrow> 'r) \<Rightarrow> nat \<Rightarrow> 'k \<Rightarrow> 'r option" where
  "cache_delete hash try_send shard_len k = cache_send hash try_send shard_len k (Delete k)"

end
