(* ===== verification/C100k_Slab.thy ===== *)
theory C100k_Slab
  imports C100k
begin

text \<open>
  The slab of the expiry cache: entries, free list and hash index agree with each other.
  The invariant \<open>slab_ok\<close> and what each slab operation does to it, and the abstract view
  \<open>contents\<close> of a shard as a map from live keys to their expiry tick and time to live.
\<close>

section \<open>The invariant\<close>

definition live :: "('k, 'q) shard \<Rightarrow> nat \<Rightarrow> bool" where
  "live s i \<longleftrightarrow> i < length (entries s) \<and> in_use (entries s ! i)"

fun chain :: "'k entry list \<Rightarrow> nat \<Rightarrow> nat list \<Rightarrow> bool" where
  "chain es h [] \<longleftrightarrow> length es \<le> h"
| "chain es h (i # is) \<longleftrightarrow> h = i \<and> i < length es \<and> chain es (next_free (es ! i)) is"

definition idxs :: "('k, 'q) shard \<Rightarrow> u64 \<Rightarrow> nat list" where
  "idxs s h = (case index_map s h of None \<Rightarrow> [] | Some v \<Rightarrow> v)"

definition keys_ok :: "('k \<Rightarrow> u64) \<Rightarrow> ('k, 'q) shard \<Rightarrow> bool" where
  "keys_ok hash s \<longleftrightarrow>
     (\<forall>i. live s i \<longrightarrow> (\<exists>k. e_key (entries s ! i) = Some k \<and> e_hash (entries s ! i) = hash k)) \<and>
     (\<forall>i j. live s i \<longrightarrow> live s j \<longrightarrow> e_key (entries s ! i) = e_key (entries s ! j) \<longrightarrow> i = j)"

definition index_ok :: "('k, 'q) shard \<Rightarrow> bool" where
  "index_ok s \<longleftrightarrow>
     (\<forall>h. index_map s h \<noteq> Some [] \<and> distinct (idxs s h) \<and>
          set (idxs s h) = {i. live s i \<and> e_hash (entries s ! i) = h})"

definition free_ok :: "('k, 'q) shard \<Rightarrow> bool" where
  "free_ok s \<longleftrightarrow>
     (\<exists>fs. chain (entries s) (free_head s) fs \<and> distinct fs \<and>
           set fs = {i. i < length (entries s) \<and> \<not> in_use (entries s ! i)})"

definition slab_ok :: "('k \<Rightarrow> u64) \<Rightarrow> ('k, 'q) shard \<Rightarrow> bool" where
  "slab_ok hash s \<longleftrightarrow> keys_ok hash s \<and> index_ok s \<and> free_ok s"

lemma liveD [dest]: "live s i \<Longrightarrow> i < length (entries s)"
  by (simp add: live_def)

lemma live_key:
  assumes "slab_ok hash s" "live s i"
  obtains k where "e_key (entries s ! i) = Some k" "e_hash (entries s ! i) = hash k"
  using assms unfolding slab_ok_def keys_ok_def by blast

lemma live_key_unique:
  assumes "slab_ok hash s" "live s i" "live s j"
    "e_key (entries s ! i) = Some k" "e_key (entries s ! j) = Some k"
  shows "i = j"
  using assms unfolding slab_ok_def keys_ok_def by metis

lemma slab_cong:
  assumes "entries t = entries s" "free_head t = free_head s" "index_map t = index_map s"
  shows "slab_ok hash t = slab_ok hash s" "live t = live s"
  using assms
  by (simp_all add: slab_ok_def keys_ok_def index_ok_def free_ok_def live_def idxs_def fun_eq_iff)

lemma slab_ok_updates [simp]:
  "slab_ok hash (s\<lparr>wheel_l1 := w\<rparr>) = slab_ok hash s" "slab_ok hash (s\<lparr>wheel_l2 := w\<rparr>) = slab_ok hash s"
  "slab_ok hash (s\<lparr>wheel_l3 := w\<rparr>) = slab_ok hash s" "slab_ok hash (s\<lparr>tick := n\<rparr>) = slab_ok hash s"
  "slab_ok hash (s\<lparr>batch := b\<rparr>) = slab_ok hash s" "slab_ok hash (s\<lparr>event_tx := q\<rparr>) = slab_ok hash s"
  "slab_ok hash (flush send s) = slab_ok hash s"
  by (rule slab_cong(1); simp)+

lemma live_updates [simp]:
  "live (s\<lparr>wheel_l1 := w\<rparr>) = live s" "live (s\<lparr>wheel_l2 := w\<rparr>) = live s"
  "live (s\<lparr>wheel_l3 := w\<rparr>) = live s" "live (s\<lparr>tick := n\<rparr>) = live s"
  "live (s\<lparr>batch := b\<rparr>) = live s" "live (s\<lparr>event_tx := q\<rparr>) = live s"
  "live (flush send s) = live s" "live (s\<lparr>index_map := m\<rparr>) = live s"
  "live (s\<lparr>free_head := h\<rparr>) = live s" "live (remove_index s h' i) = live s"
  by (simp_all add: live_def fun_eq_iff)

lemma live_upd:
  assumes "i < length (entries s)"
  shows "live (s\<lparr>entries := (entries s)[i := e]\<rparr>) j \<longleftrightarrow> (if j = i then in_use e else live s j)"
  using assms by (auto simp: live_def nth_list_update)

lemma chain_upd: "i \<notin> set fs \<Longrightarrow> chain (es[i := e]) h fs = chain es h fs"
  by (induction fs arbitrary: h) simp_all

lemma chain_upd_same:
  assumes "next_free e = next_free (es ! i)"
  shows "chain (es[i := e]) h fs = chain es h fs"
proof (induction fs arbitrary: h)
  case (Cons j fs)
  have "next_free (es[i := e] ! j) = next_free (es ! j)"
    using assms by (cases "i = j"; cases "j < length es") (simp_all add: list_update_beyond)
  with Cons show ?case by simp
qed simp

section \<open>A new shard\<close>

lemma entries_new:
  "capacity < 2 ^ 32 \<Longrightarrow> i < capacity \<Longrightarrow> entries (shard_new capacity tx) ! i = entry_new_empty (i + 1)"
  "length (entries (shard_new capacity tx)) = capacity"
  by (simp_all add: shard_new_def)

lemma chain_new:
  assumes "capacity < 2 ^ 32"
  shows "n \<le> capacity \<Longrightarrow>
    chain (entries (shard_new capacity tx)) (capacity - n) [capacity - n..<capacity]"
proof (induction n)
  case 0
  then show ?case by (simp add: entries_new)
next
  case (Suc n)
  then have "[capacity - Suc n..<capacity] = (capacity - Suc n) # [capacity - n..<capacity]"
    by (simp add: upt_conv_Cons Suc_diff_Suc)
  moreover have "capacity - Suc n + 1 = capacity - n" using Suc.prems by simp
  ultimately show ?case using Suc assms
    by (simp add: entries_new entry_new_empty_def)
qed

lemma live_new [simp]: "\<not> live (shard_new capacity tx) i"
  by (simp add: live_def shard_new_def entry_new_empty_def)

lemma slab_ok_new:
  assumes "capacity < 2 ^ 32"
  shows "slab_ok hash (shard_new capacity tx)"
proof -
  have "chain (entries (shard_new capacity tx)) 0 [0..<capacity]"
    using chain_new [OF assms, of capacity] by simp
  moreover have "\<forall>i<capacity. \<not> in_use (entries (shard_new capacity tx) ! i)"
    using assms by (simp add: entries_new entry_new_empty_def)
  ultimately have "free_ok (shard_new capacity tx)"
    unfolding free_ok_def
    by (intro exI [where x = "[0..<capacity]"]) (auto simp: entries_new shard_new_def)
  moreover have "index_ok (shard_new capacity tx)"
    unfolding index_ok_def idxs_def by (simp add: shard_new_def) (simp add: live_def entry_new_empty_def)
  ultimately show ?thesis by (simp add: slab_ok_def keys_ok_def)
qed

section \<open>Lookup\<close>

lemma find_in_spec:
  assumes "\<forall>i\<in>set is. i < length es \<and> in_use (es ! i) \<and> e_key (es ! i) \<noteq> None"
  shows "\<exists>r. find_in es k is = Some r \<and>
    (case r of None \<Rightarrow> \<forall>i\<in>set is. e_key (es ! i) \<noteq> Some k
     | Some i \<Rightarrow> i \<in> set is \<and> e_key (es ! i) = Some k)"
  using assms
proof (induction "is")
  case (Cons j js)
  then obtain k' where j: "j < length es" "in_use (es ! j)" "e_key (es ! j) = Some k'"
    by auto
  from Cons obtain r where r: "find_in es k js = Some r"
    "case r of None \<Rightarrow> \<forall>i\<in>set js. e_key (es ! i) \<noteq> Some k
     | Some i \<Rightarrow> i \<in> set js \<and> e_key (es ! i) = Some k"
    by auto
  show ?case
  proof (cases "k' = k")
    case True
    with j show ?thesis by (simp add: get_at_def)
  next
    case False
    with j r show ?thesis by (auto simp: get_at_def split: option.splits)
  qed
qed simp

lemma find_entry_spec:
  assumes "slab_ok hash s"
  obtains (absent) "find_entry s k (hash k) = Some None"
      "\<And>i. live s i \<Longrightarrow> e_key (entries s ! i) \<noteq> Some k"
  | (present) i where "find_entry s k (hash k) = Some (Some i)" "live s i"
      "e_key (entries s ! i) = Some k" "e_hash (entries s ! i) = hash k"
proof -
  from assms have keys: "keys_ok hash s" and idx: "index_ok s" by (simp_all add: slab_ok_def)
  have set: "set (idxs s (hash k)) = {i. live s i \<and> e_hash (entries s ! i) = hash k}"
    using idx by (simp add: index_ok_def)
  have "\<forall>i\<in>set (idxs s (hash k)).
      i < length (entries s) \<and> in_use (entries s ! i) \<and> e_key (entries s ! i) \<noteq> None"
    using set keys by (auto simp: live_def keys_ok_def)
  from find_in_spec [OF this, of k] obtain r
    where r: "find_in (entries s) k (idxs s (hash k)) = Some r"
      and spec: "case r of None \<Rightarrow> \<forall>i\<in>set (idxs s (hash k)). e_key (entries s ! i) \<noteq> Some k
         | Some i \<Rightarrow> i \<in> set (idxs s (hash k)) \<and> e_key (entries s ! i) = Some k"
    by blast
  have find: "find_entry s k (hash k) = Some r"
    using r by (auto simp: find_entry_def idxs_def split: option.splits)
  show thesis
  proof (cases r)
    case None
    have "e_key (entries s ! i) \<noteq> Some k" if "live s i" for i
      using keys that spec None set by (fastforce simp: keys_ok_def)
    then show thesis using absent find None by blast
  next
    case (Some i)
    with spec set find show thesis by (intro present) auto
  qed
qed

section \<open>Releasing a slot\<close>

text \<open>
  \<^verbatim>\<open>remove_index\<close> followed by \<^verbatim>\<open>free\<close> (in \<^verbatim>\<open>insert\<close> and \<^verbatim>\<open>delete\<close>) and the expiry branch of
  \<^verbatim>\<open>process_bucket\<close> do the same to the slab.
\<close>

definition release :: "('k, 'q) shard \<Rightarrow> nat \<Rightarrow> ('k, 'q) shard" where
  "release s i =
     (remove_index s (e_hash (entries s ! i)) i)
       \<lparr>entries := (entries s)[i := (entries s ! i)
          \<lparr>e_key := None, in_use := False, next_free := free_head s\<rparr>],
        free_head := i\<rparr>"

lemma release_frame [simp]:
  "tick (release s i) = tick s" "wheel_l1 (release s i) = wheel_l1 s"
  "wheel_l2 (release s i) = wheel_l2 s" "wheel_l3 (release s i) = wheel_l3 s"
  "batch (release s i) = batch s" "event_tx (release s i) = event_tx s"
  "length (entries (release s i)) = length (entries s)" "free_head (release s i) = i"
  by (simp_all add: release_def)

lemma entries_release: "j \<noteq> i \<Longrightarrow> entries (release s i) ! j = entries s ! j"
  by (simp add: release_def)

lemma hash_release [simp]: "e_hash (entries (release s i) ! j) = e_hash (entries s ! j)"
  by (cases "i < length (entries s)") (auto simp: release_def nth_list_update list_update_beyond)

lemma entry_release_commute:
  "e\<lparr>in_use := a, e_key := b, next_free := c\<rparr> = e\<lparr>e_key := b, in_use := a, next_free := c\<rparr>"
  by simp

lemma live_release:
  "live s i \<Longrightarrow> live (release s i) j \<longleftrightarrow> live s j \<and> j \<noteq> i"
  by (auto simp: release_def live_def nth_list_update)

lemma idxs_remove_index:
  assumes "distinct (idxs s h)" "i \<in> set (idxs s h)"
  shows "set (idxs (remove_index s h i) h) = set (idxs s h) - {i}"
    "distinct (idxs (remove_index s h i) h)" "index_map (remove_index s h i) h \<noteq> Some []"
    "h' \<noteq> h \<Longrightarrow> index_map (remove_index s h i) h' = index_map s h'"
proof -
  from assms obtain v where v: "index_map s h = Some v" "distinct v" "i \<in> set v"
    by (auto simp: idxs_def split: option.splits)
  then obtain p where p: "position i v = Some p" by (metis position_None option.exhaust)
  then have "p < length v" "v ! p = i" by (auto dest: position_SomeD)
  with v(2) have d: "distinct (swap_remove v p)" and s: "set (swap_remove v p) = set v - {i}"
    by (simp_all add: swap_remove_distinct)
  have im: "index_map (remove_index s h i) =
      (index_map s)(h := if swap_remove v p = [] then None else Some (swap_remove v p))"
    using v p by (simp add: remove_index_def Let_def)
  have ix: "idxs (remove_index s h i) h = swap_remove v p" "idxs s h = v"
    using v by (simp_all add: idxs_def im)
  show "set (idxs (remove_index s h i) h) = set (idxs s h) - {i}"
    "distinct (idxs (remove_index s h i) h)" using d s by (simp_all only: ix)
  show "index_map (remove_index s h i) h \<noteq> Some []" by (simp add: im)
  show "h' \<noteq> h \<Longrightarrow> index_map (remove_index s h i) h' = index_map s h'" by (simp add: im)
qed

lemma slab_ok_release:
  assumes ok: "slab_ok hash s" and l: "live s i"
  shows "slab_ok hash (release s i)"
proof -
  let ?t = "release s i" and ?h = "e_hash (entries s ! i)"
  from ok have keys: "keys_ok hash s" and idx: "index_ok s" and fr: "free_ok s"
    by (simp_all add: slab_ok_def)
  have "i \<in> set (idxs s ?h)" "distinct (idxs s ?h)" using idx l by (auto simp: index_ok_def)
  note rm = idxs_remove_index [OF this(2,1)]
  have im: "index_map ?t = index_map (remove_index s ?h i)" by (simp add: release_def)
  have "keys_ok hash ?t"
    using keys l by (auto simp: keys_ok_def live_release entries_release)
  moreover have "index_map ?t h \<noteq> Some [] \<and> distinct (idxs ?t h) \<and>
      set (idxs ?t h) = {j. live ?t j \<and> e_hash (entries ?t ! j) = h}" for h
  proof (cases "h = ?h")
    case True
    then show ?thesis using rm idx l
      by (auto simp: idxs_def im index_ok_def live_release entries_release)
  next
    case False
    then have "index_map ?t h = index_map s h" by (simp add: im rm(4))
    then show ?thesis using idx l False
      by (auto simp: idxs_def index_ok_def live_release entries_release)
  qed
  then have "index_ok ?t" by (simp add: index_ok_def)
  moreover have "free_ok ?t"
  proof -
    from fr obtain fs where fs: "chain (entries s) (free_head s) fs" "distinct fs"
      "set fs = {j. j < length (entries s) \<and> \<not> in_use (entries s ! j)}"
      by (auto simp: free_ok_def)
    have i: "i \<notin> set fs" "i < length (entries s)" using fs(3) l by (auto simp: live_def)
    then have "chain (entries ?t) (free_head ?t) (i # fs)"
      using fs(1) by (simp add: release_def chain_upd)
    moreover have "set (i # fs) = {j. j < length (entries ?t) \<and> \<not> in_use (entries ?t ! j)}"
      using fs(3) i by (auto simp: release_def nth_list_update)
    ultimately show ?thesis using fs(2) i(1) unfolding free_ok_def by (metis distinct.simps(2))
  qed
  ultimately show ?thesis by (simp add: slab_ok_def)
qed

lemma free_remove_index_eq:
  assumes "slab_ok hash s" "live s i" "e_hash (entries s ! i) = h"
  shows "free (remove_index s h i) i = Some (release s i)"
proof -
  from assms(1,2) obtain k where "e_key (entries s ! i) = Some k" by (rule live_key)
  with assms(2,3) show ?thesis
    by (auto simp: free_def drop_key_def release_def live_def get_at_def)
qed

lemma expire_entry_eq:
  assumes "slab_ok hash s" "live s i"
  obtains k where "e_key (entries s ! i) = Some k"
    "expire_entry send s i =
       Some (let s' = (release s i)\<lparr>batch := batch s @
               [\<lparr>ev_key = k, ev_hash = e_hash (entries s ! i), ev_version = e_version (entries s ! i)\<rparr>]\<rparr>
             in if BATCH \<le> length (batch s') then flush send s' else s')"
proof -
  from assms obtain k where k: "e_key (entries s ! i) = Some k" by (rule live_key)
  have "remove_index (s\<lparr>entries := es\<rparr>) h i = (remove_index s h i)\<lparr>entries := es\<rparr>" for es h
    by (auto simp: remove_index_def Let_def split: option.splits)
  then show thesis using k assms(2)
    by (intro that [of k])
      (auto simp: expire_entry_def take_key_def release_def live_def get_at_def Let_def
        entry_release_commute)
qed

section \<open>Occupying a slot\<close>

definition occupy :: "('k \<Rightarrow> u64) \<Rightarrow> ('k, 'q) shard \<Rightarrow> nat \<Rightarrow> 'k \<Rightarrow> nat \<Rightarrow> ('k, 'q) shard" where
  "occupy hash s i k ttl =
     insert_index
       (s\<lparr>free_head := next_free (entries s ! i),
          entries := (entries s)[i := entry_write (entries s ! i) k (hash k) ttl (tick s)]\<rparr>)
       (hash k) i"

lemma occupy_frame [simp]:
  "tick (occupy hash s i k ttl) = tick s" "wheel_l1 (occupy hash s i k ttl) = wheel_l1 s"
  "wheel_l2 (occupy hash s i k ttl) = wheel_l2 s" "wheel_l3 (occupy hash s i k ttl) = wheel_l3 s"
  "batch (occupy hash s i k ttl) = batch s" "event_tx (occupy hash s i k ttl) = event_tx s"
  "length (entries (occupy hash s i k ttl)) = length (entries s)"
  "entries (occupy hash s i k ttl) =
     (entries s)[i := entry_write (entries s ! i) k (hash k) ttl (tick s)]"
  by (simp_all add: occupy_def insert_index_def)

lemma live_occupy:
  "i < length (entries s) \<Longrightarrow> live (occupy hash s i k ttl) j \<longleftrightarrow> j = i \<or> live s j"
  by (auto simp: live_def nth_list_update entry_write_def)

lemma free_slot:
  assumes "free_ok s"
  shows "free_head s < length (entries s) \<Longrightarrow> \<not> live s (free_head s)"
    and "length (entries s) \<le> free_head s \<Longrightarrow> i < length (entries s) \<Longrightarrow> live s i"
proof -
  from assms obtain fs where fs: "chain (entries s) (free_head s) fs" "distinct fs"
    "set fs = {j. j < length (entries s) \<and> \<not> in_use (entries s ! j)}"
    by (auto simp: free_ok_def)
  show "\<not> live s (free_head s)" if "free_head s < length (entries s)"
    using fs(1,3) that by (cases fs) (auto simp: live_def)
  show "live s i" if "length (entries s) \<le> free_head s" "i < length (entries s)"
  proof -
    have "fs = []" using fs(1) that(1) by (cases fs) auto
    then show ?thesis using fs(3) that(2) by (auto simp: live_def)
  qed
qed

lemma occupied_entries:
  assumes "i < length (entries s)"
  shows "entries (occupy hash s i k ttl) ! j = (if j = i then entry_write (entries s ! i) k (hash k) ttl (tick s) else entries s ! j)"
    and "e_key (entries (occupy hash s i k ttl) ! i) = Some k" "e_hash (entries (occupy hash s i k ttl) ! i) = hash k"
    and "in_use (entries (occupy hash s i k ttl) ! j) \<longleftrightarrow> j = i \<or> in_use (entries s ! j)"
  using assms by (cases "j = i"; simp add: entry_write_def)+

lemma keys_ok_occupy:
  assumes keys: "keys_ok hash s" and i: "i < length (entries s)" "\<not> live s i"
    and new: "\<And>j. live s j \<Longrightarrow> e_key (entries s ! j) \<noteq> Some k"
  shows "keys_ok hash (occupy hash s i k ttl)"
proof -
  let ?t = "occupy hash s i k ttl"
  note key = occupied_entries(2,3) [OF i(1), of hash k ttl]
  have old: "entries ?t ! j = entries s ! j" if "live s j" for j
    using that i(2) by (subst occupied_entries(1) [OF i(1)]) auto
  have "j1 = j2" if "live ?t j1" "live ?t j2" "e_key (entries ?t ! j1) = e_key (entries ?t ! j2)" for j1 j2
    using that keys new key old i(1) unfolding live_occupy [OF i(1)] keys_ok_def by metis
  moreover have "\<exists>k'. e_key (entries ?t ! j) = Some k' \<and> e_hash (entries ?t ! j) = hash k'" if "live ?t j" for j
    using that keys key old unfolding live_occupy [OF i(1)] keys_ok_def by metis
  ultimately show ?thesis unfolding keys_ok_def by blast
qed

lemma index_ok_occupy:
  assumes "index_ok s" and i: "i < length (entries s)" "\<not> live s i"
  shows "index_ok (occupy hash s i k ttl)"
proof -
  let ?t = "occupy hash s i k ttl"
  have im: "index_map ?t = (index_map s)(hash k \<mapsto> idxs s (hash k) @ [i])" by (simp add: occupy_def insert_index_def idxs_def)
  have old: "entries ?t ! j = entries s ! j" if "live s j" for j
    using that i(2) by (subst occupied_entries(1) [OF i(1)]) auto
  have "index_map ?t h \<noteq> Some [] \<and> distinct (idxs ?t h) \<and> set (idxs ?t h) = {j. live ?t j \<and> e_hash (entries ?t ! j) = h}" for h
  proof -
    have ix: "set (idxs s h) = {j. live s j \<and> e_hash (entries s ! j) = h}" "distinct (idxs s h)" "index_map s h \<noteq> Some []"
      using assms(1) by (simp_all add: index_ok_def)
    have "idxs ?t h = idxs s h @ (if h = hash k then [i] else [])" by (simp add: idxs_def im)
    moreover have "{j. live ?t j \<and> e_hash (entries ?t ! j) = h} =
        {j. live s j \<and> e_hash (entries s ! j) = h} \<union> (if h = hash k then {i} else {})"
      unfolding live_occupy [OF i(1)] using occupied_entries(3) [OF i(1)] old i(2) by auto
    ultimately show ?thesis using ix i(2) by (simp add: im)
  qed
  then show ?thesis by (simp add: index_ok_def)
qed

lemma free_ok_occupy:
  assumes "free_ok s" and i: "i = free_head s" "i < length (entries s)"
  shows "free_ok (occupy hash s i k ttl)"
proof -
  let ?t = "occupy hash s i k ttl"
  from assms(1) obtain fs where fs: "chain (entries s) (free_head s) fs" "distinct fs"
    "set fs = {j. j < length (entries s) \<and> \<not> in_use (entries s ! j)}"
    by (auto simp: free_ok_def)
  from fs(1) i obtain fs' where fs': "fs = i # fs'" "chain (entries s) (next_free (entries s ! i)) fs'"
    by (cases fs) auto
  have "free_head ?t = next_free (entries s ! i)" by (simp add: occupy_def insert_index_def)
  then have "chain (entries ?t) (free_head ?t) fs'" using fs' fs(2) by (simp add: chain_upd)
  moreover have "set fs' = set fs - {i}" using fs(2) fs'(1) by simp
  then have "set fs' = {j. j < length (entries ?t) \<and> \<not> in_use (entries ?t ! j)}"
    unfolding fs(3) occupied_entries(4) [OF i(2)] by auto
  moreover have "distinct fs'" using fs(2) fs'(1) by simp
  ultimately show ?thesis unfolding free_ok_def by blast
qed

lemma slab_ok_occupy:
  assumes ok: "slab_ok hash s" and i: "i = free_head s" "i < length (entries s)"
    and new: "\<And>j. live s j \<Longrightarrow> e_key (entries s ! j) \<noteq> Some k"
  shows "slab_ok hash (occupy hash s i k ttl)"
proof -
  from ok have parts: "keys_ok hash s" "index_ok s" "free_ok s" by (simp_all add: slab_ok_def)
  have "\<not> live s i" using free_slot(1) [OF parts(3)] i by simp
  with parts i new show ?thesis unfolding slab_ok_def by (blast intro: keys_ok_occupy index_ok_occupy free_ok_occupy)
qed

section \<open>Refreshing an entry\<close>

definition renew :: "('k, 'q) shard \<Rightarrow> nat \<Rightarrow> ('k, 'q) shard" where
  "renew s i = s\<lparr>entries := (entries s)[i := (entries s ! i)
     \<lparr>e_version := e_version (entries s ! i) + 1,
      expire_tick := tick s + ttl_tick (entries s ! i)\<rparr>]\<rparr>"

lemma renew_frame [simp]:
  "tick (renew s i) = tick s" "wheel_l1 (renew s i) = wheel_l1 s"
  "wheel_l2 (renew s i) = wheel_l2 s" "wheel_l3 (renew s i) = wheel_l3 s"
  "batch (renew s i) = batch s" "event_tx (renew s i) = event_tx s"
  "length (entries (renew s i)) = length (entries s)"
  "free_head (renew s i) = free_head s" "index_map (renew s i) = index_map s"
  by (simp_all add: renew_def)

lemma entries_renew:
  "j \<noteq> i \<Longrightarrow> entries (renew s i) ! j = entries s ! j"
  "i < length (entries s) \<Longrightarrow> entries (renew s i) ! i = (entries s ! i)
     \<lparr>e_version := e_version (entries s ! i) + 1,
      expire_tick := tick s + ttl_tick (entries s ! i)\<rparr>"
  by (simp_all add: renew_def)

lemma renew_same:
  "i < length (entries s) \<Longrightarrow> in_use (entries (renew s i) ! j) = in_use (entries s ! j)"
  "i < length (entries s) \<Longrightarrow> e_key (entries (renew s i) ! j) = e_key (entries s ! j)"
  "i < length (entries s) \<Longrightarrow> e_hash (entries (renew s i) ! j) = e_hash (entries s ! j)"
  "i < length (entries s) \<Longrightarrow> ttl_tick (entries (renew s i) ! j) = ttl_tick (entries s ! j)"
  by (cases "j = i"; simp add: entries_renew)+

lemma live_renew: "i < length (entries s) \<Longrightarrow> live (renew s i) = live s"
  by (simp add: live_def fun_eq_iff renew_same)

lemma slab_ok_renew:
  assumes "slab_ok hash s" and i: "i < length (entries s)"
  shows "slab_ok hash (renew s i)"
proof -
  have "chain (entries (renew s i)) h fs = chain (entries s) h fs" for h fs
    by (simp add: renew_def chain_upd_same)
  with assms show ?thesis
    by (simp add: slab_ok_def keys_ok_def index_ok_def free_ok_def live_renew renew_same idxs_def)
qed

section \<open>The abstract contents of a shard\<close>

definition contents :: "('k, 'q) shard \<Rightarrow> 'k \<rightharpoonup> nat \<times> nat" where
  "contents s k =
     map_option (\<lambda>e. (expire_tick e, ttl_tick e))
       (List.find (\<lambda>e. in_use e \<and> e_key e = Some k) (entries s))"

lemma contents_None: "contents s k = None \<longleftrightarrow> (\<forall>i. live s i \<longrightarrow> e_key (entries s ! i) \<noteq> Some k)"
  by (auto simp: contents_def find_None_iff live_def in_set_conv_nth)

lemma contents_Some:
  assumes "slab_ok hash s" "live s i" "e_key (entries s ! i) = Some k"
  shows "contents s k = Some (expire_tick (entries s ! i), ttl_tick (entries s ! i))"
proof -
  have "contents s k \<noteq> None" using assms by (auto simp: contents_None)
  then obtain e where e: "List.find (\<lambda>e. in_use e \<and> e_key e = Some k) (entries s) = Some e"
    by (auto simp: contents_def)
  then obtain j where "j < length (entries s)" "in_use (entries s ! j)"
    "e_key (entries s ! j) = Some k" "e = entries s ! j"
    by (auto simp: find_Some_iff)
  moreover from this have "j = i"
    using live_key_unique [OF assms(1), of j i k] assms(2,3) by (simp add: live_def)
  ultimately show ?thesis using e by (simp add: contents_def)
qed

lemma contentsE:
  assumes "slab_ok hash s" "contents s k = Some v"
  obtains i where "live s i" "e_key (entries s ! i) = Some k"
    "v = (expire_tick (entries s ! i), ttl_tick (entries s ! i))"
  using assms contents_None [of s k] contents_Some [OF assms(1)] by (metis option.distinct(1) option.inject)

lemma contents_cong: "entries t = entries s \<Longrightarrow> contents t = contents s"
  by (simp add: contents_def fun_eq_iff)

lemma contents_updates [simp]:
  "contents (s\<lparr>wheel_l1 := w\<rparr>) = contents s" "contents (s\<lparr>wheel_l2 := w\<rparr>) = contents s"
  "contents (s\<lparr>wheel_l3 := w\<rparr>) = contents s" "contents (s\<lparr>tick := n\<rparr>) = contents s"
  "contents (s\<lparr>batch := b\<rparr>) = contents s" "contents (flush send s) = contents s"
  by (rule contents_cong; simp)+

lemma contents_release:
  assumes ok: "slab_ok hash s" and l: "live s i" and k: "e_key (entries s ! i) = Some k"
  shows "contents (release s i) = (contents s)(k := None)"
proof
  fix k'
  show "contents (release s i) k' = ((contents s)(k := None)) k'"
  proof (cases "contents (release s i) k'")
    case None
    have "contents s k' = None" if "k' \<noteq> k"
      using None that l k by (auto simp: contents_None live_release) (metis entries_release option.inject)
    with None show ?thesis by auto
  next
    case (Some v)
    then obtain j where j: "live (release s i) j" "e_key (entries (release s i) ! j) = Some k'"
      "v = (expire_tick (entries (release s i) ! j), ttl_tick (entries (release s i) ! j))"
      using slab_ok_release [OF ok l] by (blast elim: contentsE)
    then have "live s j" "j \<noteq> i" using l by (auto simp: live_release)
    moreover from this have "e_key (entries s ! j) = Some k'" using j(2) by (simp add: entries_release)
    moreover from calculation have "k' \<noteq> k" using live_key_unique [OF ok _ l _ k, of j] by auto
    ultimately show ?thesis using contents_Some [OF ok, of j k'] j(3) Some
      by (simp add: entries_release)
  qed
qed

lemma contents_occupy:
  assumes ok: "slab_ok hash s" and i: "i = free_head s" "i < length (entries s)"
    and new: "\<And>j. live s j \<Longrightarrow> e_key (entries s ! j) \<noteq> Some k"
  shows "contents (occupy hash s i k ttl) = (contents s)(k \<mapsto> (tick s + ttl, ttl))"
proof
  fix k'
  let ?t = "occupy hash s i k ttl"
  have ok': "slab_ok hash ?t" using slab_ok_occupy [OF ok i new] .
  have nl: "\<not> live s i" using free_slot(1) i ok by (auto simp: slab_ok_def)
  show "contents ?t k' = ((contents s)(k \<mapsto> (tick s + ttl, ttl))) k'"
  proof (cases "k' = k")
    case True
    have "live ?t i" using i(2) by (simp add: live_occupy)
    moreover have "entries ?t ! i = entry_write (entries s ! i) k (hash k) ttl (tick s)"
      using i(2) by simp
    ultimately show ?thesis using contents_Some [OF ok', of i k] True
      by (simp add: entry_write_def)
  next
    case False
    have e: "entries ?t ! j = entries s ! j" if "j \<noteq> i" for j using that by simp
    show ?thesis
    proof (cases "contents s k'")
      case None
      then have "contents ?t k' = None"
        using False i(2) nl by (auto simp: contents_None live_occupy nth_list_update entry_write_def)
      with None False show ?thesis by simp
    next
      case (Some v)
      then obtain j where j: "live s j" "e_key (entries s ! j) = Some k'"
        "v = (expire_tick (entries s ! j), ttl_tick (entries s ! j))"
        using ok by (blast elim: contentsE)
      then have "j \<noteq> i" using nl by auto
      with j have "contents ?t k' = Some v"
        using contents_Some [OF ok', of j k'] i(2) by (simp add: live_occupy)
      with Some False show ?thesis by simp
    qed
  qed
qed

lemma contents_renew:
  assumes ok: "slab_ok hash s" and l: "live s i" and k: "e_key (entries s ! i) = Some k"
  shows "contents (renew s i) =
    (contents s)(k \<mapsto> (tick s + ttl_tick (entries s ! i), ttl_tick (entries s ! i)))"
proof
  fix k'
  have i: "i < length (entries s)" using l by auto
  have ok': "slab_ok hash (renew s i)" using slab_ok_renew [OF ok i] .
  show "contents (renew s i) k' = ((contents s)
      (k \<mapsto> (tick s + ttl_tick (entries s ! i), ttl_tick (entries s ! i)))) k'"
  proof (cases "contents s k'")
    case None
    moreover have "contents (renew s i) k' = None"
      using None i by (simp add: contents_None live_renew renew_same)
    moreover have "k' \<noteq> k" using None l k by (auto simp: contents_None)
    ultimately show ?thesis by simp
  next
    case (Some v)
    then obtain j where j: "live s j" "e_key (entries s ! j) = Some k'"
      "v = (expire_tick (entries s ! j), ttl_tick (entries s ! j))"
      using ok by (blast elim: contentsE)
    then have c: "contents (renew s i) k' =
        Some (expire_tick (entries (renew s i) ! j), ttl_tick (entries (renew s i) ! j))"
      using i by (intro contents_Some [OF ok']) (simp_all add: live_renew renew_same)
    show ?thesis
    proof (cases "j = i")
      case True
      with c j k i show ?thesis by (simp add: entries_renew)
    next
      case False
      then have "k' \<noteq> k" using live_key_unique [OF ok j(1) l _ k] j(2) by auto
      with c j Some False show ?thesis by (simp add: entries_renew)
    qed
  qed
qed

end
