(* ===== verification/C100k_Wheel.thy ===== *)
theory C100k_Wheel
  imports C100k_Slab
begin

text \<open>
  The timer wheel. A level with slots of \<open>period\<close> ticks is visited at the multiples of its
  period; the locale \<open>wheel_level\<close> holds what is common to the three levels, and is
  interpreted at their sizes. The timeliness invariant \<open>timely\<close> says of every live entry
  that some wheel item carrying its current version is visited early enough; every
  operation keeps it, and it bounds how late an entry can expire.
\<close>

section \<open>One level of the wheel\<close>

text \<open>\<open>item_due period slots w a b x\<close>: item \<open>x\<close> lies in a slot of \<open>w\<close> that is visited at some
  tick between \<open>a\<close> and \<open>b\<close>.\<close>

definition item_due :: "nat \<Rightarrow> nat \<Rightarrow> 'a list list \<Rightarrow> nat \<Rightarrow> nat \<Rightarrow> 'a \<Rightarrow> bool" where
  "item_due period slots w a b x \<longleftrightarrow>
     (\<exists>t. a \<le> t \<and> t \<le> b \<and> t mod period = 0 \<and> x \<in> set (w ! (t div period mod slots)))"

lemma item_due_mono:
  assumes "item_due p n w a b x" "a' \<le> a" "b \<le> b'" "\<And>j. set (w ! j) \<subseteq> set (w' ! j)"
  shows "item_due p n w' a' b' x"
  using assms unfolding item_due_def by (meson le_trans subsetD)

locale wheel_level =
  fixes period slots :: nat
  assumes period_pos: "0 < period" and slots_pos: "0 < slots"
begin

lemma slot_bound: "t div period mod slots < slots"
  using slots_pos by simp

lemma due_placed:
  assumes "now + period \<le> expire" "x \<in> set (w ! (expire div period mod slots))"
  shows "item_due period slots w (now + 1) expire x"
  unfolding item_due_def
proof (intro exI conjI)
  let ?t = "expire div period * period"
  have "expire = ?t + expire mod period" by simp
  moreover have "expire mod period < period" using period_pos by simp
  ultimately show "now + 1 \<le> ?t" using assms(1) by linarith
  show "?t \<le> expire" by simp
  show "?t mod period = 0" by simp
  show "x \<in> set (w ! (?t div period mod slots))" using assms(2) period_pos by simp
qed

lemma due_visited:
  assumes "item_due period slots w now b x"
  shows "item_due period slots (w[now div period mod slots := []]) (now + 1) b x \<or>
    (now \<le> b \<and> x \<in> set (w ! (now div period mod slots)))"
proof -
  from assms obtain t where t: "now \<le> t" "t \<le> b" "t mod period = 0"
    "x \<in> set (w ! (t div period mod slots))"
    by (auto simp: item_due_def)
  show ?thesis
  proof (cases "t div period mod slots = now div period mod slots")
    case True
    with t show ?thesis by auto
  next
    case False
    then have "t \<noteq> now" by auto
    with t False show ?thesis unfolding item_due_def by (intro disjI1 exI [of _ t]) auto
  qed
qed

lemma due_not_visited:
  assumes "item_due period slots w now b x" "now mod period \<noteq> 0"
  shows "item_due period slots w (now + 1) b x"
proof -
  from assms(1) obtain t where t: "now \<le> t" "t \<le> b" "t mod period = 0"
    "x \<in> set (w ! (t div period mod slots))"
    by (auto simp: item_due_def)
  moreover from t(3) assms(2) have "t \<noteq> now" by auto
  ultimately show ?thesis unfolding item_due_def by (intro exI [of _ t]) auto
qed

end

interpretation l1: wheel_level 1 512
  by unfold_locales auto

interpretation l2: wheel_level 512 128
  by unfold_locales auto

interpretation l3: wheel_level 65536 128
  by unfold_locales auto

section \<open>Well-formed wheels\<close>

definition items_ok :: "nat \<Rightarrow> wheel_item list list \<Rightarrow> bool" where
  "items_ok n w \<longleftrightarrow> (\<forall>b\<in>set w. \<forall>x\<in>set b. fst x < n)"

definition wheels_ok :: "('k, 'q) shard \<Rightarrow> bool" where
  "wheels_ok s \<longleftrightarrow>
     length (wheel_l1 s) = WHEEL_L1 \<and> length (wheel_l2 s) = WHEEL_L2 \<and> length (wheel_l3 s) = WHEEL_L3 \<and>
     items_ok (length (entries s)) (wheel_l1 s) \<and> items_ok (length (entries s)) (wheel_l2 s) \<and>
     items_ok (length (entries s)) (wheel_l3 s)"

lemma items_ok_push:
  assumes "items_ok n w" "fst x < n" "i < length w"
  shows "items_ok n (w[i := w ! i @ [x]])"
proof -
  have "w ! i \<in> set w" using assms(3) by simp
  with assms(1,2) have "\<forall>y\<in>set (w ! i @ [x]). fst y < n" by (auto simp: items_ok_def)
  moreover have "set (w[i := w ! i @ [x]]) \<subseteq> Set.insert (w ! i @ [x]) (set w)"
    by (rule set_update_subset_insert)
  ultimately show ?thesis using assms(1) unfolding items_ok_def by blast
qed

lemma items_ok_take: "items_ok n w \<Longrightarrow> items_ok n (w[i := []])"
  unfolding items_ok_def by (auto dest!: set_update_subset_insert [THEN subsetD])

lemma items_ok_bucket: "items_ok n w \<Longrightarrow> i < length w \<Longrightarrow> x \<in> set (w ! i) \<Longrightarrow> fst x < n"
  unfolding items_ok_def by auto

lemma wheels_ok_cong:
  assumes "wheel_l1 t = wheel_l1 s" "wheel_l2 t = wheel_l2 s" "wheel_l3 t = wheel_l3 s"
    "length (entries t) = length (entries s)"
  shows "wheels_ok t = wheels_ok s"
  using assms by (simp add: wheels_ok_def)

section \<open>When an entry is due\<close>

definition due :: "('k, 'q) shard \<Rightarrow> nat \<Rightarrow> nat \<Rightarrow> nat \<Rightarrow> nat \<Rightarrow> bool" where
  "due s a b c i \<longleftrightarrow>
     (let e = entries s ! i; x = (i, e_version e) in
      item_due 1 512 (wheel_l1 s) a (expire_tick e + 1) x \<or>
      item_due 512 128 (wheel_l2 s) b (expire_tick e) x \<or>
      item_due 65536 128 (wheel_l3 s) c (expire_tick e) x)"

definition timely :: "('k, 'q) shard \<Rightarrow> bool" where
  "timely s \<longleftrightarrow> (\<forall>i. live s i \<longrightarrow> due s (tick s + 1) (tick s + 1) (tick s + 1) i)"

definition wheel_grows :: "('k, 'q) shard \<Rightarrow> ('k, 'q) shard \<Rightarrow> bool" where
  "wheel_grows s s' \<longleftrightarrow>
     (\<forall>j. set (wheel_l1 s ! j) \<subseteq> set (wheel_l1 s' ! j)) \<and>
     (\<forall>j. set (wheel_l2 s ! j) \<subseteq> set (wheel_l2 s' ! j)) \<and>
     (\<forall>j. set (wheel_l3 s ! j) \<subseteq> set (wheel_l3 s' ! j))"

lemma due_mono:
  assumes d: "due s a b c i" and e: "entries s' ! i = entries s ! i" and g: "wheel_grows s s'"
    and le: "a' \<le> a" "b' \<le> b" "c' \<le> c"
  shows "due s' a' b' c' i"
proof -
  note grows = g [unfolded wheel_grows_def, THEN conjunct1, rule_format]
    g [unfolded wheel_grows_def, THEN conjunct2, THEN conjunct1, rule_format]
    g [unfolded wheel_grows_def, THEN conjunct2, THEN conjunct2, rule_format]
  from d show ?thesis unfolding due_def Let_def e
    using item_due_mono [OF _ le(1) order_refl grows(1)] item_due_mono [OF _ le(2) order_refl grows(2)]
      item_due_mono [OF _ le(3) order_refl grows(3)]
    by blast
qed

lemma due_bound: "due s a b c i \<Longrightarrow> n \<le> a \<Longrightarrow> n \<le> b \<Longrightarrow> n \<le> c \<Longrightarrow> n \<le> expire_tick (entries s ! i) + 1"
  unfolding due_def item_due_def Let_def by auto

lemma timely_not_overdue: "timely s \<Longrightarrow> live s i \<Longrightarrow> tick s \<le> expire_tick (entries s ! i)"
  using due_bound [of s "tick s + 1" "tick s + 1" "tick s + 1" i "tick s + 1"]
  by (simp add: timely_def)

section \<open>Scheduling\<close>

lemma push_slot_grows:
  "push_slot w i x = Some w' \<Longrightarrow> set (w ! j) \<subseteq> set (w' ! j)"
  "push_slot w i x = Some w' \<Longrightarrow> x \<in> set (w' ! i)"
  "push_slot w i x = Some w' \<Longrightarrow> length w' = length w"
  by (cases "i = j"; auto simp: push_slot_def nth_list_update split: if_splits)+

lemma wheel_grows_refl [simp]: "wheel_grows s s"
  by (simp add: wheel_grows_def)

lemma wheel_grows_trans: "wheel_grows s t \<Longrightarrow> wheel_grows t u \<Longrightarrow> wheel_grows s u"
  unfolding wheel_grows_def by blast

lemma push_level:
  fixes s :: "('k, 'q) shard" and w :: "wheel_item list list"
  assumes ok: "wheels_ok s" and x: "fst x < length (entries s)"
  shows "j < 512 \<Longrightarrow> w = (wheel_l1 s)[j := wheel_l1 s ! j @ [x]] \<Longrightarrow>
      wheels_ok (s\<lparr>wheel_l1 := w\<rparr>) \<and> wheel_grows s (s\<lparr>wheel_l1 := w\<rparr>) \<and> x \<in> set (w ! j)"
    "j < 128 \<Longrightarrow> w = (wheel_l2 s)[j := wheel_l2 s ! j @ [x]] \<Longrightarrow>
      wheels_ok (s\<lparr>wheel_l2 := w\<rparr>) \<and> wheel_grows s (s\<lparr>wheel_l2 := w\<rparr>) \<and> x \<in> set (w ! j)"
    "j < 128 \<Longrightarrow> w = (wheel_l3 s)[j := wheel_l3 s ! j @ [x]] \<Longrightarrow>
      wheels_ok (s\<lparr>wheel_l3 := w\<rparr>) \<and> wheel_grows s (s\<lparr>wheel_l3 := w\<rparr>) \<and> x \<in> set (w ! j)"
proof -
  have len: "length (wheel_l1 s) = 512" "length (wheel_l2 s) = 128" "length (wheel_l3 s) = 128"
    using ok by (simp_all add: wheels_ok_def wheel_consts)
  have it: "items_ok (length (entries s)) (wheel_l1 s)" "items_ok (length (entries s)) (wheel_l2 s)"
    "items_ok (length (entries s)) (wheel_l3 s)"
    using ok by (simp_all add: wheels_ok_def)
  show "wheels_ok (s\<lparr>wheel_l1 := w\<rparr>) \<and> wheel_grows s (s\<lparr>wheel_l1 := w\<rparr>) \<and> x \<in> set (w ! j)"
    if "j < 512" "w = (wheel_l1 s)[j := wheel_l1 s ! j @ [x]]"
    using that ok len items_ok_push [OF it(1) x, of j]
    by (auto simp: wheels_ok_def wheel_grows_def nth_list_update)
  show "wheels_ok (s\<lparr>wheel_l2 := w\<rparr>) \<and> wheel_grows s (s\<lparr>wheel_l2 := w\<rparr>) \<and> x \<in> set (w ! j)"
    if "j < 128" "w = (wheel_l2 s)[j := wheel_l2 s ! j @ [x]]"
    using that ok len items_ok_push [OF it(2) x, of j]
    by (auto simp: wheels_ok_def wheel_grows_def nth_list_update)
  show "wheels_ok (s\<lparr>wheel_l3 := w\<rparr>) \<and> wheel_grows s (s\<lparr>wheel_l3 := w\<rparr>) \<and> x \<in> set (w ! j)"
    if "j < 128" "w = (wheel_l3 s)[j := wheel_l3 s ! j @ [x]]"
    using that ok len items_ok_push [OF it(3) x, of j]
    by (auto simp: wheels_ok_def wheel_grows_def nth_list_update)
qed

text \<open>Where \<open>schedule\<close> puts an entry that expires within the first level, and one that expires later.\<close>

lemma schedule_near:
  assumes ok: "wheels_ok s" and i: "i < length (entries s)" and near: "expire_tick (entries s ! i) < tick s + 512"
  shows "\<exists>s'. schedule s i = Some s' \<and> wheels_ok s' \<and> same_slab s s' \<and> wheel_grows s s' \<and>
    (tick s \<le> expire_tick (entries s ! i) \<longrightarrow> due s' (tick s + 1) (tick s + 1) (tick s + 1) i)"
proof -
  let ?x = "(i, e_version (entries s ! i))" and ?T = "tick s" and ?E = "expire_tick (entries s ! i)"
  let ?j = "(if ?E \<le> ?T then Suc ?T else ?E) mod 512"
  let ?w = "(wheel_l1 s)[?j := wheel_l1 s ! ?j @ [?x]]"
  have len: "length (wheel_l1 s) = 512" using ok by (simp add: wheels_ok_def wheel_consts)
  note lv = push_level(1) [OF ok, of ?x ?j ?w, simplified fst_conv, OF i]
  have "schedule s i = Some (s\<lparr>wheel_l1 := ?w\<rparr>)"
    using near i len by (auto simp: schedule_def get_at_def push_slot_def wheel_consts Let_def)
  moreover have "?T \<le> ?E \<longrightarrow> item_due 1 512 ?w (?T + 1) (?E + 1) ?x"
  proof (cases "?E \<le> ?T")
    case True
    then show ?thesis using lv by (auto simp: item_due_def intro!: exI [of _ "Suc ?T"])
  next
    case False
    have "item_due 1 512 ?w (?T + 1) ?E ?x" using l1.due_placed [of ?T ?E ?x ?w] lv near False by simp
    then have "item_due 1 512 ?w (?T + 1) (?E + 1) ?x" by (rule item_due_mono) auto
    then show ?thesis ..
  qed
  ultimately show ?thesis using lv by (auto simp: due_def Let_def)
qed

lemma schedule_far:
  assumes ok: "wheels_ok s" and i: "i < length (entries s)" and far: "tick s + 512 \<le> expire_tick (entries s ! i)"
  shows "\<exists>s'. schedule s i = Some s' \<and> wheels_ok s' \<and> same_slab s s' \<and> wheel_grows s s' \<and> due s' (tick s + 1) (tick s + 1) (tick s + 1) i"
proof -
  let ?x = "(i, e_version (entries s ! i))" and ?T = "tick s" and ?E = "expire_tick (entries s ! i)"
  have len: "length (wheel_l2 s) = 128" "length (wheel_l3 s) = 128" using ok by (simp_all add: wheels_ok_def wheel_consts)
  note lv = push_level(2,3) [OF ok, of ?x, simplified, OF i]
  show ?thesis
  proof (cases "?E - ?T < 65536")
    case True
    let ?j = "?E div 512 mod 128"
    let ?w = "(wheel_l2 s)[?j := wheel_l2 s ! ?j @ [?x]]"
    have "schedule s i = Some (s\<lparr>wheel_l2 := ?w\<rparr>)"
      using far True i len by (auto simp: schedule_def get_at_def push_slot_def wheel_consts Let_def)
    moreover have "item_due 512 128 ?w (?T + 1) ?E ?x" using l2.due_placed [of ?T ?E ?x ?w] lv(1) [of ?j ?w] far True by simp
    ultimately show ?thesis using lv(1) [of ?j ?w] by (auto simp: due_def Let_def)
  next
    case False
    let ?j = "?E div 65536 mod 128"
    let ?w = "(wheel_l3 s)[?j := wheel_l3 s ! ?j @ [?x]]"
    have "schedule s i = Some (s\<lparr>wheel_l3 := ?w\<rparr>)"
      using far False i len by (auto simp: schedule_def get_at_def push_slot_def wheel_consts Let_def)
    moreover have "item_due 65536 128 ?w (?T + 1) ?E ?x" using l3.due_placed [of ?T ?E ?x ?w] lv(2) [of ?j ?w] False by simp
    ultimately show ?thesis using lv(2) [of ?j ?w] by (auto simp: due_def Let_def)
  qed
qed

lemma schedule_spec:
  assumes "wheels_ok s" "i < length (entries s)"
  shows "\<exists>s'. schedule s i = Some s' \<and> wheels_ok s' \<and> same_slab s s' \<and> wheel_grows s s' \<and>
    (tick s \<le> expire_tick (entries s ! i) \<longrightarrow> due s' (tick s + 1) (tick s + 1) (tick s + 1) i)"
  using schedule_near [OF assms] schedule_far [OF assms] by (meson not_le)

section \<open>Cascading\<close>

text \<open>During a cascade every live entry is due, or among the items still to be moved and not
  overdue.\<close>

text \<open>One round of the loop: the item's entry, if it is still current, is scheduled again.\<close>

lemma cascade_item:
  assumes ok: "wheels_ok s" and idx: "idx < length (entries s)" and le: "a \<le> tick s + 1" "b \<le> tick s + 1" "c \<le> tick s + 1"
    and wait: "\<forall>i. live s i \<longrightarrow> due s a b c i \<or>
          ((i, e_version (entries s ! i)) \<in> set ((idx, ver) # rest) \<and> tick s \<le> expire_tick (entries s ! i))"
  shows "\<exists>s1. cascade_items s ((idx, ver) # rest) = cascade_items s1 rest \<and> wheels_ok s1 \<and> same_slab s s1 \<and>
    (\<forall>i. live s i \<longrightarrow> due s1 a b c i \<or> ((i, e_version (entries s ! i)) \<in> set rest \<and> tick s \<le> expire_tick (entries s ! i)))"
proof (cases "in_use (entries s ! idx) \<and> e_version (entries s ! idx) = ver")
  case False
  then have "cascade_items s ((idx, ver) # rest) = cascade_items s rest" using idx by (auto simp: get_at_def)
  moreover have "\<forall>i. live s i \<longrightarrow> due s a b c i \<or> ((i, e_version (entries s ! i)) \<in> set rest \<and> tick s \<le> expire_tick (entries s ! i))"
    using wait False by (auto simp: live_def)
  ultimately show ?thesis using ok by (intro exI [of _ s]) simp
next
  case True
  from schedule_spec [OF ok idx] obtain s1 where s1: "schedule s idx = Some s1" "wheels_ok s1" "same_slab s s1" "wheel_grows s s1"
    "tick s \<le> expire_tick (entries s ! idx) \<longrightarrow> due s1 (tick s + 1) (tick s + 1) (tick s + 1) idx" by blast
  have es: "entries s1 = entries s" using s1(3) by (simp add: same_slab_def)
  have "due s1 a b c i \<or> ((i, e_version (entries s ! i)) \<in> set rest \<and> tick s \<le> expire_tick (entries s ! i))" if "live s i" for i
  proof -
    note at_i = wait [rule_format, OF that]
    consider "due s a b c i" | "i = idx" "tick s \<le> expire_tick (entries s ! idx)"
      | "(i, e_version (entries s ! i)) \<in> set rest" "tick s \<le> expire_tick (entries s ! i)" using at_i by auto
    then show ?thesis
    proof cases
      case 1
      then show ?thesis using due_mono [OF 1 _ s1(4)] es by simp
    next
      case 2
      then show ?thesis using s1(5) due_mono [of s1 _ _ _ idx s1 a b c] le by auto
    qed simp
  qed
  moreover have "cascade_items s ((idx, ver) # rest) = cascade_items s1 rest" using True s1(1) idx by (simp add: get_at_def)
  ultimately show ?thesis using s1(2,3) by blast
qed

lemma cascade_items_spec:
  assumes "wheels_ok s" "\<forall>x\<in>set items. fst x < length (entries s)"
    and "a \<le> tick s + 1" "b \<le> tick s + 1" "c \<le> tick s + 1"
    and "\<forall>i. live s i \<longrightarrow> due s a b c i \<or>
          ((i, e_version (entries s ! i)) \<in> set items \<and> tick s \<le> expire_tick (entries s ! i))"
  shows "\<exists>s'. cascade_items s items = Some s' \<and> wheels_ok s' \<and> (\<forall>i. live s i \<longrightarrow> due s' a b c i)"
  using assms
proof (induction items arbitrary: s)
  case Nil
  then show ?case by auto
next
  case (Cons x rest)
  obtain idx ver where x: "x = (idx, ver)" by (cases x)
  have "idx < length (entries s)" using Cons.prems(2) x by simp
  from cascade_item [OF Cons.prems(1) this Cons.prems(3-5), of ver rest] Cons.prems(6) x obtain s1 where
    s1: "cascade_items s (x # rest) = cascade_items s1 rest" "wheels_ok s1" "same_slab s s1"
    "\<forall>i. live s i \<longrightarrow> due s1 a b c i \<or> ((i, e_version (entries s ! i)) \<in> set rest \<and> tick s \<le> expire_tick (entries s ! i))" by auto
  have es: "entries s1 = entries s" "tick s1 = tick s" "live s1 = live s"
    using s1(3) by (auto simp: same_slab_def live_def fun_eq_iff)
  show ?case using Cons.IH [of s1] Cons.prems s1 by (simp add: es)
qed

lemma cascade_l2_spec:
  assumes ok: "wheels_ok s" and due: "\<forall>i. live s i \<longrightarrow> due s a (tick s) c i"
    and le: "a \<le> tick s + 1" "c \<le> tick s + 1"
  shows "\<exists>s'. cascade_l2 s = Some s' \<and> wheels_ok s' \<and> same_slab s s' \<and>
    (\<forall>i. live s i \<longrightarrow> due s' a (tick s + 1) c i)"
proof -
  let ?j = "tick s div 512 mod 128"
  let ?s0 = "s\<lparr>wheel_l2 := (wheel_l2 s)[?j := []]\<rparr>" and ?b = "wheel_l2 s ! ?j"
  have len: "length (wheel_l2 s) = 128" using ok by (simp add: wheels_ok_def wheel_consts)
  have ok0: "wheels_ok ?s0" using ok by (simp add: wheels_ok_def items_ok_take)
  have b: "\<forall>x\<in>set ?b. fst x < length (entries s)"
    using ok items_ok_bucket [of _ "wheel_l2 s" ?j] len by (auto simp: wheels_ok_def)
  have "due ?s0 a (tick s + 1) c i \<or>
      ((i, e_version (entries s ! i)) \<in> set ?b \<and> tick s \<le> expire_tick (entries s ! i))"
    if "live s i" for i
  proof -
    have "due s a (tick s) c i" using due that by blast
    then show ?thesis using l2.due_visited [of "wheel_l2 s" "tick s"]
      unfolding due_def Let_def by auto
  qed
  then obtain s1 where s1: "cascade_items ?s0 ?b = Some s1" "wheels_ok s1"
    "\<forall>i. live s i \<longrightarrow> due s1 a (tick s + 1) c i"
    using cascade_items_spec [OF ok0, of ?b a "tick s + 1" c] b le by auto
  moreover have "cascade_l2 s = Some s1"
    using s1(1) len by (simp add: cascade_l2_def wheel_consts get_at_def)
  moreover have "same_slab s s1" using cascade_items_same_slab [OF s1(1)] by simp
  ultimately show ?thesis by blast
qed

lemma cascade_l3_spec:
  assumes ok: "wheels_ok s" and due: "\<forall>i. live s i \<longrightarrow> due s a b (tick s) i"
    and le: "a \<le> tick s + 1" "b \<le> tick s + 1"
  shows "\<exists>s'. cascade_l3 s = Some s' \<and> wheels_ok s' \<and> same_slab s s' \<and>
    (\<forall>i. live s i \<longrightarrow> due s' a b (tick s + 1) i)"
proof -
  let ?j = "tick s div 65536 mod 128"
  let ?s0 = "s\<lparr>wheel_l3 := (wheel_l3 s)[?j := []]\<rparr>" and ?b = "wheel_l3 s ! ?j"
  have len: "length (wheel_l3 s) = 128" using ok by (simp add: wheels_ok_def wheel_consts)
  have ok0: "wheels_ok ?s0" using ok by (simp add: wheels_ok_def items_ok_take)
  have b: "\<forall>x\<in>set ?b. fst x < length (entries s)"
    using ok items_ok_bucket [of _ "wheel_l3 s" ?j] len by (auto simp: wheels_ok_def)
  have "due ?s0 a b (tick s + 1) i \<or>
      ((i, e_version (entries s ! i)) \<in> set ?b \<and> tick s \<le> expire_tick (entries s ! i))"
    if "live s i" for i
  proof -
    have "due s a b (tick s) i" using due that by blast
    then show ?thesis using l3.due_visited [of "wheel_l3 s" "tick s"]
      unfolding due_def Let_def by auto
  qed
  then obtain s1 where s1: "cascade_items ?s0 ?b = Some s1" "wheels_ok s1"
    "\<forall>i. live s i \<longrightarrow> due s1 a b (tick s + 1) i"
    using cascade_items_spec [OF ok0, of ?b a b "tick s + 1"] b le by auto
  moreover have "cascade_l3 s = Some s1"
    using s1(1) len by (simp add: cascade_l3_def wheel_consts get_at_def)
  moreover have "same_slab s s1" using cascade_items_same_slab [OF s1(1)] by simp
  ultimately show ?thesis by blast
qed

lemma mod_l3: "(t::nat) mod 65536 = 512 * (t div 512 mod 128) + t mod 512"
  using mod_mult2_eq [of t 512 128] by simp

lemma due_skip_l2: "due s a t c i \<Longrightarrow> t mod 512 \<noteq> 0 \<Longrightarrow> due s a (t + 1) c i"
  using l2.due_not_visited [of "wheel_l2 s" t "expire_tick (entries s ! i)"
      "(i, e_version (entries s ! i))"] by (auto simp: due_def Let_def)

lemma due_skip_l3: "due s a b t i \<Longrightarrow> t mod 65536 \<noteq> 0 \<Longrightarrow> due s a b (t + 1) i"
  using l3.due_not_visited [of "wheel_l3 s" t "expire_tick (entries s ! i)"
      "(i, e_version (entries s ! i))"] by (auto simp: due_def Let_def)

lemma cascade_spec:
  assumes ok: "wheels_ok s" and due: "\<forall>i. live s i \<longrightarrow> due s (tick s) (tick s) (tick s) i"
  shows "\<exists>s'. cascade s = Some s' \<and> wheels_ok s' \<and> same_slab s s' \<and>
    (\<forall>i. live s i \<longrightarrow> due s' (tick s) (tick s + 1) (tick s + 1) i)"
proof (cases "tick s mod 512 = 0")
  case False
  have not3: "tick s mod 65536 \<noteq> 0" using False by (simp add: mod_l3)
  have "due s (tick s) (tick s + 1) (tick s + 1) i" if "live s i" for i
    using due that due_skip_l2 [OF _ False] due_skip_l3 [OF _ not3] by blast
  with False ok show ?thesis by (simp add: cascade_def wheel_consts)
next
  case True
  from cascade_l2_spec [OF ok due] obtain s1 where s1: "cascade_l2 s = Some s1" "wheels_ok s1"
    "same_slab s s1" "\<forall>i. live s i \<longrightarrow> due s1 (tick s) (tick s + 1) (tick s) i"
    by auto
  have e1: "live s1 = live s" "tick s1 = tick s"
    using s1(3) by (auto simp: same_slab_def live_def fun_eq_iff)
  show ?thesis
  proof (cases "tick s div 512 mod 128 = 0")
    case False
    have not3: "tick s mod 65536 \<noteq> 0" using False by (simp add: mod_l3)
    have "due s1 (tick s) (tick s + 1) (tick s + 1) i" if "live s i" for i
      using s1(4) that due_skip_l3 [OF _ not3] by blast
    with False True s1 show ?thesis by (simp add: cascade_def wheel_consts e1)
  next
    case at3: True
    have "\<forall>i. live s1 i \<longrightarrow> due s1 (tick s1) (tick s1 + 1) (tick s1) i" using s1(4) by (simp add: e1)
    from cascade_l3_spec [OF s1(2) this] obtain s2 where s2: "cascade_l3 s1 = Some s2" "wheels_ok s2"
      "same_slab s1 s2" "\<forall>i. live s i \<longrightarrow> due s2 (tick s) (tick s + 1) (tick s + 1) i"
      by (auto simp: e1)
    with same_slab_trans [OF s1(3) s2(3)] True at3 s1(1) show ?thesis
      by (simp add: cascade_def wheel_consts e1)
  qed
qed

end
