(* ===== verification/C100k_Keys.thy ===== *)
theory C100k_Keys
  imports C100k_Slab
begin

text \<open>
  Who owns a key of the expiry cache. A key is written into a slot that holds none, and leaves it by being dropped or by moving into an event; the flag \<open>in_use\<close> says
  exactly which slots hold one, so that the end of a shard drops every key it still owns, once, and leaks none.
\<close>

section \<open>A slot that is not in use holds no key\<close>

definition slots_clean :: "('k, 'q) shard \<Rightarrow> bool" where
  "slots_clean s \<longleftrightarrow> (\<forall>e\<in>set (entries s). in_use e \<or> e_key e = None)"

lemma clean_cong: "slots_clean s \<Longrightarrow> entries t = entries s \<Longrightarrow> slots_clean t"
  by (simp add: slots_clean_def)

lemma clean_update: "slots_clean s \<Longrightarrow> in_use e \<or> e_key e = None \<Longrightarrow> entries t = (entries s)[i := e] \<Longrightarrow> slots_clean t"
  using set_update_subset_insert [of "entries s" i e] unfolding slots_clean_def by (metis insertE subsetD)

lemma clean_nth: "slots_clean s \<Longrightarrow> get_at (entries s) i = Some e \<Longrightarrow> in_use e \<or> e_key e = None"
  by (auto simp: slots_clean_def get_at_def split: if_splits)

lemma clean_same_slab: "slots_clean s \<Longrightarrow> same_slab s t \<Longrightarrow> slots_clean t"
  by (simp add: same_slab_def slots_clean_def)

lemma clean_schedule: "slots_clean s \<Longrightarrow> schedule s i = Some t \<Longrightarrow> slots_clean t"
  by (rule clean_same_slab [OF _ schedule_same_slab])

lemma clean_free:
  assumes "slots_clean s" "free s i = Some t"
  shows "slots_clean t"
proof -
  from assms(2) obtain e e' where e: "get_at (entries s) i = Some e" "(if in_use e then drop_key e else Some e) = Some e'"
    and t: "entries t = (entries s)[i := e'\<lparr>in_use := False, next_free := free_head s\<rparr>]" by (auto simp: free_def bind_eq_Some_conv)
  have "e_key e' = None" using clean_nth [OF assms(1) e(1)] e(2) by (auto simp: drop_key_def split: if_splits option.splits)
  then show ?thesis by (intro clean_update [OF assms(1) _ t]) simp
qed

lemma clean_remove_index [simp]: "slots_clean (remove_index s h i) = slots_clean s"
  by (simp add: slots_clean_def)

lemma clean_flush [simp]: "slots_clean (flush send s) = slots_clean s"
  by (simp add: slots_clean_def)

lemma clean_evict: "slots_clean s \<Longrightarrow> free (remove_index s h i) i = Some t \<Longrightarrow> slots_clean t"
  by (rule clean_free [of "remove_index s h i"]) simp_all

lemma clean_expire_entry:
  assumes "slots_clean s" "expire_entry send s i = Some t"
  shows "slots_clean t"
proof -
  from assms(2) obtain e k where e: "get_at (entries s) i = Some e" "e_key e = Some k"
    and t: "entries t = (entries s)[i := e\<lparr>in_use := False, e_key := None, next_free := free_head s\<rparr>]"
    by (auto simp: expire_entry_def take_key_def Let_def bind_eq_Some_conv get_at_def split: if_splits option.splits)
  show ?thesis by (rule clean_update [OF assms(1) _ t]) simp
qed

lemma clean_process_bucket: "slots_clean s \<Longrightarrow> process_bucket send s items = Some t \<Longrightarrow> slots_clean t"
proof (induction send s items rule: process_bucket.induct)
  case (2 send s idx ver rest)
  then show ?case
    by (auto simp: bind_eq_Some_conv split: if_splits intro: clean_schedule clean_expire_entry)
qed simp

lemma clean_tick_body: "slots_clean s \<Longrightarrow> tick_body send s = Some t \<Longrightarrow> slots_clean t"
  by (auto simp: tick_body_def Let_def bind_eq_Some_conv slots_clean_def [of "_\<lparr>wheel_l1 := _\<rparr>"] slots_clean_def [symmetric]
      dest!: cascade_same_slab elim!: clean_process_bucket [rotated] dest: clean_same_slab)

lemma clean_tick_loop: "slots_clean s \<Longrightarrow> tick_loop send target s = Some t \<Longrightarrow> slots_clean t"
proof (induction send target s rule: tick_loop.induct)
  case (1 send target s)
  have "slots_clean (s\<lparr>tick := tick s + 1\<rparr>)" using "1.prems"(1) by (simp add: slots_clean_def)
  then show ?case using "1.IH" "1.prems" clean_tick_body
    by (subst (asm) tick_loop.simps) (auto split: if_splits option.splits)
qed

lemma clean_on_tick:
  assumes "slots_clean s" "on_tick send ms s = Some t"
  shows "slots_clean t"
proof -
  from assms(2) obtain s1 where "tick_loop send (min (ms div TICK_MS) (tick s + MAX_CATCHUP)) s = Some s1"
    "t = (if batch s1 \<noteq> [] then flush send s1 else s1)" by (auto simp: on_tick_def Let_def bind_eq_Some_conv)
  with clean_tick_loop [OF assms(1)] show ?thesis by simp
qed

lemma clean_insert:
  assumes "slots_clean s" "shard_insert hash s k ttl = Some t"
  shows "slots_clean t"
proof -
  obtain s1 where s1: "slots_clean s1"
    and rest: "(case alloc s1 of
       (Some idx, s) \<Rightarrow> do {
         e \<leftarrow> get_at (entries s) idx;
         let s = s\<lparr>entries := (entries s)[idx := entry_write e k (hash k) ttl (tick s)]\<rparr>;
         schedule (insert_index s (hash k) idx) idx
       }
     | (None, s) \<Rightarrow> Some s) = Some t"
    using assms by (auto simp: shard_insert_def Let_def bind_eq_Some_conv split: option.splits intro: clean_evict [OF assms(1)])
  obtain r s2 where a: "alloc s1 = (r, s2)" by fastforce
  then have s2: "slots_clean s2" using s1 by (auto simp: alloc_def Let_def split: if_splits intro: clean_cong)
  show ?thesis
  proof (cases r)
    case None
    with rest a s2 show ?thesis by simp
  next
    case (Some idx)
    with rest a obtain e where "schedule (insert_index (s2\<lparr>entries := (entries s2)[idx := entry_write e k (hash k) ttl (tick s2)]\<rparr>) (hash k) idx) idx = Some t"
      by (auto simp: Let_def bind_eq_Some_conv)
    then show ?thesis
      by (rule clean_schedule [rotated]) (rule clean_update [OF s2, of "entry_write e k (hash k) ttl (tick s2)"], simp_all add: entry_write_def insert_index_def)
  qed
qed

lemma clean_refresh:
  assumes "slots_clean s" "shard_refresh hash s k = Some t"
  shows "slots_clean t"
proof -
  consider "t = s" | i e where "get_at (entries s) i = Some e"
    "schedule (s\<lparr>entries := (entries s)[i := e\<lparr>e_version := e_version e + 1, expire_tick := tick s + ttl_tick e\<rparr>]\<rparr>) i = Some t"
    using assms(2) by (auto simp: shard_refresh_def bind_eq_Some_conv split: option.splits)
  then show ?thesis
  proof cases
    case 2
    from clean_nth [OF assms(1) 2(1)] show ?thesis
      by (intro clean_schedule [OF clean_update [OF assms(1), of "e\<lparr>e_version := e_version e + 1, expire_tick := tick s + ttl_tick e\<rparr>"] 2(2)]) simp_all
  qed (use assms(1) in simp)
qed

lemma clean_delete: "slots_clean s \<Longrightarrow> shard_delete hash s k = Some t \<Longrightarrow> slots_clean t"
  by (auto simp: shard_delete_def bind_eq_Some_conv split: option.splits dest: clean_evict)

lemma clean_handle: "slots_clean s \<Longrightarrow> shard_handle hash s c = Some t \<Longrightarrow> slots_clean t"
  by (cases c) (auto dest: clean_insert clean_refresh clean_delete)

lemma clean_run_step: "slots_clean (st_shard t) \<Longrightarrow> run_step hash send t i = Some t' \<Longrightarrow> slots_clean (st_shard t')"
  by (auto simp: run_step_def split: if_splits shard_input.splits dest: clean_handle clean_on_tick)

lemma clean_run:
  "slots_clean (st_shard t) \<Longrightarrow> run_steps (run_step hash send) t is = Some t' \<Longrightarrow> slots_clean (st_shard t')"
  by (induction "is" arbitrary: t) (auto simp: bind_eq_Some_conv split: option.splits dest: clean_run_step)

lemma clean_new: "slots_clean (shard_new capacity tx)"
  by (auto simp: slots_clean_def shard_new_def entry_new_empty_def)

section \<open>The end of a shard\<close>

lemma drop_entries_keys:
  assumes "\<forall>e\<in>set es. in_use e \<longrightarrow> e_key e \<noteq> None"
  shows "drop_entries es = Some (map (\<lambda>e. the (e_key e)) (filter in_use es))"
  using assms by (induction es) (auto simp: entry_drop_def)

lemma slab_key_present: "slab_ok hash s \<Longrightarrow> e \<in> set (entries s) \<Longrightarrow> in_use e \<Longrightarrow> e_key e \<noteq> None"
  by (fastforce simp: slab_ok_def keys_ok_def live_def in_set_conv_nth)

text \<open>The end of a shard drops the keys of its contents, each once.\<close>

lemma shard_drop_contents:
  assumes "slab_ok hash s"
  shows "\<exists>ks. shard_drop s = Some ks \<and> distinct ks \<and> set ks = dom (contents s)"
proof -
  let ?ks = "map (\<lambda>e. the (e_key e)) (filter in_use (entries s))"
  have some: "\<forall>e\<in>set (entries s). in_use e \<longrightarrow> e_key e \<noteq> None"
    using slab_key_present [OF assms] by blast
  have "inj_on (\<lambda>i. the (e_key (entries s ! i))) {i. live s i}"
    using live_key_unique [OF assms] live_key [OF assms] by (metis (mono_tags, lifting) inj_onI mem_Collect_eq option.sel)
  then have "distinct (map (\<lambda>i. the (e_key (entries s ! i))) (filter (\<lambda>i. in_use (entries s ! i)) [0..<length (entries s)]))"
    by (auto simp: distinct_map live_def inj_on_def)
  moreover have "?ks = map (\<lambda>i. the (e_key (entries s ! i))) (filter (\<lambda>i. in_use (entries s ! i)) [0..<length (entries s)])"
    by (subst (1) map_nth [symmetric, of "entries s"]) (simp add: filter_map comp_def)
  moreover have "set ?ks = dom (contents s)"
    using some by (force simp: dom_def contents_def find_None_iff image_iff)
  ultimately show ?thesis using drop_entries_keys [OF some] by (simp add: shard_drop_def)
qed

end
