(* ===== verification/C100k_Inv.thy ===== *)
theory C100k_Inv
  imports C100k_Wheel C100k_Keys
begin

text \<open>
  The expiry cache as a whole: the invariant of a shard is kept by every command and by
  every tick, no operation panics or touches an uninitialised key, entries are never
  evicted before their expiry tick and at most one tick after it, and each eviction is
  reported exactly once.
\<close>

section \<open>What a tick does to the contents and to the event stream\<close>

definition expires :: "nat \<Rightarrow> ('k \<rightharpoonup> nat \<times> nat) \<Rightarrow> ('k \<rightharpoonup> nat \<times> nat) \<Rightarrow> bool" where
  "expires now m m' \<longleftrightarrow>
     (\<forall>k. m' k = m k \<or> (m' k = None \<and> (\<exists>e ttl. m k = Some (e, ttl) \<and> e \<le> now)))"

lemma expires_refl [simp]: "expires now m m"
  by (simp add: expires_def)

lemma expires_trans: "expires now m m1 \<Longrightarrow> expires now' m1 m2 \<Longrightarrow> now \<le> now' \<Longrightarrow> expires now' m m2"
  unfolding expires_def by (metis le_trans option.distinct(1))

lemma expires_dom: "expires now m m' \<Longrightarrow> dom m' \<subseteq> dom m"
  unfolding expires_def by (metis domIff subsetI)

text \<open>
  A channel that loses nothing: \<open>log\<close> reads off what has been sent. The capacity of the
  event channel is 65536 batches; \<open>reliable\<close> is its behaviour while there is room.
\<close>

definition reliable :: "('q \<Rightarrow> 'a list \<Rightarrow> 'q) \<Rightarrow> ('q \<Rightarrow> 'a list) \<Rightarrow> bool" where
  "reliable send log \<longleftrightarrow> (\<forall>q b. log (send q b) = log q @ b)"

definition emitted :: "('q \<Rightarrow> 'k cache_event list) \<Rightarrow> ('k, 'q) shard \<Rightarrow> 'k cache_event list" where
  "emitted log s = log (event_tx s) @ batch s"

lemma emitted_flush: "reliable send log \<Longrightarrow> emitted log (flush send s) = emitted log s"
  by (simp add: emitted_def flush_def reliable_def)

definition reports :: "('q \<Rightarrow> 'k cache_event list) \<Rightarrow> ('k, 'q) shard \<Rightarrow> ('k, 'q) shard \<Rightarrow> bool" where
  "reports log s s' \<longleftrightarrow>
     (\<exists>evs. emitted log s' = emitted log s @ evs \<and> distinct (map ev_key evs) \<and>
            ev_key ` set evs = dom (contents s) - dom (contents s'))"

lemma reports_refl: "emitted log s' = emitted log s \<Longrightarrow> contents s' = contents s \<Longrightarrow> reports log s s'"
  by (simp add: reports_def)

lemma reports_trans:
  assumes "reports log s s1" "reports log s1 s2"
    "dom (contents s1) \<subseteq> dom (contents s)" "dom (contents s2) \<subseteq> dom (contents s1)"
  shows "reports log s s2"
proof -
  from assms(1,2) obtain e1 e2 where
    "emitted log s1 = emitted log s @ e1" "distinct (map ev_key e1)"
    "ev_key ` set e1 = dom (contents s) - dom (contents s1)"
    "emitted log s2 = emitted log s1 @ e2" "distinct (map ev_key e2)"
    "ev_key ` set e2 = dom (contents s1) - dom (contents s2)"
    unfolding reports_def by blast
  with assms(3,4) show ?thesis unfolding reports_def
    by (intro exI [of _ "e1 @ e2"]) (auto simp: image_Un)
qed

definition evicts ::
  "('q \<Rightarrow> 'k cache_event list \<Rightarrow> 'q) \<Rightarrow> ('q \<Rightarrow> 'k cache_event list) \<Rightarrow> nat \<Rightarrow>
   ('k, 'q) shard \<Rightarrow> ('k, 'q) shard \<Rightarrow> bool" where
  "evicts send log now s s' \<longleftrightarrow>
     expires now (contents s) (contents s') \<and> length (entries s') = length (entries s) \<and>
     (reliable send log \<longrightarrow> reports log s s')"

lemma evicts_trans:
  assumes "evicts send log now s s1" "evicts send log now' s1 s2" "now \<le> now'"
  shows "evicts send log now' s s2"
proof -
  from assms have e: "expires now (contents s) (contents s1)" "expires now' (contents s1) (contents s2)"
    by (simp_all add: evicts_def)
  have "reports log s s2" if "reliable send log"
    using that assms(1,2) reports_trans [of log s s1 s2] expires_dom [OF e(1)] expires_dom [OF e(2)]
    by (simp add: evicts_def)
  with assms expires_trans [OF e assms(3)] show ?thesis by (simp add: evicts_def)
qed

lemma evicts_same_slab:
  assumes "same_slab s s'"
  shows "evicts send log now s s'"
proof -
  have "contents s' = contents s" using assms by (intro contents_cong) (simp add: same_slab_def)
  moreover have "emitted log s' = emitted log s" using assms by (simp add: emitted_def same_slab_def)
  ultimately show ?thesis using assms reports_refl [of log s' s]
    by (simp add: evicts_def same_slab_def)
qed

section \<open>The invariant of a shard\<close>

definition shard_inv :: "('k \<Rightarrow> u64) \<Rightarrow> ('k, 'q) shard \<Rightarrow> bool" where
  "shard_inv hash s \<longleftrightarrow> slab_ok hash s \<and> wheels_ok s \<and> timely s"

lemma shard_inv_new: "capacity < 2 ^ 32 \<Longrightarrow> shard_inv hash (shard_new capacity tx)"
  by (simp add: shard_inv_def slab_ok_new timely_def)
    (simp add: wheels_ok_def shard_new_def items_ok_def)

lemma shard_inv_flush: "shard_inv hash s \<Longrightarrow> shard_inv hash (flush send s)"
  by (auto simp: shard_inv_def wheels_ok_def timely_def due_def Let_def)

section \<open>Processing a bucket\<close>

lemma expire_entry_spec:
  assumes ok: "slab_ok hash s" and w: "wheels_ok s" and l: "live s i"
    and e: "expire_tick (entries s ! i) \<le> now"
  shows "\<exists>s'. expire_entry send s i = Some s' \<and> slab_ok hash s' \<and> wheels_ok s' \<and> tick s' = tick s \<and>
    wheel_grows s s' \<and> (\<forall>j. live s' j \<longleftrightarrow> live s j \<and> j \<noteq> i) \<and>
    (\<forall>j. j \<noteq> i \<longrightarrow> entries s' ! j = entries s ! j) \<and> evicts send log now s s'"
proof -
  obtain k where k: "e_key (entries s ! i) = Some k"
    and eq: "expire_entry send s i =
       Some (let s' = (release s i)\<lparr>batch := batch s @
               [\<lparr>ev_key = k, ev_hash = e_hash (entries s ! i), ev_version = e_version (entries s ! i)\<rparr>]\<rparr>
             in if BATCH \<le> length (batch s') then flush send s' else s')"
    by (rule expire_entry_eq [OF ok l])
  let ?ev = "\<lparr>ev_key = k, ev_hash = e_hash (entries s ! i), ev_version = e_version (entries s ! i)\<rparr>"
  let ?r = "(release s i)\<lparr>batch := batch s @ [?ev]\<rparr>"
  define s' where "s' = (if BATCH \<le> length (batch ?r) then flush send ?r else ?r)"
  have c: "contents s' = (contents s)(k := None)"
    using contents_release [OF ok l k] by (simp add: s'_def)
  have k': "contents s k = Some (expire_tick (entries s ! i), ttl_tick (entries s ! i))"
    using contents_Some [OF ok l k] .
  have "expires now (contents s) (contents s')"
    using e k' by (auto simp: expires_def c)
  moreover have "reports log s s'" if r: "reliable send log"
  proof -
    have "emitted log s' = emitted log s @ [?ev]"
      using emitted_flush [OF r, of ?r] by (simp add: s'_def emitted_def)
    moreover have "ev_key ` set [?ev] = dom (contents s) - dom (contents s')"
      using k' by (auto simp: c)
    ultimately show ?thesis unfolding reports_def by (intro exI [of _ "[?ev]"]) simp
  qed
  ultimately have "evicts send log now s s'" by (simp add: evicts_def s'_def)
  moreover have "expire_entry send s i = Some s'" using eq by (simp add: s'_def Let_def)
  moreover have "slab_ok hash s'" using slab_ok_release [OF ok l] by (simp add: s'_def)
  moreover have "wheels_ok s'" using w by (simp add: s'_def wheels_ok_def)
  moreover have "wheel_grows s s'" by (simp add: s'_def wheel_grows_def)
  ultimately show ?thesis
    using l by (auto simp: s'_def live_release entries_release)
qed

text \<open>One round of the loop over a bucket: the item is skipped, scheduled again or expired, and
  every live entry is still due or among the remaining items.\<close>

lemma process_item:
  assumes ok: "slab_ok hash s" and w: "wheels_ok s" and idx: "idx < length (entries s)"
    and wait: "\<forall>i. live s i \<longrightarrow> due s (tick s + 1) (tick s + 1) (tick s + 1) i \<or>
          (i, e_version (entries s ! i)) \<in> set ((idx, ver) # rest)"
  shows "\<exists>s1. process_bucket send s ((idx, ver) # rest) = process_bucket send s1 rest \<and>
    slab_ok hash s1 \<and> wheels_ok s1 \<and> tick s1 = tick s \<and> evicts send log (tick s) s s1 \<and>
    (\<forall>i. live s1 i \<longrightarrow> due s1 (tick s + 1) (tick s + 1) (tick s + 1) i \<or>
          (i, e_version (entries s1 ! i)) \<in> set rest)"
proof -
  let ?e = "entries s ! idx" and ?N = "tick s + 1"
  consider (stale) "\<not> in_use ?e \<or> e_version ?e \<noteq> ver"
    | (early) "in_use ?e" "e_version ?e = ver" "tick s < expire_tick ?e"
    | (dueNow) "in_use ?e" "e_version ?e = ver" "expire_tick ?e \<le> tick s"
    by linarith
  then show ?thesis
  proof cases
    case stale
    then have "\<forall>i. live s i \<longrightarrow> due s ?N ?N ?N i \<or> (i, e_version (entries s ! i)) \<in> set rest"
      using wait by (auto simp: live_def)
    then show ?thesis using stale idx ok w
      by (intro exI [of _ s]) (auto simp: get_at_def evicts_same_slab)
  next
    case early
    from schedule_spec [OF w idx] early(3) obtain s1 where s1: "schedule s idx = Some s1"
      "wheels_ok s1" "same_slab s s1" "wheel_grows s s1" "due s1 ?N ?N ?N idx"
      by auto
    have es: "entries s1 = entries s" "tick s1 = tick s" "live s1 = live s"
      using s1(3) by (auto simp: same_slab_def live_def fun_eq_iff)
    have "due s1 ?N ?N ?N i \<or> (i, e_version (entries s1 ! i)) \<in> set rest" if "live s1 i" for i
      using wait that s1(5) due_mono [of s ?N ?N ?N i s1] s1(4) by (auto simp: es)
    moreover have "slab_ok hash s1" using slab_cong(1) [of s1 s] s1(3) ok by (simp add: same_slab_def)
    ultimately show ?thesis using early idx s1 es
      by (intro exI [of _ s1]) (auto simp: get_at_def evicts_same_slab)
  next
    case dueNow
    have l: "live s idx" using dueNow(1) idx by (simp add: live_def)
    from expire_entry_spec [OF ok w l dueNow(3)] obtain s1 where s1:
      "expire_entry send s idx = Some s1" "slab_ok hash s1" "wheels_ok s1" "tick s1 = tick s"
      "wheel_grows s s1" "\<forall>j. live s1 j \<longleftrightarrow> live s j \<and> j \<noteq> idx"
      "\<forall>j. j \<noteq> idx \<longrightarrow> entries s1 ! j = entries s ! j" "evicts send log (tick s) s s1"
      by blast
    have "due s1 ?N ?N ?N i \<or> (i, e_version (entries s1 ! i)) \<in> set rest" if "live s1 i" for i
      using wait that s1(6,7) due_mono [of s ?N ?N ?N i s1] s1(5) by auto
    then show ?thesis using dueNow idx s1 by (intro exI [of _ s1]) (auto simp: get_at_def)
  qed
qed

lemma process_bucket_spec:
  assumes "slab_ok hash s" "wheels_ok s" "\<forall>x\<in>set items. fst x < length (entries s)"
    and "\<forall>i. live s i \<longrightarrow> due s (tick s + 1) (tick s + 1) (tick s + 1) i \<or>
          (i, e_version (entries s ! i)) \<in> set items"
  shows "\<exists>s'. process_bucket send s items = Some s' \<and> shard_inv hash s' \<and> tick s' = tick s \<and>
    evicts send log (tick s) s s'"
  using assms
proof (induction items arbitrary: s)
  case Nil
  then show ?case by (simp add: shard_inv_def timely_def evicts_same_slab)
next
  case (Cons x rest)
  obtain idx ver where x: "x = (idx, ver)" by (cases x)
  have "idx < length (entries s)" using Cons.prems(3) x by simp
  from process_item [OF Cons.prems(1,2) this Cons.prems(4) [unfolded x], of send log] obtain s1 where
    s1: "process_bucket send s (x # rest) = process_bucket send s1 rest" "slab_ok hash s1" "wheels_ok s1"
      "tick s1 = tick s" "evicts send log (tick s) s s1"
      "\<forall>i. live s1 i \<longrightarrow> due s1 (tick s + 1) (tick s + 1) (tick s + 1) i \<or> (i, e_version (entries s1 ! i)) \<in> set rest"
    unfolding x by blast
  have "length (entries s1) = length (entries s)" using s1(5) by (simp add: evicts_def)
  with Cons.IH [of s1] s1 Cons.prems(3) obtain s' where
    "process_bucket send s1 rest = Some s'" "shard_inv hash s'" "tick s' = tick s"
    "evicts send log (tick s) s1 s'" by auto
  with s1(1) evicts_trans [OF s1(5)] show ?case by auto
qed

section \<open>A tick\<close>

lemma retain_current_spec:
  assumes "\<forall>x\<in>set items. fst x < length es"
  shows "\<exists>r. retain_current es items = Some r \<and>
    set r = {(i, v) \<in> set items. in_use (es ! i) \<and> e_version (es ! i) = v}"
  using assms by (induction items) (auto simp: get_at_def)

lemma retain_if_spec:
  assumes "\<forall>x\<in>set b. fst x < length (entries s)"
  shows "\<exists>r. (if c then retain_current (entries s) b else Some b) = Some r \<and> set r \<subseteq> set b \<and>
    (\<forall>i. live s i \<longrightarrow> (i, e_version (entries s ! i)) \<in> set b \<longrightarrow> (i, e_version (entries s ! i)) \<in> set r)"
  using retain_current_spec [OF assms] by (cases c) (force simp: live_def)+

lemma due_bucket_taken:
  assumes "due s t (t + 1) (t + 1) i"
  shows "due (s\<lparr>wheel_l1 := (wheel_l1 s)[t mod 512 := []]\<rparr>) (t + 1) (t + 1) (t + 1) i \<or>
    (i, e_version (entries s ! i)) \<in> set (wheel_l1 s ! (t mod 512))"
  using assms l1.due_visited [of "wheel_l1 s" t "expire_tick (entries s ! i) + 1"
      "(i, e_version (entries s ! i))"]
  by (auto simp: due_def Let_def)

lemma tick_body_spec:
  assumes inv: "shard_inv hash s"
  shows "\<exists>s'. tick_body send (s\<lparr>tick := tick s + 1\<rparr>) = Some s' \<and> shard_inv hash s' \<and>
    tick s' = tick s + 1 \<and> evicts send log (tick s + 1) s s'"
proof -
  let ?T = "tick s + 1" let ?s0 = "s\<lparr>tick := ?T\<rparr>"
  have ok0: "slab_ok hash ?s0" "wheels_ok ?s0" using inv by (simp_all add: shard_inv_def wheels_ok_def)
  have "\<forall>i. live ?s0 i \<longrightarrow> due ?s0 (tick ?s0) (tick ?s0) (tick ?s0) i"
    using inv by (simp add: shard_inv_def timely_def due_def)
  from cascade_spec [OF ok0(2) this] obtain s1 where s1: "cascade ?s0 = Some s1" "wheels_ok s1"
    "same_slab ?s0 s1" "\<forall>i. live s i \<longrightarrow> due s1 ?T (?T + 1) (?T + 1) i"
    by auto
  have e1: "entries s1 = entries s" "tick s1 = ?T" "live s1 = live s"
    using s1(3) by (auto simp: same_slab_def live_def fun_eq_iff)
  let ?j = "?T mod 512" let ?s2 = "s1\<lparr>wheel_l1 := (wheel_l1 s1)[?j := []]\<rparr>"
  let ?b = "wheel_l1 s1 ! ?j"
  have len: "length (wheel_l1 s1) = 512" using s1(2) by (simp add: wheels_ok_def wheel_consts)
  have b: "\<forall>x\<in>set ?b. fst x < length (entries s)"
    using s1(2) items_ok_bucket [of _ "wheel_l1 s1" ?j] len by (auto simp: wheels_ok_def e1)
  have ok2: "slab_ok hash ?s2" "wheels_ok ?s2"
    using s1(2,3) ok0(1) slab_cong(1) [of s1 ?s0 hash]
    by (simp_all add: same_slab_def wheels_ok_def items_ok_take)
  from retain_if_spec [OF b, of "COMPACT_THRESHOLD < length ?b"] obtain r where
    r: "(if COMPACT_THRESHOLD < length ?b then retain_current (entries s) ?b else Some ?b) = Some r"
      "set r \<subseteq> set ?b" "\<forall>i. live s i \<longrightarrow> (i, e_version (entries s ! i)) \<in> set ?b \<longrightarrow> (i, e_version (entries s ! i)) \<in> set r"
    by blast
  have "due ?s2 (?T + 1) (?T + 1) (?T + 1) i \<or> (i, e_version (entries s ! i)) \<in> set r"
    if "live s i" for i
    using due_bucket_taken [of s1 ?T i] s1(4) r(3) that by (simp only: e1) blast
  then obtain s3 where s3: "process_bucket send ?s2 r = Some s3" "shard_inv hash s3" "tick s3 = ?T"
    "evicts send log ?T ?s2 s3"
    using process_bucket_spec [OF ok2, of r send log] r(2) b by (auto simp: e1)
  have "tick_body send ?s0 = Some s3"
    using s1(1) len r(1) s3(1)
    by (auto simp: tick_body_def Let_def wheel_consts get_at_def e1 split: if_splits)
  moreover have "same_slab ?s0 ?s2" using s1(3) by simp
  then have "evicts send log ?T ?s0 ?s2" by (rule evicts_same_slab)
  then have "evicts send log ?T s ?s2"
    by (simp add: evicts_def reports_def emitted_def)
  ultimately show ?thesis using s3 evicts_trans by blast
qed

lemma tick_loop_spec:
  assumes "shard_inv hash s"
  shows "\<exists>s'. tick_loop send target s = Some s' \<and> shard_inv hash s' \<and>
    tick s' = max (tick s) target \<and> evicts send log (tick s') s s'"
  using assms
proof (induction "target - tick s" arbitrary: s)
  case 0
  then show ?case by (simp add: tick_loop.simps [of send target s] evicts_same_slab)
next
  case (Suc n)
  from tick_body_spec [OF Suc.prems] obtain s1 where s1:
    "tick_body send (s\<lparr>tick := tick s + 1\<rparr>) = Some s1" "shard_inv hash s1" "tick s1 = tick s + 1"
    "evicts send log (tick s1) s s1"
    by metis
  have "n = target - tick s1" using Suc.hyps(2) s1(3) by simp
  from Suc.hyps(1) [OF this s1(2)] obtain s' where s': "tick_loop send target s1 = Some s'"
    "shard_inv hash s'" "tick s' = max (tick s1) target" "evicts send log (tick s') s1 s'"
    by blast
  have "evicts send log (tick s') s s'" using evicts_trans [OF s1(4) s'(4)] s'(3) by simp
  moreover have "tick_loop send target s = Some s'"
    using Suc.hyps(2) s1(1) s'(1) by (simp add: tick_loop.simps [of send target s])
  ultimately show ?case using s' s1(3) Suc.hyps(2) by auto
qed

lemma on_tick_spec:
  assumes "shard_inv hash s"
  shows "\<exists>s'. on_tick send ms s = Some s' \<and> shard_inv hash s' \<and>
    tick s' = max (tick s) (min (ms div TICK_MS) (tick s + MAX_CATCHUP)) \<and> evicts send log (tick s') s s'"
proof -
  from tick_loop_spec [OF assms, of send "min (ms div TICK_MS) (tick s + MAX_CATCHUP)" log]
  obtain s1 where s1: "tick_loop send (min (ms div TICK_MS) (tick s + MAX_CATCHUP)) s = Some s1"
    "shard_inv hash s1" "tick s1 = max (tick s) (min (ms div TICK_MS) (tick s + MAX_CATCHUP))"
    "evicts send log (tick s1) s s1"
    by blast
  let ?s' = "if batch s1 \<noteq> [] then flush send s1 else s1"
  have "evicts send log (tick s1) s1 (flush send s1)"
    using emitted_flush reports_refl by (fastforce simp: evicts_def)
  then have "evicts send log (tick s1) s ?s'" using evicts_trans [OF s1(4)] s1(4) by simp
  moreover have "on_tick send ms s = Some ?s'" using s1(1) by (simp add: on_tick_def Let_def)
  moreover have "shard_inv hash ?s'" using s1(2) shard_inv_flush [OF s1(2)] by simp
  ultimately show ?thesis using s1(3) by auto
qed

section \<open>Commands\<close>

lemma shard_inv_scheduled:
  assumes ok: "slab_ok hash s" and w: "wheels_ok s" and i: "live s i"
    and e: "tick s \<le> expire_tick (entries s ! i)"
    and others: "\<And>j. live s j \<Longrightarrow> j \<noteq> i \<Longrightarrow> due s (tick s + 1) (tick s + 1) (tick s + 1) j"
  shows "\<exists>s'. schedule s i = Some s' \<and> shard_inv hash s' \<and> same_slab s s'"
proof -
  have "i < length (entries s)" using i by auto
  from schedule_spec [OF w this] e obtain s1 where s1: "schedule s i = Some s1" "wheels_ok s1"
    "same_slab s s1" "wheel_grows s s1" "due s1 (tick s + 1) (tick s + 1) (tick s + 1) i"
    by auto
  have es: "entries s1 = entries s" "tick s1 = tick s" "live s1 = live s"
    using s1(3) by (auto simp: same_slab_def live_def fun_eq_iff)
  have "due s1 (tick s1 + 1) (tick s1 + 1) (tick s1 + 1) j" if "live s1 j" for j
  proof (cases "j = i")
    case True
    then show ?thesis using s1(5) by (simp add: es)
  next
    case False
    with others that have d: "due s (tick s + 1) (tick s + 1) (tick s + 1) j" by (simp add: es)
    show ?thesis by (rule due_mono [OF d _ s1(4)]) (simp_all add: es)
  qed
  then have "timely s1" by (simp add: timely_def)
  moreover have "slab_ok hash s1" using slab_cong(1) [of s1 s] s1(3) ok by (simp add: same_slab_def)
  ultimately show ?thesis using s1 by (auto simp: shard_inv_def)
qed

lemma due_cong:
  assumes "entries t ! i = entries s ! i"
    "wheel_l1 t = wheel_l1 s" "wheel_l2 t = wheel_l2 s" "wheel_l3 t = wheel_l3 s"
  shows "due t a b c i = due s a b c i"
  using assms by (simp add: due_def)

lemma shard_inv_release:
  assumes "shard_inv hash s" "live s i"
  shows "shard_inv hash (release s i)"
proof -
  have "due (release s i) a b c j = due s a b c j" if "j \<noteq> i" for a b c j
    using that by (intro due_cong) (simp_all add: entries_release)
  then show ?thesis using assms slab_ok_release [of hash s i] wheels_ok_cong [of "release s i" s]
    by (auto simp: shard_inv_def timely_def live_release)
qed

lemma shard_delete_spec:
  assumes inv: "shard_inv hash s"
  shows "\<exists>s'. shard_delete hash s k = Some s' \<and> shard_inv hash s' \<and> tick s' = tick s \<and>
    length (entries s') = length (entries s) \<and> contents s' = (contents s)(k := None)"
proof -
  have ok: "slab_ok hash s" using inv by (simp add: shard_inv_def)
  show ?thesis using ok
  proof (cases rule: find_entry_spec [where k = k])
    case absent
    then have "contents s k = None" by (simp add: contents_None)
    with absent inv show ?thesis by (simp add: shard_delete_def fun_upd_idem)
  next
    case (present i)
    then show ?thesis using inv shard_inv_release [OF inv present(2)] free_remove_index_eq [OF ok present(2)]
        contents_release [OF ok present(2,3)]
      by (simp add: shard_delete_def)
  qed
qed

lemma shard_refresh_spec:
  assumes inv: "shard_inv hash s"
  shows "\<exists>s'. shard_refresh hash s k = Some s' \<and> shard_inv hash s' \<and> tick s' = tick s \<and>
    length (entries s') = length (entries s) \<and>
    contents s' = (case contents s k of None \<Rightarrow> contents s
                   | Some (_, ttl) \<Rightarrow> (contents s)(k \<mapsto> (tick s + ttl, ttl)))"
proof -
  have ok: "slab_ok hash s" using inv by (simp add: shard_inv_def)
  show ?thesis using ok
  proof (cases rule: find_entry_spec [where k = k])
    case absent
    then have "contents s k = None" by (simp add: contents_None)
    with absent inv show ?thesis by (simp add: shard_refresh_def)
  next
    case (present i)
    have i: "i < length (entries s)" using present(2) by auto
    let ?r = "renew s i"
    have "due ?r (tick s + 1) (tick s + 1) (tick s + 1) j" if "live ?r j" "j \<noteq> i" for j
      using that inv due_cong [of ?r j s] by (simp add: shard_inv_def timely_def live_renew i entries_renew)
    moreover have "wheels_ok ?r" using inv wheels_ok_cong [of ?r s] by (simp add: shard_inv_def)
    moreover have "live ?r i" using present(2) by (simp add: live_renew i)
    moreover have "tick ?r \<le> expire_tick (entries ?r ! i)" by (simp add: entries_renew i)
    ultimately obtain s' where s': "schedule ?r i = Some s'" "shard_inv hash s'" "same_slab ?r s'"
      using shard_inv_scheduled [OF slab_ok_renew [OF ok i], of i] by auto
    moreover have "contents s' = contents ?r" using s'(3) by (intro contents_cong) (simp add: same_slab_def)
    moreover have "shard_refresh hash s k = Some s'"
      using present(1) i s'(1) by (simp add: shard_refresh_def renew_def get_at_def)
    ultimately show ?thesis
      using contents_renew [OF ok present(2,3)] contents_Some [OF ok present(2,3)]
      by (simp add: same_slab_def)
  qed
qed

definition shard_full :: "('k, 'q) shard \<Rightarrow> bool" where
  "shard_full s \<longleftrightarrow> list_all in_use (entries s)"

lemma shard_full_alloc:
  "free_ok s \<Longrightarrow> shard_full s \<longleftrightarrow> length (entries s) \<le> free_head s"
  using free_slot [of s] unfolding shard_full_def list_all_length live_def by (meson not_le)

lemma insert_fresh_spec:
  assumes inv: "shard_inv hash s" and new: "\<And>j. live s j \<Longrightarrow> e_key (entries s ! j) \<noteq> Some k"
    and room: "free_head s < length (entries s)"
  shows "\<exists>s'. schedule (occupy hash s (free_head s) k ttl) (free_head s) = Some s' \<and>
    shard_inv hash s' \<and> tick s' = tick s \<and> length (entries s') = length (entries s) \<and>
    contents s' = (contents s)(k \<mapsto> (tick s + ttl, ttl))"
proof -
  let ?i = "free_head s" and ?r = "occupy hash s (free_head s) k ttl"
  have ok: "slab_ok hash s" using inv by (simp add: shard_inv_def)
  have nl: "\<not> live s ?i" using free_slot(1) room ok by (auto simp: slab_ok_def)
  have "due ?r (tick s + 1) (tick s + 1) (tick s + 1) j" if "live ?r j" "j \<noteq> ?i" for j
    using that inv due_cong [of ?r j s] by (simp add: shard_inv_def timely_def live_occupy room)
  moreover have "wheels_ok ?r" using inv wheels_ok_cong [of ?r s] by (simp add: shard_inv_def)
  moreover have "live ?r ?i" by (simp add: live_occupy room)
  moreover have "tick ?r \<le> expire_tick (entries ?r ! ?i)" using room by (simp add: entry_write_def)
  ultimately obtain s' where s': "schedule ?r ?i = Some s'" "shard_inv hash s'" "same_slab ?r s'"
    using shard_inv_scheduled [OF slab_ok_occupy [OF ok refl room new], where i = ?i] by auto
  moreover have "contents s' = contents ?r" using s'(3) by (intro contents_cong) (simp add: same_slab_def)
  ultimately show ?thesis
    using contents_occupy [OF ok refl room new] by (simp add: same_slab_def)
qed

lemma shard_insert_eq:
  assumes "find_entry s k (hash k) = Some old"
    "(case old of None \<Rightarrow> Some s | Some i \<Rightarrow> free (remove_index s (hash k) i) i) = Some s0"
  shows "shard_insert hash s k ttl =
    (if length (entries s0) \<le> free_head s0 then Some s0
     else schedule (occupy hash s0 (free_head s0) k ttl) (free_head s0))"
  using assms
  by (simp add: shard_insert_def alloc_def Let_def get_at_def occupy_def)

lemma shard_insert_spec:
  assumes inv: "shard_inv hash s"
  shows "\<exists>s'. shard_insert hash s k ttl = Some s' \<and> shard_inv hash s' \<and> tick s' = tick s \<and>
    length (entries s') = length (entries s) \<and>
    contents s' = (if contents s k = None \<and> shard_full s then contents s
                   else (contents s)(k \<mapsto> (tick s + ttl, ttl)))"
proof -
  have ok: "slab_ok hash s" using inv by (simp add: shard_inv_def)
  show ?thesis using ok
  proof (cases rule: find_entry_spec [where k = k])
    case absent
    then have "contents s k = None" by (simp add: contents_None)
    moreover have "shard_full s \<longleftrightarrow> length (entries s) \<le> free_head s"
      using ok by (simp add: slab_ok_def shard_full_alloc)
    ultimately show ?thesis
      using shard_insert_eq [of s k hash None s ttl] insert_fresh_spec [OF inv absent(2), of ttl] inv
      absent(1) by (cases "shard_full s") auto
  next
    case (present i)
    let ?r = "release s i"
    have "shard_insert hash s k ttl = (if length (entries ?r) \<le> free_head ?r then Some ?r
        else schedule (occupy hash ?r (free_head ?r) k ttl) (free_head ?r))"
      using shard_insert_eq [of s k hash "Some i" ?r ttl] present(1) free_remove_index_eq [OF ok present(2,4)] by simp
    moreover have room: "free_head ?r < length (entries ?r)" using present(2) by auto
    moreover have "e_key (entries ?r ! j) \<noteq> Some k" if "live ?r j" for j
      using that live_key_unique [OF ok _ present(2) _ present(3), of j]
      by (auto simp: live_release [OF present(2)] entries_release)
    ultimately show ?thesis
      using insert_fresh_spec [OF shard_inv_release [OF inv present(2)], of k ttl]
        contents_release [OF ok present(2,3)] contents_Some [OF ok present(2,3)]
      by (simp add: fun_upd_upd)
  qed
qed

lemma shard_handle_safe:
  "shard_inv hash s \<Longrightarrow> \<exists>s'. shard_handle hash s c = Some s' \<and> shard_inv hash s' \<and>
     length (entries s') = length (entries s)"
  using shard_insert_spec [of hash s] shard_refresh_spec [of hash s] shard_delete_spec [of hash s]
  by (cases c) (simp, blast)+

section \<open>Histories\<close>

text \<open>The task of a shard satisfies the contract of a component that never panics.\<close>

interpretation shard_run: safe_machine "run_step hash send" "\<lambda>_. True"
  "\<lambda>t. shard_inv hash (st_shard t)" for hash :: "'k \<Rightarrow> u64" and send
proof (unfold_locales, goal_cases)
  case (1 t e)
  show ?case
  proof (cases e)
    case (Cmd c)
    then show ?thesis using 1(1) shard_handle_safe [OF 1(1), of c] by (auto simp: run_step_def)
  next
    case (EmptyThenTick ms)
    then show ?thesis using 1(1) on_tick_spec [OF 1(1), of send ms "\<lambda>_. []"] by (auto simp: run_step_def)
  next
    case Disconnected
    then show ?thesis using 1(1) shard_inv_flush [OF 1(1), of send] by (auto simp: run_step_def)
  qed
qed

lemma new_shard_empty:
  "contents (shard_new capacity tx) = Map.empty" "tick (shard_new capacity tx) = 0"
  "shard_full (shard_new capacity tx) \<longleftrightarrow> capacity = 0"
  by (auto simp: contents_None fun_eq_iff)
    (auto simp: shard_new_def shard_full_def list_all_iff entry_new_empty_def)

definition shard_start :: "nat \<Rightarrow> 'q \<Rightarrow> ('k, 'q) shard_task" where
  "shard_start capacity tx = \<lparr>st_shard = shard_new capacity tx, st_running = True\<rparr>"

lemma history_inv:
  assumes "capacity < 2 ^ 32" "run_steps (run_step hash send) (shard_start capacity tx) inputs = Some t"
  shows "shard_inv hash (st_shard t)"
  using shard_run.run_inv [OF _ _ assms(2)] shard_inv_new [OF assms(1), of hash tx]
  by (simp add: shard_start_def list_all_iff)

lemma history_runs:
  assumes "capacity < 2 ^ 32"
  shows "\<exists>t. run_steps (run_step hash send) (shard_start capacity tx) inputs = Some t \<and> shard_inv hash (st_shard t)"
  using shard_run.run_safe [of hash "shard_start capacity tx" inputs send] shard_inv_new [OF assms, of hash tx]
  by (simp add: shard_start_def list_all_iff)

section \<open>Properties\<close>

text \<open>C1. Memory safety of the shard task: from a new shard of any capacity below \<open>2 ^ 32\<close>, every
  sequence of commands, ticks and disconnects runs without a panic, without an index out of
  range and without reading or dropping an uninitialised key, and the free list, the hash index,
  the key slots and the wheel agree at the end. No key is lost: a slot holds a key exactly when it is
  in use, and the end of the shard drops the keys of its contents, each once.\<close>

theorem shard_history_safe:
  assumes "capacity < 2 ^ 32"
  shows "\<exists>t ks. run_steps (run_step hash send) (shard_start capacity tx) inputs = Some t \<and>
    shard_inv hash (st_shard t) \<and> (\<forall>e\<in>set (entries (st_shard t)). in_use e \<longleftrightarrow> e_key e \<noteq> None) \<and>
    shard_drop (st_shard t) = Some ks \<and> distinct ks \<and> set ks = dom (contents (st_shard t))"
proof -
  obtain t where t: "run_steps (run_step hash send) (shard_start capacity tx) inputs = Some t" "shard_inv hash (st_shard t)"
    using history_runs [OF assms, of hash send tx inputs] by blast
  have "slots_clean (st_shard t)" by (rule clean_run [OF _ t(1)]) (simp add: shard_start_def clean_new)
  moreover have slab: "slab_ok hash (st_shard t)" using t(2) by (simp add: shard_inv_def)
  ultimately have "\<forall>e\<in>set (entries (st_shard t)). in_use e \<longleftrightarrow> e_key e \<noteq> None" by (auto simp: slots_clean_def dest: slab_key_present)
  with t shard_drop_contents [OF slab] show ?thesis by blast
qed

theorem shard_history_safe_witness:
  "\<exists>t ks. run_steps (run_step (\<lambda>k::nat. of_nat k) (\<lambda>q b. q @ b)) (shard_start 2 [])
     [Cmd (Insert 7 3), Cmd (Insert 8 1), Cmd (Insert 9 1), EmptyThenTick 400, Cmd (Refresh 7),
      Cmd (Delete 8), EmptyThenTick 2000, Disconnected] = Some t \<and>
     shard_inv (\<lambda>k::nat. of_nat k) (st_shard t) \<and> (\<forall>e\<in>set (entries (st_shard t)). in_use e \<longleftrightarrow> e_key e \<noteq> None) \<and>
     shard_drop (st_shard t) = Some ks \<and> distinct ks \<and> set ks = dom (contents (st_shard t))"
  by (rule shard_history_safe) simp

text \<open>C2. Expiry is never early and at most one tick late: in any state a shard can reach, a tick
  of the task evicts a key only when its expiry tick has come, and leaves a key in the cache only
  when its expiry tick is not before the tick reached (an entry that a cascade finds due at
  exactly the current tick goes to the next slot). A kept key keeps its expiry tick.\<close>

theorem on_tick_expiry:
  assumes "capacity < 2 ^ 32"
    and "run_steps (run_step hash send) (shard_start capacity tx) inputs = Some t"
    and "contents (st_shard t) k = Some (e, ttl)"
  shows "\<exists>s'. on_tick send ms (st_shard t) = Some s' \<and>
    tick s' = max (tick (st_shard t)) (min (ms div TICK_MS) (tick (st_shard t) + MAX_CATCHUP)) \<and>
    ((contents s' k = Some (e, ttl) \<and> tick s' \<le> e) \<or> (contents s' k = None \<and> e \<le> tick s'))"
proof -
  note inv = history_inv [OF assms(1,2)]
  from on_tick_spec [OF inv, of send ms "\<lambda>_. []"] obtain s' where s': "on_tick send ms (st_shard t) = Some s'"
    "shard_inv hash s'" "tick s' = max (tick (st_shard t)) (min (ms div TICK_MS) (tick (st_shard t) + MAX_CATCHUP))"
    "expires (tick s') (contents (st_shard t)) (contents s')"
    by (auto simp: evicts_def)
  have "tick s' \<le> e" if "contents s' k = Some (e, ttl)"
    using that s'(2) by (auto simp: shard_inv_def elim!: contentsE dest: timely_not_overdue)
  moreover have "contents s' k = Some (e, ttl) \<or> (contents s' k = None \<and> e \<le> tick s')"
    using s'(4) assms(3) by (auto simp: expires_def dest!: spec [of _ k])
  ultimately show ?thesis using s'(1,3) by blast
qed

theorem on_tick_expiry_witness:
  "\<exists>t. run_steps (run_step (\<lambda>k::nat. of_nat k) (\<lambda>q b. q @ b)) (shard_start 2 []) [Cmd (Insert 7 3)] = Some t \<and>
    (\<exists>s'. on_tick (\<lambda>q b. q @ b) 1000 (st_shard t) = Some s' \<and> tick s' = 5 \<and> contents s' 7 = None)"
proof -
  let ?h = "\<lambda>k::nat. of_nat k :: u64" and ?send = "\<lambda>q b. q @ b"
  obtain t where t: "run_steps (run_step ?h ?send) (shard_start 2 []) [Cmd (Insert 7 3)] = Some t"
    using history_runs [of 2 ?h ?send] by fastforce
  obtain s1 where s1: "shard_insert ?h (shard_new 2 ([] :: nat cache_event list)) 7 3 = Some s1"
    "contents s1 = [7 \<mapsto> (3, 3)]" "tick s1 = 0"
    using shard_insert_spec [OF shard_inv_new [of 2 ?h "[]"], of 7 3]
    by (auto simp: new_shard_empty)
  have "st_shard t = s1" using t s1(1) by (auto simp: shard_start_def run_step_def)
  with on_tick_expiry [of 2 ?h ?send "[]" "[Cmd (Insert 7 3)]" t 7 3 3 1000] t s1 show ?thesis
    by (auto simp: TICK_MS_def MAX_CATCHUP_def)
qed

lemma on_tick_batch:
  assumes "on_tick send ms s = Some s'"
  shows "batch s' = []"
proof -
  from assms obtain s1 where "s' = (if batch s1 \<noteq> [] then flush send s1 else s1)"
    by (auto simp: on_tick_def Let_def bind_eq_Some_conv)
  then show ?thesis by simp
qed

text \<open>Every eviction is reported exactly once: on an event channel that loses no batch, the
  events a tick adds to the stream (what the channel holds and the batch being filled) carry
  pairwise different keys, and these are exactly the keys the tick evicted.\<close>

lemma on_tick_reports:
  assumes "capacity < 2 ^ 32"
    and "run_steps (run_step hash send) (shard_start capacity tx) inputs = Some t"
    and "\<forall>q b. log (send q b) = log q @ b"
  shows "\<exists>s' evs. on_tick send ms (st_shard t) = Some s' \<and> batch s' = [] \<and>
    log (event_tx s') = log (event_tx (st_shard t)) @ batch (st_shard t) @ evs \<and>
    distinct (map ev_key evs) \<and>
    ev_key ` set evs = dom (contents (st_shard t)) - dom (contents s')"
proof -
  note inv = history_inv [OF assms(1,2)]
  from on_tick_spec [OF inv, of send ms log] obtain s' where s': "on_tick send ms (st_shard t) = Some s'"
    "reports log (st_shard t) s'"
    using assms(3) by (auto simp: evicts_def reliable_def)
  then obtain evs where "emitted log s' = emitted log (st_shard t) @ evs" "distinct (map ev_key evs)"
    "ev_key ` set evs = dom (contents (st_shard t)) - dom (contents s')"
    by (auto simp: reports_def)
  moreover have "batch s' = []" using s'(1) by (rule on_tick_batch)
  ultimately show ?thesis using s'(1) by (intro exI [of _ s'] exI [of _ evs]) (simp add: emitted_def)
qed

text \<open>The abstract cache: what a command promises, on the map from keys to expiry tick and time
  to live, at tick \<open>now\<close>, in a cache that is full or not.\<close>

fun spec_handle ::
  "nat \<Rightarrow> bool \<Rightarrow> ('k \<rightharpoonup> nat \<times> nat) \<Rightarrow> 'k command \<Rightarrow> ('k \<rightharpoonup> nat \<times> nat)" where
  "spec_handle now full m (Insert k ttl) =
     (if m k = None \<and> full then m else m(k \<mapsto> (now + ttl, ttl)))"
| "spec_handle now full m (Refresh k) =
     (case m k of None \<Rightarrow> m | Some (_, ttl) \<Rightarrow> m(k \<mapsto> (now + ttl, ttl)))"
| "spec_handle now full m (Delete k) = m(k := None)"

text \<open>Commands refine the abstract cache: handling a command returns, leaves the tick alone and changes the contents as the
  abstract cache does; an insert of a new key is dropped exactly when every slot is in use.\<close>

lemma shard_handle_spec:
  assumes inv: "shard_inv hash s"
  shows "\<exists>s'. shard_handle hash s cmd = Some s' \<and> shard_inv hash s' \<and> tick s' = tick s \<and>
    contents s' = spec_handle (tick s) (shard_full s) (contents s) cmd"
proof (cases cmd)
  case (Insert k ttl)
  then show ?thesis using shard_insert_spec [OF inv, of k ttl] by auto
next
  case (Refresh k)
  then show ?thesis using shard_refresh_spec [OF inv, of k] by auto
next
  case (Delete k)
  then show ?thesis using shard_delete_spec [OF inv, of k] by auto
qed

lemma shard_handle_refines:
  assumes "capacity < 2 ^ 32"
    and "run_steps (run_step hash send) (shard_start capacity tx) inputs = Some t"
  shows "\<exists>s'. shard_handle hash (st_shard t) c = Some s' \<and> tick s' = tick (st_shard t) \<and>
    contents s' = spec_handle (tick (st_shard t)) (shard_full (st_shard t)) (contents (st_shard t)) c"
  using shard_handle_spec [OF history_inv [OF assms], of c] by blast

lemma ttl_to_tick_le: "ttl_to_tick ms \<le> 2 ^ 57"
  by (auto simp: ttl_to_tick_def div_ceil_def TICK_MS_def Let_def)

lemma expire_tick_no_overflow: "now \<le> 2 ^ 63 \<Longrightarrow> now + ttl_to_tick ms < 2 ^ 64"
  using ttl_to_tick_le [of ms] by simp

text \<open>Time to live in ticks: for a duration whose milliseconds fit 64 bits, the number of
  ticks is at least one, covers the duration, exceeds it by less than one tick, and an expiry tick
  computed from it does not overflow before tick \<open>2 ^ 63\<close>.\<close>

lemma ttl_to_tick_bounds:
  assumes "ttl_ms < 2 ^ 64"
  shows "1 \<le> ttl_to_tick ttl_ms \<and> ttl_ms \<le> ttl_to_tick ttl_ms * TICK_MS \<and>
    ttl_to_tick ttl_ms * TICK_MS \<le> max 1 ttl_ms + (TICK_MS - 1) \<and>
    2 ^ 63 + ttl_to_tick ttl_ms < 2 ^ 64"
proof (cases "ttl_ms = 0")
  case True
  then show ?thesis by (simp add: ttl_to_tick_def TICK_MS_def)
next
  case False
  then have "ttl_to_tick ttl_ms = div_ceil ttl_ms 200" using assms by (simp add: ttl_to_tick_def TICK_MS_def)
  with div_ceil_lower [of 200 ttl_ms] div_ceil_upper [of 200 ttl_ms] False
    expire_tick_no_overflow [of "2 ^ 63" ttl_ms]
  show ?thesis by (auto simp: TICK_MS_def max_def)
qed

text \<open>Shard selection never indexes out of range for a non-empty shard vector, and for a
  power-of-two number of shards it is the hash modulo that number, so every shard can be hit;
  with no shard it panics.\<close>

lemma shard_select_spec:
  "shard_select 0 h = None \<and>
   (0 < n \<longrightarrow> (\<exists>i. shard_select n h = Some i \<and> i < n)) \<and>
   shard_select (2 ^ m) h = Some (unat h mod 2 ^ m)"
proof (intro conjI impI)
  assume n: "0 < n"
  have "int (unat h AND (n - 1)) \<le> int (n - 1)"
    unfolding of_nat_and_eq by (rule AND_upper2) simp
  with n have "unat h AND (n - 1) < n" by linarith
  with n show "\<exists>i. shard_select n h = Some i \<and> i < n" by (simp add: shard_select_def)
next
  have "unat h AND (2 ^ m - 1) = unat h mod 2 ^ m"
    by (metis mask_eq_exp_minus_1 take_bit_eq_mask take_bit_eq_mod)
  then show "shard_select (2 ^ m) h = Some (unat h mod 2 ^ m)" by (simp add: shard_select_def)
qed (simp add: shard_select_def)

end
