(* ===== verification/C100k_Cache.thy ===== *)
theory C100k_Cache
  imports C100k_Inv
begin

text \<open>
  The whole cache of \<^verbatim>\<open>base/src/cache/c100k.rs\<close>: a vector of shards, each a task behind a command channel, one event channel that all
  shards share, and the calls that route a key to its shard. Calls and tasks interleave in any way.

  The channels of tokio are parameters: making one with a capacity, \<^verbatim>\<open>try_send\<close>, \<^verbatim>\<open>try_recv\<close>, and what dropping the receiver of the events does. A task drains
  its channel and then waits for its ticker; while it waits, commands pile up and are handled after the tick.
\<close>

section \<open>The cache\<close>

record ('k, 'q, 'c, 'e) channels =
  ch_new :: "nat \<Rightarrow> 'c"
  ch_send :: "'c \<Rightarrow> 'k command \<Rightarrow> 'e + 'c"
  ch_recv :: "'c \<Rightarrow> ('k command \<times> 'c) option"
  ev_new :: "nat \<Rightarrow> 'q"
  ev_send :: "'q \<Rightarrow> 'k cache_event list \<Rightarrow> 'q"
  ev_recv :: "'q \<Rightarrow> ('k cache_event list \<times> 'q) option"
  ev_close :: "'q \<Rightarrow> 'q"

record ('k, 'q, 'c) cache =
  ca_shards :: "'c list"
  ca_tasks :: "('k, 'q) shard_task list"
  ca_waiting :: "bool list"            \<comment> \<open>the task waits for its ticker\<close>
  ca_events :: 'q
  ca_dropped :: bool

definition with_capacity :: "('k, 'q, 'c, 'e) channels \<Rightarrow> nat \<Rightarrow> nat \<Rightarrow> ('k, 'q, 'c) cache" where
  "with_capacity io capacity_per_shard shard_len =
     (let q = ev_new io CHANNEL in
      \<lparr>ca_shards = replicate shard_len (ch_new io CHANNEL),
       ca_tasks = replicate shard_len (shard_start capacity_per_shard q),
       ca_waiting = replicate shard_len False, ca_events = q, ca_dropped = False\<rparr>)"

definition cache_default :: "('k, 'q, 'c, 'e) channels \<Rightarrow> ('k, 'q, 'c) cache" where
  "cache_default io = with_capacity io DEFAULT_CAPACITY_PER_SHARD SHARDS"

definition send_to :: "('k, 'q, 'c, 'e) channels \<Rightarrow> ('k, 'q, 'c) cache \<Rightarrow> nat \<Rightarrow> 'k command \<Rightarrow> ('e + unit) \<times> ('k, 'q, 'c) cache" where
  "send_to io c i cmd =
     (case ch_send io (ca_shards c ! i) cmd of
        Inl e \<Rightarrow> (Inl e, c)
      | Inr ch \<Rightarrow> (Inr (), c\<lparr>ca_shards := (ca_shards c)[i := ch]\<rparr>))"

text \<open>One turn of a task, which sends its events into the channel all tasks share.\<close>

definition shard_turn ::
  "('k \<Rightarrow> u64) \<Rightarrow> ('k, 'q, 'c, 'e) channels \<Rightarrow> nat \<Rightarrow> 'k shard_input \<Rightarrow> ('k, 'q, 'c) cache \<Rightarrow> ('k, 'q, 'c) cache option" where
  "shard_turn hash io i inp c = do {
     t \<leftarrow> get_at (ca_tasks c) i;
     t' \<leftarrow> run_step hash (ev_send io) (t\<lparr>st_shard := (st_shard t)\<lparr>event_tx := ca_events c\<rparr>\<rparr>) inp;
     Some (c\<lparr>ca_tasks := (ca_tasks c)[i := t'], ca_events := event_tx (st_shard t')\<rparr>)
   }"

text \<open>\<^verbatim>\<open>try_recv\<close> in the inner loop of \<^verbatim>\<open>run\<close>, with the command it yields, if any.\<close>

definition shard_poll ::
  "('k \<Rightarrow> u64) \<Rightarrow> ('k, 'q, 'c, 'e) channels \<Rightarrow> nat \<Rightarrow> ('k, 'q, 'c) cache \<Rightarrow> ('k command option \<times> ('k, 'q, 'c) cache) option" where
  "shard_poll hash io i c =
     (if \<not> (i < length (ca_tasks c) \<and> st_running (ca_tasks c ! i) \<and> \<not> ca_waiting c ! i) then Some (None, c)
      else case ch_recv io (ca_shards c ! i) of
        Some (cmd, ch) \<Rightarrow>
          map_option (\<lambda>c'. (Some cmd, c')) (shard_turn hash io i (Cmd cmd) (c\<lparr>ca_shards := (ca_shards c)[i := ch]\<rparr>))
      | None \<Rightarrow>
          if ca_dropped c then map_option (\<lambda>c'. (None, c')) (shard_turn hash io i Disconnected c)
          else Some (None, c\<lparr>ca_waiting := (ca_waiting c)[i := True]\<rparr>))"

text \<open>The ticker fires, at the given number of milliseconds after the start.\<close>

definition shard_tick ::
  "('k \<Rightarrow> u64) \<Rightarrow> ('k, 'q, 'c, 'e) channels \<Rightarrow> nat \<Rightarrow> nat \<Rightarrow> ('k, 'q, 'c) cache \<Rightarrow> ('k, 'q, 'c) cache option" where
  "shard_tick hash io i ms c =
     (if i < length (ca_tasks c) \<and> ca_waiting c ! i
      then shard_turn hash io i (EmptyThenTick ms) (c\<lparr>ca_waiting := (ca_waiting c)[i := False]\<rparr>)
      else Some c)"

definition next_batch ::
  "('k, 'q, 'c, 'e) channels \<Rightarrow> ('k, 'q, 'c) cache \<Rightarrow> 'k cache_event list option \<times> ('k, 'q, 'c) cache" where
  "next_batch io c =
     (case ev_recv io (ca_events c) of None \<Rightarrow> (None, c) | Some (b, q) \<Rightarrow> (Some b, c\<lparr>ca_events := q\<rparr>))"

definition drop_cache :: "('k, 'q, 'c, 'e) channels \<Rightarrow> ('k, 'q, 'c) cache \<Rightarrow> ('k, 'q, 'c) cache" where
  "drop_cache io c = c\<lparr>ca_dropped := True, ca_events := ev_close io (ca_events c)\<rparr>"

section \<open>Histories\<close>

datatype 'k cache_op =
  CallInsert 'k nat | CallRefresh 'k | CallDelete 'k
| ShardPoll nat | ShardTick nat nat | NextBatch | DropCache

text \<open>Beside the cache, the commands whose call succeeded and the commands handled, with their shard.\<close>

record 'k cache_log =
  lg_sent :: "'k command list"
  lg_done :: "(nat \<times> 'k command) list"

definition empty_log :: "'k cache_log" where
  "empty_log = \<lparr>lg_sent = [], lg_done = []\<rparr>"

fun cmd_key :: "'k command \<Rightarrow> 'k" where
  "cmd_key (Insert k _) = k"
| "cmd_key (Refresh k) = k"
| "cmd_key (Delete k) = k"

definition log_call ::
  "'k command \<Rightarrow> 'k cache_log \<Rightarrow> (('e + unit) \<times> ('k, 'q, 'c) cache) option \<Rightarrow> (('k, 'q, 'c) cache \<times> 'k cache_log) option" where
  "log_call cmd lg res =
     map_option (\<lambda>(r, c). (c, if isl r then lg else lg\<lparr>lg_sent := lg_sent lg @ [cmd]\<rparr>)) res"

fun cache_step ::
  "('k \<Rightarrow> u64) \<Rightarrow> ('k, 'q, 'c, 'e) channels \<Rightarrow> ('k, 'q, 'c) cache \<times> 'k cache_log \<Rightarrow> 'k cache_op \<Rightarrow>
   (('k, 'q, 'c) cache \<times> 'k cache_log) option" where
  "cache_step hash io (c, lg) (CallInsert k ttl_ms) =
     (if ca_dropped c then Some (c, lg)
      else log_call (Insert k (ttl_to_tick ttl_ms)) lg (cache_insert hash (send_to io c) (length (ca_shards c)) k ttl_ms))"
| "cache_step hash io (c, lg) (CallRefresh k) =
     (if ca_dropped c then Some (c, lg)
      else log_call (Refresh k) lg (cache_refresh hash (send_to io c) (length (ca_shards c)) k))"
| "cache_step hash io (c, lg) (CallDelete k) =
     (if ca_dropped c then Some (c, lg)
      else log_call (Delete k) lg (cache_delete hash (send_to io c) (length (ca_shards c)) k))"
| "cache_step hash io (c, lg) (ShardPoll i) =
     map_option (\<lambda>(r, c'). (c', case r of None \<Rightarrow> lg | Some cmd \<Rightarrow> lg\<lparr>lg_done := lg_done lg @ [(i, cmd)]\<rparr>))
       (shard_poll hash io i c)"
| "cache_step hash io (c, lg) (ShardTick i ms) = map_option (\<lambda>c'. (c', lg)) (shard_tick hash io i ms c)"
| "cache_step hash io (c, lg) NextBatch = Some (snd (next_batch io c), lg)"
| "cache_step hash io (c, lg) DropCache = Some (drop_cache io c, lg)"

text \<open>What the documentation of a channel promises: the commands accepted and not yet received, first in first out.\<close>

definition fifo :: "('k, 'q, 'c, 'e) channels \<Rightarrow> ('c \<Rightarrow> 'k command list) \<Rightarrow> bool" where
  "fifo io pending \<longleftrightarrow>
     pending (ch_new io CHANNEL) = [] \<and>
     (\<forall>c x c'. ch_send io c x = Inr c' \<longrightarrow> pending c' = pending c @ [x]) \<and>
     (\<forall>c x c'. ch_recv io c = Some (x, c') \<longrightarrow> pending c = x # pending c')"

section \<open>The invariant\<close>

definition tasks_inv :: "('k \<Rightarrow> u64) \<Rightarrow> ('k, 'q, 'c) cache \<Rightarrow> bool" where
  "tasks_inv hash c \<longleftrightarrow>
     0 < length (ca_shards c) \<and> length (ca_tasks c) = length (ca_shards c) \<and> length (ca_waiting c) = length (ca_shards c) \<and>
     (\<forall>i < length (ca_shards c). shard_inv hash (st_shard (ca_tasks c ! i)) \<and>
        (\<forall>k. contents (st_shard (ca_tasks c ! i)) k \<noteq> None \<longrightarrow> shard_select (length (ca_shards c)) (hash k) = Some i))"

text \<open>Per shard, the commands sent to it are those it has handled and then those that wait in its channel.\<close>

definition routed :: "('k \<Rightarrow> u64) \<Rightarrow> nat \<Rightarrow> nat \<Rightarrow> 'k command list \<Rightarrow> 'k command list" where
  "routed hash n i cmds = filter (\<lambda>cmd. shard_select n (hash (cmd_key cmd)) = Some i) cmds"

definition order_inv :: "('k \<Rightarrow> u64) \<Rightarrow> ('c \<Rightarrow> 'k command list) \<Rightarrow> ('k, 'q, 'c) cache \<times> 'k cache_log \<Rightarrow> bool" where
  "order_inv hash pending cl \<longleftrightarrow>
     (let (c, lg) = cl in
      \<forall>i < length (ca_shards c). routed hash (length (ca_shards c)) i (lg_sent lg) =
        map snd (filter (\<lambda>x. fst x = i) (lg_done lg)) @ pending (ca_shards c ! i))"

lemma shard_inv_event_tx [simp]: "shard_inv hash (s\<lparr>event_tx := q\<rparr>) = shard_inv hash s"
  by (simp add: shard_inv_def wheels_ok_def timely_def due_def Let_def)

lemma contents_event_tx [simp]: "contents (s\<lparr>event_tx := q\<rparr>) = contents s"
  by (rule contents_cong) simp

lemma shard_full_event_tx [simp]: "shard_full (s\<lparr>event_tx := q\<rparr>) = shard_full s"
  by (simp add: shard_full_def)

lemma spec_handle_dom: "dom (spec_handle now full m cmd) \<subseteq> insert (cmd_key cmd) (dom m)"
  by (cases cmd) (auto split: if_splits option.splits)

lemma spec_handle_other: "k \<noteq> cmd_key cmd \<Longrightarrow> spec_handle now full m cmd k = m k"
  by (cases cmd) (auto split: option.splits)

lemma spec_handle_local:
  "m (cmd_key cmd) = m' (cmd_key cmd) \<Longrightarrow> spec_handle now full m cmd (cmd_key cmd) = spec_handle now full m' cmd (cmd_key cmd)"
  by (cases cmd) (auto split: option.splits)

section \<open>Steps\<close>

lemma shard_select_range: "0 < n \<Longrightarrow> \<exists>i < n. shard_select n h = Some i"
  using shard_select_spec [of h n 0] by blast

text \<open>The contract of a call: the command goes to the shard of its key, and is either accepted there or nothing changes.\<close>

lemma call_spec:
  assumes "tasks_inv hash c" "order_inv hash pending (c, lg)" "fifo io pending"
    and "res = log_call cmd lg (cache_send hash (send_to io c) (length (ca_shards c)) (cmd_key cmd) cmd)"
  shows "\<exists>c' lg'. res = Some (c', lg') \<and> tasks_inv hash c' \<and> order_inv hash pending (c', lg') \<and>
    length (ca_shards c') = length (ca_shards c)"
proof -
  obtain i where i: "i < length (ca_shards c)" "shard_select (length (ca_shards c)) (hash (cmd_key cmd)) = Some i"
    using shard_select_range [of "length (ca_shards c)" "hash (cmd_key cmd)"] assms(1) by (auto simp: tasks_inv_def)
  show ?thesis
  proof (cases "ch_send io (ca_shards c ! i) cmd")
    case (Inl e)
    with i assms show ?thesis by (simp add: log_call_def cache_send_def send_to_def)
  next
    case (Inr ch)
    then have "pending ch = pending (ca_shards c ! i) @ [cmd]" using assms(3) by (simp add: fifo_def)
    with Inr i assms(1,2,4) show ?thesis
      by (auto simp: log_call_def cache_send_def send_to_def tasks_inv_def order_inv_def routed_def nth_list_update)
  qed
qed

lemma run_step_dom:
  assumes "shard_inv hash (st_shard t)"
  shows "\<exists>t'. run_step hash send t inp = Some t' \<and> shard_inv hash (st_shard t') \<and>
    dom (contents (st_shard t')) \<subseteq> dom (contents (st_shard t)) \<union> {cmd_key cmd | cmd. inp = Cmd cmd}"
proof (cases "st_running t")
  case True
  show ?thesis
  proof (cases inp)
    case (Cmd cm)
    with True shard_handle_spec [OF assms, of cm]
      spec_handle_dom [of "tick (st_shard t)" "shard_full (st_shard t)" "contents (st_shard t)" cm]
    show ?thesis by (auto simp: run_step_def)
  next
    case (EmptyThenTick ms)
    with True on_tick_spec [OF assms, of send ms "\<lambda>_. []"] show ?thesis
      by (auto simp: run_step_def evicts_def dest!: expires_dom)
  next
    case Disconnected
    with True assms shard_inv_flush [OF assms] show ?thesis by (auto simp: run_step_def)
  qed
qed (simp add: run_step_def assms)

text \<open>A turn of a task: it returns, and the contents of its shard stay within the keys it held and the key of the command.\<close>

lemma shard_turn_spec:
  assumes inv: "tasks_inv hash c" and i: "i < length (ca_shards c)"
    and cmd: "\<And>cmd. inp = Cmd cmd \<Longrightarrow> shard_select (length (ca_shards c)) (hash (cmd_key cmd)) = Some i"
  shows "\<exists>c'. shard_turn hash io i inp c = Some c' \<and> tasks_inv hash c' \<and> ca_shards c' = ca_shards c \<and>
    (\<forall>j. j \<noteq> i \<longrightarrow> ca_tasks c' ! j = ca_tasks c ! j)"
proof -
  let ?t = "(ca_tasks c ! i)\<lparr>st_shard := (st_shard (ca_tasks c ! i))\<lparr>event_tx := ca_events c\<rparr>\<rparr>"
  have t: "shard_inv hash (st_shard ?t)" "\<And>k. contents (st_shard ?t) k \<noteq> None \<Longrightarrow> shard_select (length (ca_shards c)) (hash k) = Some i"
    using inv i by (simp_all add: tasks_inv_def)
  obtain t' where t': "run_step hash (ev_send io) ?t inp = Some t'" "shard_inv hash (st_shard t')"
    and dom: "dom (contents (st_shard t')) \<subseteq> dom (contents (st_shard ?t)) \<union> {cmd_key cmd | cmd. inp = Cmd cmd}"
    using run_step_dom [OF t(1)] by blast
  have keys: "shard_select (length (ca_shards c)) (hash k) = Some i" if "contents (st_shard t') k \<noteq> None" for k
    using that dom t(2) cmd by blast
  let ?c = "c\<lparr>ca_tasks := (ca_tasks c)[i := t'], ca_events := event_tx (st_shard t')\<rparr>"
  have "shard_turn hash io i inp c = Some ?c" using t'(1) i inv by (simp add: shard_turn_def get_at_def tasks_inv_def)
  moreover have "tasks_inv hash ?c" using inv i t'(2) keys by (simp add: tasks_inv_def nth_list_update)
  ultimately show ?thesis by auto
qed

lemma pending_routed:
  assumes "order_inv hash pending (c, lg)" "i < length (ca_shards c)" "cmd \<in> set (pending (ca_shards c ! i))"
  shows "shard_select (length (ca_shards c)) (hash (cmd_key cmd)) = Some i"
proof -
  have "routed hash (length (ca_shards c)) i (lg_sent lg) = map snd (filter (\<lambda>x. fst x = i) (lg_done lg)) @ pending (ca_shards c ! i)"
    using assms(1,2) by (simp add: order_inv_def)
  then have "cmd \<in> set (routed hash (length (ca_shards c)) i (lg_sent lg))" using assms(3) by simp
  then show ?thesis by (simp add: routed_def)
qed

lemma order_inv_cong:
  "ca_shards c' = ca_shards c \<Longrightarrow> order_inv hash pending (c', lg) = order_inv hash pending (c, lg)"
  by (simp add: order_inv_def)

text \<open>Taking a command from a channel and recording it as handled keeps the order.\<close>

lemma order_inv_recv:
  assumes "order_inv hash pending (c, lg)" "i < length (ca_shards c)" "pending (ca_shards c ! i) = cmd # pending ch"
    and "ca_shards c' = (ca_shards c)[i := ch]"
  shows "order_inv hash pending (c', lg\<lparr>lg_done := lg_done lg @ [(i, cmd)]\<rparr>)"
  using assms by (auto simp: order_inv_def nth_list_update)

lemma poll_command:
  assumes inv: "tasks_inv hash c" "order_inv hash pending (c, lg)" "fifo io pending"
    and i: "i < length (ca_shards c)" "st_running (ca_tasks c ! i)" "\<not> ca_waiting c ! i"
    and recv: "ch_recv io (ca_shards c ! i) = Some (cmd, ch)"
  shows "\<exists>c'. shard_poll hash io i c = Some (Some cmd, c') \<and>
    shard_turn hash io i (Cmd cmd) (c\<lparr>ca_shards := (ca_shards c)[i := ch]\<rparr>) = Some c' \<and>
    tasks_inv hash c' \<and> order_inv hash pending (c', lg\<lparr>lg_done := lg_done lg @ [(i, cmd)]\<rparr>) \<and>
    length (ca_shards c') = length (ca_shards c) \<and> (\<forall>j. j \<noteq> i \<longrightarrow> ca_tasks c' ! j = ca_tasks c ! j)"
proof -
  let ?c = "c\<lparr>ca_shards := (ca_shards c)[i := ch]\<rparr>"
  have p: "pending (ca_shards c ! i) = cmd # pending ch" using inv(3) recv by (simp add: fifo_def)
  have sel: "shard_select (length (ca_shards c)) (hash (cmd_key cmd)) = Some i"
    using pending_routed [OF inv(2) i(1), of cmd] p by simp
  have "tasks_inv hash ?c" "i < length (ca_shards ?c)" using inv(1) i(1) by (simp_all add: tasks_inv_def)
  from shard_turn_spec [OF this, of "Cmd cmd" io] sel obtain c' where
    c': "shard_turn hash io i (Cmd cmd) ?c = Some c'" "tasks_inv hash c'" "ca_shards c' = (ca_shards c)[i := ch]"
      "\<forall>j. j \<noteq> i \<longrightarrow> ca_tasks c' ! j = ca_tasks c ! j" by auto
  moreover have "order_inv hash pending (c', lg\<lparr>lg_done := lg_done lg @ [(i, cmd)]\<rparr>)"
    using order_inv_recv [OF inv(2) i(1) p c'(3)] .
  moreover have "shard_poll hash io i c = Some (Some cmd, c')"
    using i recv c'(1) inv(1) by (simp add: shard_poll_def tasks_inv_def)
  ultimately show ?thesis using inv(1) by simp
qed

lemma poll_safe:
  assumes inv: "tasks_inv hash c" "order_inv hash pending (c, lg)" "fifo io pending"
  shows "\<exists>c' lg'. cache_step hash io (c, lg) (ShardPoll i) = Some (c', lg') \<and> tasks_inv hash c' \<and>
    order_inv hash pending (c', lg') \<and> length (ca_shards c') = length (ca_shards c)"
proof (cases "i < length (ca_tasks c) \<and> st_running (ca_tasks c ! i) \<and> \<not> ca_waiting c ! i")
  case True
  then have i: "i < length (ca_shards c)" "st_running (ca_tasks c ! i)" "\<not> ca_waiting c ! i"
    using inv(1) by (simp_all add: tasks_inv_def)
  show ?thesis
  proof (cases "ch_recv io (ca_shards c ! i)")
    case None
    obtain c' where "shard_turn hash io i Disconnected c = Some c'" "tasks_inv hash c'" "ca_shards c' = ca_shards c"
      using shard_turn_spec [OF inv(1) i(1), of Disconnected io] by auto
    moreover have "tasks_inv hash (c\<lparr>ca_waiting := (ca_waiting c)[i := True]\<rparr>)" using inv(1) by (simp add: tasks_inv_def)
    ultimately show ?thesis using None True inv(2) by (auto simp: shard_poll_def order_inv_def)
  next
    case (Some x)
    obtain cmd ch where x: "x = (cmd, ch)" by (cases x)
    from poll_command [OF inv i] Some x show ?thesis by fastforce
  qed
next
  case False
  then have "shard_poll hash io i c = Some (None, c)" unfolding shard_poll_def by argo
  with inv show ?thesis by simp
qed

lemma tick_safe:
  assumes "tasks_inv hash c" "order_inv hash pending (c, lg)"
  shows "\<exists>c' lg'. cache_step hash io (c, lg) (ShardTick i ms) = Some (c', lg') \<and> tasks_inv hash c' \<and>
    order_inv hash pending (c', lg') \<and> length (ca_shards c') = length (ca_shards c)"
proof (cases "i < length (ca_tasks c) \<and> ca_waiting c ! i")
  case True
  let ?c = "c\<lparr>ca_waiting := (ca_waiting c)[i := False]\<rparr>"
  have "tasks_inv hash ?c" "i < length (ca_shards ?c)" using assms(1) True by (simp_all add: tasks_inv_def)
  from shard_turn_spec [OF this, of "EmptyThenTick ms" io] True assms(2) show ?thesis
    by (auto simp: shard_tick_def order_inv_def)
next
  case False
  then have "shard_tick hash io i ms c = Some c" unfolding shard_tick_def by argo
  with assms show ?thesis by simp
qed

text \<open>The cache with its log never panics.\<close>

definition cache_inv ::
  "('k \<Rightarrow> u64) \<Rightarrow> ('c \<Rightarrow> 'k command list) \<Rightarrow> nat \<Rightarrow> ('k, 'q, 'c) cache \<times> 'k cache_log \<Rightarrow> bool" where
  "cache_inv hash pending n cl \<longleftrightarrow> tasks_inv hash (fst cl) \<and> order_inv hash pending cl \<and> length (ca_shards (fst cl)) = n"

lemma cache_step_safe:
  assumes "cache_inv hash pending n cl" "fifo io pending"
  shows "\<exists>cl'. cache_step hash io cl op = Some cl' \<and> cache_inv hash pending n cl'"
proof -
  obtain c lg where cl: "cl = (c, lg)" by (cases cl)
  have inv: "tasks_inv hash c" "order_inv hash pending (c, lg)" "length (ca_shards c) = n" using assms(1) by (simp_all add: cl cache_inv_def)
  have call: "\<exists>cl'. log_call cmd lg (cache_send hash (send_to io c) (length (ca_shards c)) (cmd_key cmd) cmd) = Some cl' \<and> cache_inv hash pending n cl'" for cmd
    using call_spec [OF inv(1,2) assms(2) refl] inv(3) by (auto simp: cache_inv_def)
  show ?thesis
  proof (cases op)
    case (CallInsert k ms)
    then show ?thesis using call [of "Insert k (ttl_to_tick ms)"] assms(1) by (auto simp: cl cache_insert_def)
  next
    case (CallRefresh k)
    then show ?thesis using call [of "Refresh k"] assms(1) by (auto simp: cl cache_refresh_def)
  next
    case (CallDelete k)
    then show ?thesis using call [of "Delete k"] assms(1) by (auto simp: cl cache_delete_def)
  next
    case (ShardPoll i)
    then show ?thesis using poll_safe [OF inv(1,2) assms(2), of i] inv(3) unfolding cl cache_inv_def by auto
  next
    case (ShardTick i ms)
    then show ?thesis using tick_safe [OF inv(1,2), of io i ms] inv(3) unfolding cl cache_inv_def by auto
  next
    case NextBatch
    then show ?thesis using inv
      by (auto simp: cl cache_inv_def next_batch_def tasks_inv_def order_inv_def split: option.splits prod.splits)
  next
    case DropCache
    then show ?thesis using inv by (auto simp: cl cache_inv_def drop_cache_def tasks_inv_def order_inv_def)
  qed
qed

lemma cache_inv_new:
  assumes "0 < n" "capacity < 2 ^ 32" "fifo io pending"
  shows "cache_inv hash pending n (with_capacity io capacity n, empty_log)"
  using assms shard_inv_new [OF assms(2), of hash "ev_new io CHANNEL"]
  by (simp add: cache_inv_def tasks_inv_def order_inv_def with_capacity_def shard_start_def empty_log_def routed_def fifo_def
      new_shard_empty Let_def)

interpretation cache_run: safe_machine "cache_step hash io" "\<lambda>_. True" "\<lambda>cl. fifo io pending \<and> cache_inv hash pending n cl"
  for hash :: "'k \<Rightarrow> u64" and io :: "('k, 'q, 'c, 'e) channels" and pending n
  by unfold_locales (use cache_step_safe in blast)

lemma cache_history_inv:
  assumes "0 < n" "capacity < 2 ^ 32" "fifo io pending"
  shows "\<exists>cl. run_steps (cache_step hash io) (with_capacity io capacity n, empty_log) ops = Some cl \<and> cache_inv hash pending n cl"
  using cache_run.run_safe [of io pending hash n "(with_capacity io capacity n, empty_log)" ops]
    cache_inv_new [OF assms, of hash] assms(3) by (auto simp: list_all_iff)

section \<open>Properties\<close>

text \<open>C14. A sharded cache behaves like one cache. After any interleaving of calls, task turns and ticks, with channels that deliver in order, nothing
  has panicked; every key lives in one shard only; and for each shard the accepted commands for its keys, in the order of the calls, are exactly those
  it has handled and then those that still wait in its channel: none is lost, doubled or reordered. So it is for the commands about one key.\<close>

theorem cache_routes_in_order:
  assumes "0 < n" "capacity < 2 ^ 32" "fifo io pending"
  shows "\<exists>c lg. run_steps (cache_step hash io) (with_capacity io capacity n, empty_log) ops = Some (c, lg) \<and>
    (\<forall>k. \<exists>i < n. shard_select n (hash k) = Some i \<and>
       (\<forall>j < n. j \<noteq> i \<longrightarrow> contents (st_shard (ca_tasks c ! j)) k = None) \<and>
       filter (\<lambda>cmd. cmd_key cmd = k) (lg_sent lg) =
         filter (\<lambda>cmd. cmd_key cmd = k) (map snd (filter (\<lambda>x. fst x = i) (lg_done lg)) @ pending (ca_shards c ! i))) \<and>
    (\<forall>i < n. filter (\<lambda>cmd. shard_select n (hash (cmd_key cmd)) = Some i) (lg_sent lg) =
       map snd (filter (\<lambda>x. fst x = i) (lg_done lg)) @ pending (ca_shards c ! i))"
proof -
  obtain c lg where run: "run_steps (cache_step hash io) (with_capacity io capacity n, empty_log) ops = Some (c, lg)"
    and inv: "tasks_inv hash c" "order_inv hash pending (c, lg)" "length (ca_shards c) = n"
    using cache_history_inv [OF assms, of hash ops] by (auto simp: cache_inv_def)
  have "\<exists>i < n. shard_select n (hash k) = Some i \<and>
       (\<forall>j < n. j \<noteq> i \<longrightarrow> contents (st_shard (ca_tasks c ! j)) k = None) \<and>
       filter (\<lambda>cmd. cmd_key cmd = k) (lg_sent lg) =
         filter (\<lambda>cmd. cmd_key cmd = k) (map snd (filter (\<lambda>x. fst x = i) (lg_done lg)) @ pending (ca_shards c ! i))" for k
  proof -
    obtain i where i: "i < n" "shard_select n (hash k) = Some i" using shard_select_range [OF assms(1)] by blast
    have "contents (st_shard (ca_tasks c ! j)) k = None" if "j < n" "j \<noteq> i" for j
      using inv(1,3) that i(2) unfolding tasks_inv_def by (metis option.inject)
    moreover have "filter (\<lambda>cmd. cmd_key cmd = k) (lg_sent lg) = filter (\<lambda>cmd. cmd_key cmd = k) (routed hash n i (lg_sent lg))"
      using i(2) by (auto simp: routed_def intro: filter_cong)
    ultimately show ?thesis using i inv(2,3) by (auto simp: order_inv_def)
  qed
  moreover have "\<forall>i < n. filter (\<lambda>cmd. shard_select n (hash (cmd_key cmd)) = Some i) (lg_sent lg) =
       map snd (filter (\<lambda>x. fst x = i) (lg_done lg)) @ pending (ca_shards c ! i)"
    using inv(2,3) by (simp add: order_inv_def routed_def)
  ultimately show ?thesis using run by blast
qed

text \<open>Bounded channels of lists, for the instances below.\<close>

definition list_channels :: "('k, 'k cache_event list list, 'k command list, unit) channels" where
  "list_channels =
     \<lparr>ch_new = (\<lambda>_. []), ch_send = (\<lambda>c x. if length c < CHANNEL then Inr (c @ [x]) else Inl ()),
      ch_recv = (\<lambda>c. case c of [] \<Rightarrow> None | x # xs \<Rightarrow> Some (x, xs)),
      ev_new = (\<lambda>_. []), ev_send = (\<lambda>q b. if length q < CHANNEL then q @ [b] else q),
      ev_recv = (\<lambda>q. case q of [] \<Rightarrow> None | b # bs \<Rightarrow> Some (b, bs)), ev_close = (\<lambda>q. q)\<rparr>"

lemma list_channels_fifo: "fifo list_channels (\<lambda>c. c)"
  by (auto simp: fifo_def list_channels_def split: if_splits list.splits)

theorem cache_routes_in_order_witness:
  "\<exists>c lg. run_steps (cache_step (\<lambda>k::nat. of_nat k) list_channels) (with_capacity list_channels 2 4, empty_log)
       [CallInsert 7 500, CallDelete 7, CallInsert 6 100, ShardPoll 3, ShardPoll 3, ShardPoll 3, ShardTick 3 200, DropCache, ShardPoll 2] = Some (c, lg) \<and>
     contents (st_shard (ca_tasks c ! 0)) 7 = None"
proof -
  let ?ops = "[CallInsert 7 500, CallDelete 7, CallInsert 6 100, ShardPoll 3, ShardPoll 3, ShardPoll 3, ShardTick 3 200, DropCache, ShardPoll 2]"
  have pre: "0 < (4::nat)" "(2::nat) < 2 ^ 32" by simp_all
  obtain c lg where run: "run_steps (cache_step (\<lambda>k::nat. of_nat k) list_channels) (with_capacity list_channels 2 4, empty_log) ?ops = Some (c, lg)"
    and all: "\<forall>k. \<exists>i < 4. shard_select 4 (of_nat k) = Some i \<and> (\<forall>j < 4. j \<noteq> i \<longrightarrow> contents (st_shard (ca_tasks c ! j)) k = None) \<and>
       filter (\<lambda>cmd. cmd_key cmd = k) (lg_sent lg) =
         filter (\<lambda>cmd. cmd_key cmd = k) (map snd (filter (\<lambda>x. fst x = i) (lg_done lg)) @ ca_shards c ! i)"
    using cache_routes_in_order [OF pre list_channels_fifo, of "\<lambda>k::nat. of_nat k" ?ops] by (elim exE conjE) (rule that)
  from all obtain i where "shard_select 4 (of_nat 7) = Some i" "\<forall>j < 4. j \<noteq> i \<longrightarrow> contents (st_shard (ca_tasks c ! j)) 7 = None"
    by blast
  moreover have "shard_select 4 (of_nat 7) = Some 3" by (simp add: shard_select_def)
  ultimately have "contents (st_shard (ca_tasks c ! 0)) 7 = None" by simp
  with run show ?thesis by blast
qed

text \<open>The contents of the whole cache.\<close>

definition cache_contents :: "('k \<Rightarrow> u64) \<Rightarrow> ('k, 'q, 'c) cache \<Rightarrow> 'k \<rightharpoonup> nat \<times> nat" where
  "cache_contents hash c k =
     (case shard_select (length (ca_shards c)) (hash k) of
        None \<Rightarrow> None
      | Some i \<Rightarrow> contents (st_shard (ca_tasks c ! i)) k)"

lemma cache_contents_upd:
  assumes "length (ca_shards c') = length (ca_shards c)" "\<forall>j. j \<noteq> i \<longrightarrow> ca_tasks c' ! j = ca_tasks c ! j"
  shows "cache_contents hash c' k =
    (if shard_select (length (ca_shards c)) (hash k) = Some i then contents (st_shard (ca_tasks c' ! i)) k else cache_contents hash c k)"
  using assms by (auto simp: cache_contents_def split: option.split)

lemma poll_refines:
  assumes inv: "tasks_inv hash c" "order_inv hash pending (c, lg)" "fifo io pending"
    and i: "i < length (ca_shards c)" "st_running (ca_tasks c ! i)" "\<not> ca_waiting c ! i"
    and recv: "ch_recv io (ca_shards c ! i) = Some (cmd, ch)"
  shows "\<exists>c'. shard_poll hash io i c = Some (Some cmd, c') \<and>
    cache_contents hash c' = spec_handle (tick (st_shard (ca_tasks c ! i))) (shard_full (st_shard (ca_tasks c ! i))) (cache_contents hash c) cmd"
proof -
  let ?s = "st_shard (ca_tasks c ! i)" and ?n = "length (ca_shards c)"
  obtain c' where c': "shard_poll hash io i c = Some (Some cmd, c')" "length (ca_shards c') = ?n" "\<forall>j. j \<noteq> i \<longrightarrow> ca_tasks c' ! j = ca_tasks c ! j"
    and turn: "shard_turn hash io i (Cmd cmd) (c\<lparr>ca_shards := (ca_shards c)[i := ch]\<rparr>) = Some c'"
    using poll_command [OF inv i recv] by blast
  have len: "length (ca_tasks c) = ?n" and si: "shard_inv hash (?s\<lparr>event_tx := ca_events c\<rparr>)" using inv(1) i(1) by (simp_all add: tasks_inv_def)
  from shard_handle_spec [OF si, of cmd] turn i(1,2) len
  have new: "contents (st_shard (ca_tasks c' ! i)) = spec_handle (tick ?s) (shard_full ?s) (contents ?s) cmd"
    by (auto simp: shard_turn_def get_at_def run_step_def)
  have "cmd \<in> set (pending (ca_shards c ! i))" using inv(3) recv by (simp add: fifo_def)
  from pending_routed [OF inv(2) i(1) this] have sel: "shard_select ?n (hash (cmd_key cmd)) = Some i" .
  have "cache_contents hash c' k = spec_handle (tick ?s) (shard_full ?s) (cache_contents hash c) cmd k" for k
  proof (cases "k = cmd_key cmd")
    case True
    then show ?thesis
      using sel new spec_handle_local [of "contents ?s" cmd "cache_contents hash c"]
      by (simp add: cache_contents_upd [OF c'(2,3)]) (simp add: cache_contents_def)
  next
    case False
    then show ?thesis
      using new by (simp add: cache_contents_upd [OF c'(2,3)] spec_handle_other) (simp add: cache_contents_def)
  qed
  with c'(1) show ?thesis by blast
qed

lemma shard_keys_only:
  "tasks_inv hash c \<Longrightarrow> i < length (ca_shards c) \<Longrightarrow> contents (st_shard (ca_tasks c ! i)) k = Some x \<Longrightarrow>
     shard_select (length (ca_shards c)) (hash k) = Some i"
  unfolding tasks_inv_def by blast

lemma evicted_of_shard:
  assumes "tasks_inv hash c" "i < length (ca_shards c)"
    and upd: "\<And>k. cache_contents hash c' k = (if shard_select (length (ca_shards c)) (hash k) = Some i then m k else cache_contents hash c k)"
  shows "dom (cache_contents hash c) - dom (cache_contents hash c') = dom (contents (st_shard (ca_tasks c ! i))) - dom m"
proof (rule set_eqI)
  fix k
  let ?m = "contents (st_shard (ca_tasks c ! i))"
  show "k \<in> dom (cache_contents hash c) - dom (cache_contents hash c') \<longleftrightarrow> k \<in> dom ?m - dom m"
  proof (cases "shard_select (length (ca_shards c)) (hash k) = Some i")
    case True
    then have "cache_contents hash c k = ?m k" by (simp add: cache_contents_def)
    with True show ?thesis by (simp add: upd domIff)
  next
    case False
    then have "?m k = None" using shard_keys_only [OF assms(1,2), of k] by (cases "?m k") auto
    with False show ?thesis by (auto simp: upd)
  qed
qed

lemma tick_refines:
  assumes inv: "tasks_inv hash c" and i: "i < length (ca_shards c)" "st_running (ca_tasks c ! i)" "ca_waiting c ! i"
    and now: "now = max (tick (st_shard (ca_tasks c ! i))) (min (ms div TICK_MS) (tick (st_shard (ca_tasks c ! i)) + MAX_CATCHUP))"
  shows "\<exists>c'. shard_tick hash io i ms c = Some c' \<and>
    (\<forall>k. if shard_select (length (ca_shards c)) (hash k) \<noteq> Some i then cache_contents hash c' k = cache_contents hash c k
         else case cache_contents hash c k of
            None \<Rightarrow> cache_contents hash c' k = None
          | Some (e, ttl) \<Rightarrow> cache_contents hash c' k = Some (e, ttl) \<and> now \<le> e \<or> cache_contents hash c' k = None \<and> e \<le> now) \<and>
    (reliable (ev_send io) log \<longrightarrow>
      (\<exists>evs. log (ca_events c') = log (ca_events c) @ batch (st_shard (ca_tasks c ! i)) @ evs \<and> distinct (map ev_key evs) \<and>
         ev_key ` set evs = dom (cache_contents hash c) - dom (cache_contents hash c')))"
proof -
  let ?s = "(st_shard (ca_tasks c ! i))\<lparr>event_tx := ca_events c\<rparr>" and ?c = "c\<lparr>ca_waiting := (ca_waiting c)[i := False]\<rparr>"
  have len: "length (ca_tasks c) = length (ca_shards c)" and si: "shard_inv hash ?s" and ic: "tasks_inv hash ?c"
    using inv i(1) by (simp_all add: tasks_inv_def)
  from shard_turn_spec [OF ic, of i "EmptyThenTick ms" io] i(1) obtain c' where
    turn: "shard_turn hash io i (EmptyThenTick ms) ?c = Some c'" "tasks_inv hash c'" "ca_shards c' = ca_shards c"
      "\<forall>j. j \<noteq> i \<longrightarrow> ca_tasks c' ! j = ca_tasks c ! j" by auto
  from on_tick_spec [OF si, of "ev_send io" ms log] obtain s' where
    s': "on_tick (ev_send io) ms ?s = Some s'" "shard_inv hash s'" "tick s' = now" "expires now (contents ?s) (contents s')"
    and rep: "reliable (ev_send io) log \<longrightarrow> reports log ?s s'"
    by (auto simp: evicts_def now)
  have ev: "ca_events c' = event_tx s'" using turn(1) s'(1) i len by (auto simp: shard_turn_def get_at_def run_step_def)
  have t': "st_shard (ca_tasks c' ! i) = s'" using turn(1) s'(1) i len by (auto simp: shard_turn_def get_at_def run_step_def)
  have le: "now \<le> e" if "contents s' k = Some (e, ttl)" for k e ttl
    using that s'(2,3) by (auto simp: shard_inv_def elim!: contentsE dest: timely_not_overdue)
  have tick: "shard_tick hash io i ms c = Some c'" using turn(1) i len by (simp add: shard_tick_def)
  have law: "case contents ?s k of None \<Rightarrow> contents s' k = None
      | Some (e, ttl) \<Rightarrow> contents s' k = Some (e, ttl) \<and> now \<le> e \<or> contents s' k = None \<and> e \<le> now" for k
    using s'(4) le [of k] by (auto simp: expires_def split: option.split dest!: spec [of _ k])
  have upd: "cache_contents hash c' k = (if shard_select (length (ca_shards c)) (hash k) = Some i then contents s' k else cache_contents hash c k)" for k
    using cache_contents_upd [of c' c i] turn(3,4) t' by simp
  show ?thesis
  proof (intro exI conjI allI)
    show "shard_tick hash io i ms c = Some c'" by (rule tick)
    fix k
    show "if shard_select (length (ca_shards c)) (hash k) \<noteq> Some i then cache_contents hash c' k = cache_contents hash c k
         else case cache_contents hash c k of
            None \<Rightarrow> cache_contents hash c' k = None
          | Some (e, ttl) \<Rightarrow> cache_contents hash c' k = Some (e, ttl) \<and> now \<le> e \<or> cache_contents hash c' k = None \<and> e \<le> now"
      unfolding upd [of k] using law [of k] by (cases "shard_select (length (ca_shards c)) (hash k) = Some i") (simp_all add: cache_contents_def)
  next
    show "reliable (ev_send io) log \<longrightarrow>
      (\<exists>evs. log (ca_events c') = log (ca_events c) @ batch (st_shard (ca_tasks c ! i)) @ evs \<and> distinct (map ev_key evs) \<and>
         ev_key ` set evs = dom (cache_contents hash c) - dom (cache_contents hash c'))"
    proof
      assume "reliable (ev_send io) log"
      with rep obtain evs where e: "emitted log s' = emitted log ?s @ evs" "distinct (map ev_key evs)"
        "ev_key ` set evs = dom (contents ?s) - dom (contents s')" by (auto simp: reports_def)
      have "dom (cache_contents hash c) - dom (cache_contents hash c') = dom (contents ?s) - dom (contents s')"
        using evicted_of_shard [OF inv i(1) upd] by simp
      with e on_tick_batch [OF s'(1)] show "\<exists>evs. log (ca_events c') = log (ca_events c) @ batch (st_shard (ca_tasks c ! i)) @ evs \<and>
          distinct (map ev_key evs) \<and> ev_key ` set evs = dom (cache_contents hash c) - dom (cache_contents hash c')"
        by (intro exI [of _ evs]) (simp add: ev emitted_def)
    qed
  qed
qed

text \<open>C13. The sharded cache refines one abstract cache. In every state it can reach, a task that takes a command from its channel changes the contents of the
  whole cache as the abstract cache does, at the tick of its shard and full when its shard is; and a tick of a shard only touches the keys of this
  shard, evicts a key only when its expiry tick has come and keeps it only while that is not past. On an event channel that loses nothing, the tick
  appends the batch of the shard and then one event for each key it evicted and for no other.\<close>

theorem cache_refines:
  assumes "0 < n" "capacity < 2 ^ 32" "fifo io pending"
    and "run_steps (cache_step hash io) (with_capacity io capacity n, empty_log) ops = Some (c, lg)"
    and "i < n" "st_running (ca_tasks c ! i)"
    and "now = max (tick (st_shard (ca_tasks c ! i))) (min (ms div TICK_MS) (tick (st_shard (ca_tasks c ! i)) + MAX_CATCHUP))"
  shows "(\<forall>cmd ch. \<not> ca_waiting c ! i \<and> ch_recv io (ca_shards c ! i) = Some (cmd, ch) \<longrightarrow>
      (\<exists>c'. shard_poll hash io i c = Some (Some cmd, c') \<and> cache_contents hash c' =
         spec_handle (tick (st_shard (ca_tasks c ! i))) (shard_full (st_shard (ca_tasks c ! i))) (cache_contents hash c) cmd)) \<and>
    (ca_waiting c ! i \<longrightarrow>
      (\<exists>c'. shard_tick hash io i ms c = Some c' \<and>
         (\<forall>k. if shard_select n (hash k) \<noteq> Some i then cache_contents hash c' k = cache_contents hash c k
              else case cache_contents hash c k of
                None \<Rightarrow> cache_contents hash c' k = None
              | Some (e, ttl) \<Rightarrow> cache_contents hash c' k = Some (e, ttl) \<and> now \<le> e \<or> cache_contents hash c' k = None \<and> e \<le> now) \<and>
         ((\<forall>q b. log (ev_send io q b) = log q @ b) \<longrightarrow>
            (\<exists>evs. log (ca_events c') = log (ca_events c) @ batch (st_shard (ca_tasks c ! i)) @ evs \<and> distinct (map ev_key evs) \<and>
               ev_key ` set evs = dom (cache_contents hash c) - dom (cache_contents hash c')))))"
proof -
  from cache_history_inv [OF assms(1-3), of hash ops] assms(4)
  have inv: "tasks_inv hash c" "order_inv hash pending (c, lg)" "length (ca_shards c) = n" by (auto simp: cache_inv_def)
  with assms(5) have i: "i < length (ca_shards c)" by simp
  show ?thesis
    using poll_refines [OF inv(1,2) assms(3) i assms(6)] tick_refines [OF inv(1) i assms(6) _ assms(7), of io log] inv(3) unfolding reliable_def by blast
qed

lemma list_channels_insert:
  "cache_step (\<lambda>k::nat. of_nat k) list_channels (with_capacity list_channels 2 1, empty_log) (CallInsert 7 600) =
     Some ((with_capacity list_channels 2 1)\<lparr>ca_shards := [[Insert 7 3]]\<rparr>, \<lparr>lg_sent = [Insert 7 3], lg_done = []\<rparr>)"
proof -
  have "ttl_to_tick 600 = 3" "0 < CHANNEL" by (simp_all add: ttl_to_tick_def TICK_MS_def div_ceil_def CHANNEL_def)
  then show ?thesis
    by (simp add: with_capacity_def list_channels_def cache_insert_def cache_send_def shard_select_def send_to_def log_call_def empty_log_def)
qed

theorem cache_refines_witness:
  "\<exists>c lg c'. run_steps (cache_step (\<lambda>k::nat. of_nat k) list_channels) (with_capacity list_channels 2 1, empty_log) [CallInsert 7 600] = Some (c, lg) \<and>
     shard_poll (\<lambda>k::nat. of_nat k) list_channels 0 c = Some (Some (Insert 7 3), c') \<and>
     cache_contents (\<lambda>k::nat. of_nat k) c' = [7 \<mapsto> (3, 3)]"
proof -
  let ?h = "\<lambda>k::nat. of_nat k :: u64"
  let ?c = "(with_capacity list_channels 2 1)\<lparr>ca_shards := [[Insert (7::nat) 3]]\<rparr>"
  have pre: "0 < (1::nat)" "(2::nat) < 2 ^ 32" "0 < (1::nat)" by simp_all
  have run: "run_steps (cache_step ?h list_channels) (with_capacity list_channels 2 1, empty_log) [CallInsert 7 600] = Some (?c, \<lparr>lg_sent = [Insert 7 3], lg_done = []\<rparr>)"
    by (simp only: run_steps.simps list_channels_insert bind.bind_lunit)
  have s: "st_running (ca_tasks ?c ! 0)" "\<not> ca_waiting ?c ! 0" "ch_recv list_channels (ca_shards ?c ! 0) = Some (Insert 7 3, [])"
    "tick (st_shard (ca_tasks ?c ! 0)) = 0" "\<not> shard_full (st_shard (ca_tasks ?c ! 0))" "cache_contents ?h ?c = Map.empty"
    by (simp_all add: with_capacity_def shard_start_def list_channels_def new_shard_empty cache_contents_def fun_eq_iff shard_select_def)
  have poll: "\<not> ca_waiting ?c ! 0 \<and> ch_recv list_channels (ca_shards ?c ! 0) = Some (Insert 7 3, [])" using s(2,3) by blast
  from cache_refines [OF pre(1,2) list_channels_fifo run pre(3) s(1) refl, THEN conjunct1, rule_format, OF poll]
  obtain c' where "shard_poll ?h list_channels 0 ?c = Some (Some (Insert 7 3), c')"
    "cache_contents ?h c' = spec_handle (tick (st_shard (ca_tasks ?c ! 0))) (shard_full (st_shard (ca_tasks ?c ! 0))) (cache_contents ?h ?c) (Insert 7 3)"
    by blast
  moreover from this(2) have "cache_contents ?h c' = [7 \<mapsto> (3, 3)]" unfolding s(4,6) using s(5) by simp
  ultimately show ?thesis using run by blast
qed

end
