(* ===== verification/Exceptions.thy ===== *)
theory Exceptions
  imports Prelude
begin

text \<open>
  The error types of the workspace: \<^verbatim>\<open>exception/src/lib.rs\<close> and \<^verbatim>\<open>exception/src/typed/common.rs\<close>,
  the registry of user-facing error outputs of \<^verbatim>\<open>base/src/err.rs\<close>, and the mapping of errors to
  gRPC status codes of \<^verbatim>\<open>base_rpc/src/error.rs\<close>.

  An \<^verbatim>\<open>anyhow::Error\<close> is represented by the text it displays. Constructors that take a logging
  closure return the line they hand to it beside the error.
\<close>

section \<open>Global errors\<close>

record biz_error =
  be_code :: u16
  be_msg :: string

datatype global_error = BizErr biz_error | SysErr string

type_synonym 'a global_result = "global_error + 'a"

datatype message_bus_error =
  Full | Empty | Timeout | ChannelClosed | TypeMismatch | Lagged | NotFound | AlreadyExists

text \<open>Decimal text of an unsigned number, as \<^verbatim>\<open>format!\<close> and \<^verbatim>\<open>to_string\<close> produce it.\<close>

fun show_nat :: "nat \<Rightarrow> string" where
  "show_nat n = (if n < 10 then [char_of (48 + n)] else show_nat (n div 10) @ [char_of (48 + n mod 10)])"

declare show_nat.simps [simp del]

definition parse_digit :: "char \<Rightarrow> nat option" where
  "parse_digit c = (let n = of_char c :: nat in if 48 \<le> n \<and> n \<le> 57 then Some (n - 48) else None)"

text \<open>The value of a text of decimal digits; \<^verbatim>\<open>None\<close> for an empty text or another character.\<close>

fun parse_digits :: "nat \<Rightarrow> string \<Rightarrow> nat option" where
  "parse_digits acc [] = Some acc"
| "parse_digits acc (c # cs) =
     (case parse_digit c of None \<Rightarrow> None | Some d \<Rightarrow> parse_digits (10 * acc + d) cs)"

definition parse_nat :: "string \<Rightarrow> nat option" where
  "parse_nat s = (if s = [] then None else parse_digits 0 s)"

lemma parse_digits_append:
  "parse_digits acc (xs @ ys) = parse_digits acc xs \<bind> (\<lambda>a. parse_digits a ys)"
  by (induction acc xs rule: parse_digits.induct) (auto split: option.splits)

lemma parse_digit_show: "d < 10 \<Longrightarrow> parse_digit (char_of (48 + d)) = Some d"
  by (simp add: parse_digit_def Let_def)

lemma show_nat_nonempty [simp]: "show_nat n \<noteq> []"
  by (subst show_nat.simps) simp

lemma parse_show_nat: "parse_digits 0 (show_nat n) = Some n"
proof (induction n rule: show_nat.induct)
  case (1 n)
  show ?case
  proof (cases "n < 10")
    case True
    then show ?thesis by (subst show_nat.simps) (simp add: parse_digit_show)
  next
    case False
    then show ?thesis using 1 by (subst show_nat.simps) (simp add: parse_digits_append parse_digit_show)
  qed
qed

lemma parse_nat_show [simp]: "parse_nat (show_nat n) = Some n"
  by (simp add: parse_nat_def parse_show_nat)

lemma show_nat_inj: "show_nat m = show_nat n \<longleftrightarrow> m = n"
  by (metis option.inject parse_nat_show)

lemma show_nat_digits: "c \<in> set (show_nat n) \<Longrightarrow> parse_digit c \<noteq> None"
proof (induction n rule: show_nat.induct)
  case (1 n)
  then show ?case
    by (subst (asm) show_nat.simps) (auto simp: parse_digit_show split: if_splits)
qed

definition new_biz_error :: "u16 \<Rightarrow> string \<Rightarrow> string \<times> global_error" where
  "new_biz_error code msg =
     (''biz err = [code = '' @ show_nat (unat code) @ '', msg=\"'' @ msg @ ''\"]'',
      BizErr \<lparr>be_code = code, be_msg = msg\<rparr>)"

definition new_sys_error :: "string \<Rightarrow> string \<times> global_error" where
  "new_sys_error msg = (''sys err = ['' @ msg @ '']'', SysErr msg)"

text \<open>External errors: \<open>dbg\<close> is the error's debug text, \<open>disp\<close> what it displays.\<close>

definition from_external_error :: "string \<Rightarrow> string \<Rightarrow> string \<times> global_error" where
  "from_external_error dbg disp = (''Trace = ['' @ dbg @ '']'', SysErr disp)"

definition from_external_biz_error :: "string \<Rightarrow> u16 \<Rightarrow> string \<Rightarrow> string \<times> global_error" where
  "from_external_biz_error dbg code msg =
     (''Trace = [code = '' @ show_nat (unat code) @ '', msg=\"'' @ msg @ ''\"]; source = ['' @ dbg @ '']'',
      BizErr \<lparr>be_code = code, be_msg = msg\<rparr>)"

definition show_biz_error :: "biz_error \<Rightarrow> string" where
  "show_biz_error e =
     ''BizError: [code = '' @ show_nat (unat (be_code e)) @ '', msg = \"'' @ be_msg e @ ''\"]''"

text \<open>The extension methods on results: the logged line, if any, and the result.\<close>

definition hand_log :: "(string \<times> string) + 'a \<Rightarrow> string option \<times> 'a global_result" where
  "hand_log r =
     (case r of Inr v \<Rightarrow> (None, Inr v)
      | Inl (dbg, disp) \<Rightarrow> (let (l, e) = from_external_error dbg disp in (Some l, Inl e)))"

definition hand_log_str :: "(string \<times> string) + 'a \<Rightarrow> string option \<times> 'a global_result" where
  "hand_log_str r =
     (case r of Inr v \<Rightarrow> (None, Inr v)
      | Inl (dbg, disp) \<Rightarrow> (Some (''Trace = ['' @ dbg @ '']''), Inl (SysErr disp)))"

definition hand_biz_log :: "u16 \<Rightarrow> string \<Rightarrow> (string \<times> string) + 'a \<Rightarrow> string option \<times> 'a global_result" where
  "hand_biz_log code msg r =
     (case r of Inr v \<Rightarrow> (None, Inr v)
      | Inl (dbg, disp) \<Rightarrow> (let (l, e) = from_external_biz_error dbg code msg in (Some l, Inl e)))"

section \<open>The registry of error outputs\<close>

text \<open>User messages are UTF-8 byte strings.\<close>

record error_output =
  eo_code :: u16
  eo_code_name :: string
  eo_user_message :: "nat list"
  eo_retryable :: bool

datatype base_error_code =
  BE_NotFound | BE_InvalidRequest | BE_AlreadyExists | BE_Unauthorized | BE_PermissionDenied
| BE_InvalidState | BE_Unsupported | BE_Timeout | BE_Network | BE_IoBusy | BE_Internal

definition all_base_errors :: "base_error_code list" where
  "all_base_errors = [BE_NotFound, BE_InvalidRequest, BE_AlreadyExists, BE_Unauthorized,
     BE_PermissionDenied, BE_InvalidState, BE_Unsupported, BE_Timeout, BE_Network, BE_IoBusy, BE_Internal]"

fun base_code :: "base_error_code \<Rightarrow> u16" where
  "base_code BE_NotFound = 1140"
| "base_code BE_InvalidRequest = 1150"
| "base_code BE_AlreadyExists = 1160"
| "base_code BE_Unauthorized = 1170"
| "base_code BE_PermissionDenied = 1180"
| "base_code BE_InvalidState = 1190"
| "base_code BE_Unsupported = 1200"
| "base_code BE_Timeout = 1210"
| "base_code BE_Network = 1220"
| "base_code BE_IoBusy = 1230"
| "base_code BE_Internal = 1240"

fun base_code_name :: "base_error_code \<Rightarrow> string" where
  "base_code_name BE_NotFound = ''NotFound''"
| "base_code_name BE_InvalidRequest = ''InvalidRequest''"
| "base_code_name BE_AlreadyExists = ''AlreadyExists''"
| "base_code_name BE_Unauthorized = ''Unauthorized''"
| "base_code_name BE_PermissionDenied = ''PermissionDenied''"
| "base_code_name BE_InvalidState = ''InvalidState''"
| "base_code_name BE_Unsupported = ''Unsupported''"
| "base_code_name BE_Timeout = ''Timeout''"
| "base_code_name BE_Network = ''Network''"
| "base_code_name BE_IoBusy = ''IoBusy''"
| "base_code_name BE_Internal = ''Internal''"

fun base_retryable :: "base_error_code \<Rightarrow> bool" where
  "base_retryable BE_Timeout = True"
| "base_retryable BE_Network = True"
| "base_retryable BE_IoBusy = True"
| "base_retryable _ = False"

text \<open>The user messages, as their UTF-8 bytes.\<close>

fun base_out_msg :: "base_error_code \<Rightarrow> nat list" where
  "base_out_msg BE_NotFound =
     [232, 175, 183, 230, 177, 130, 231, 154, 132, 232, 181, 132, 230, 186, 144, 228,
      184, 141, 229, 173, 152, 229, 156, 168, 230, 136, 150, 229, 183, 178, 232, 162,
      171, 229, 136, 160, 233, 153, 164, 227, 128, 130]"
| "base_out_msg BE_InvalidRequest =
     [230, 151, 160, 230, 149, 136, 231, 154, 132, 232, 175, 183, 230, 177, 130, 227,
      128, 130]"
| "base_out_msg BE_AlreadyExists =
     [229, 183, 178, 229, 173, 152, 229, 156, 168, 239, 188, 140, 232, 175, 183, 229,
      139, 191, 233, 135, 141, 229, 164, 141, 230, 147, 141, 228, 189, 156, 227, 128, 130]"
| "base_out_msg BE_Unauthorized =
     [230, 156, 170, 231, 153, 187, 229, 189, 149, 231, 148, 168, 230, 136, 183, 239,
      188, 140, 230, 151, 160, 230, 179, 149, 230, 147, 141, 228, 189, 156, 227, 128, 130]"
| "base_out_msg BE_PermissionDenied =
     [231, 148, 168, 230, 136, 183, 230, 147, 141, 228, 189, 156, 230, 157, 131, 233,
      153, 144, 228, 184, 141, 232, 182, 179, 227, 128, 130]"
| "base_out_msg BE_InvalidState =
     [230, 149, 176, 230, 141, 174, 230, 160, 161, 233, 170, 140, 229, 164, 177, 232,
      180, 165, 239, 188, 129, 232, 175, 183, 230, 163, 128, 230, 159, 165, 232, 190,
      147, 229, 133, 165, 227, 128, 130]"
| "base_out_msg BE_Unsupported =
     [231, 179, 187, 231, 187, 159, 230, 154, 130, 228, 184, 141, 230, 148, 175, 230,
      140, 129, 239, 188, 129, 230, 149, 172, 232, 175, 183, 230, 156, 159, 229, 190,
      133, 227, 128, 130]"
| "base_out_msg BE_Timeout =
     [232, 174, 190, 229, 164, 135, 229, 147, 141, 229, 186, 148, 232, 182, 133, 230,
      151, 182, 230, 136, 150, 231, 189, 145, 231, 187, 156, 229, 188, 130, 229, 184,
      184, 239, 188, 129, 232, 175, 183, 231, 168, 141, 229, 144, 142, 233, 135, 141,
      232, 175, 149, 227, 128, 130]"
| "base_out_msg BE_Network =
     [231, 189, 145, 231, 187, 156, 229, 188, 130, 229, 184, 184, 239, 188, 129, 232,
      175, 183, 231, 168, 141, 229, 144, 142, 233, 135, 141, 232, 175, 149, 227, 128, 130]"
| "base_out_msg BE_IoBusy =
     [231, 179, 187, 231, 187, 159, 231, 185, 129, 229, 191, 153, 239, 188, 129, 232,
      175, 183, 231, 168, 141, 229, 144, 142, 233, 135, 141, 232, 175, 149, 227, 128, 130]"
| "base_out_msg BE_Internal =
     [231, 179, 187, 231, 187, 159, 231, 185, 129, 229, 191, 153, 239, 188, 129, 232,
      175, 183, 231, 168, 141, 229, 144, 142, 233, 135, 141, 232, 175, 149, 227, 128, 130]"

definition FALLBACK_USER_MESSAGE :: "nat list" where
  "FALLBACK_USER_MESSAGE = base_out_msg BE_Internal"

definition base_output :: "base_error_code \<Rightarrow> error_output" where
  "base_output e = \<lparr>eo_code = base_code e, eo_code_name = base_code_name e,
     eo_user_message = base_out_msg e, eo_retryable = base_retryable e\<rparr>"

fun base_from_code_in :: "base_error_code list \<Rightarrow> u16 \<Rightarrow> base_error_code option" where
  "base_from_code_in [] c = None"
| "base_from_code_in (e # es) c = (if c = base_code e then Some e else base_from_code_in es c)"

definition base_from_code :: "u16 \<Rightarrow> base_error_code option" where
  "base_from_code = base_from_code_in all_base_errors"

text \<open>
  Registration (\<^verbatim>\<open>define_errors!\<close> and \<^verbatim>\<open>inventory\<close>): every registered group inserts its outputs
  into the map, in an order the linker chooses; a code that is already present is replaced, and the
  replaced code is what the warning reports.
\<close>

type_synonym registry = "u16 \<rightharpoonup> error_output"

fun register_outputs :: "error_output list \<Rightarrow> registry \<Rightarrow> registry \<times> u16 list" where
  "register_outputs [] m = (m, [])"
| "register_outputs (out # outs) m =
     (let (m', ws) = register_outputs outs (m(eo_code out \<mapsto> out)) in
      (m', (if m (eo_code out) = None then [] else [eo_code out]) @ ws))"

definition registry_init :: "error_output list list \<Rightarrow> registry \<times> u16 list" where
  "registry_init groups = register_outputs (concat groups) Map.empty"

definition global_error_output :: "registry \<Rightarrow> global_error \<Rightarrow> error_output" where
  "global_error_output reg e =
     (case e of
        BizErr b \<Rightarrow>
          (case reg (be_code b) of
             Some out \<Rightarrow> out
           | None \<Rightarrow> \<lparr>eo_code = be_code b, eo_code_name = ''Unregistered'',
                      eo_user_message = FALLBACK_USER_MESSAGE, eo_retryable = False\<rparr>)
      | SysErr _ \<Rightarrow>
          (case reg (base_code BE_Internal) of
             Some out \<Rightarrow> out
           | None \<Rightarrow> \<lparr>eo_code = base_code BE_Internal, eo_code_name = ''Internal'',
                      eo_user_message = FALLBACK_USER_MESSAGE, eo_retryable = False\<rparr>))"

definition out_err :: "registry \<Rightarrow> global_error \<Rightarrow> nat list" where
  "out_err reg e = eo_user_message (global_error_output reg e)"

section \<open>gRPC status\<close>

datatype grpc_code =
  Code_NotFound | Code_InvalidArgument | Code_AlreadyExists | Code_Unauthenticated
| Code_PermissionDenied | Code_FailedPrecondition | Code_Unimplemented | Code_DeadlineExceeded
| Code_Unavailable | Code_ResourceExhausted | Code_Internal

record status =
  st_code :: grpc_code
  st_message :: string
  st_metadata :: "string \<rightharpoonup> string"

text \<open>\<open>parse_value\<close> is tonic's parser of metadata values.\<close>

definition biz_status_code :: "u16 \<Rightarrow> grpc_code" where
  "biz_status_code code =
     (if code = base_code BE_NotFound then Code_NotFound
      else if code = base_code BE_InvalidRequest then Code_InvalidArgument
      else if code = base_code BE_AlreadyExists then Code_AlreadyExists
      else if code = base_code BE_Unauthorized then Code_Unauthenticated
      else if code = base_code BE_PermissionDenied then Code_PermissionDenied
      else if code = base_code BE_InvalidState then Code_FailedPrecondition
      else if code = base_code BE_Unsupported then Code_Unimplemented
      else if code = base_code BE_Timeout then Code_DeadlineExceeded
      else if code = base_code BE_Network then Code_Unavailable
      else if code = base_code BE_IoBusy then Code_ResourceExhausted
      else Code_Internal)"

definition status_from_biz_error :: "(string \<Rightarrow> string option) \<Rightarrow> biz_error \<Rightarrow> status" where
  "status_from_biz_error parse_value e =
     \<lparr>st_code = biz_status_code (be_code e), st_message = be_msg e,
      st_metadata = (case parse_value (show_nat (unat (be_code e))) of
         Some v \<Rightarrow> [''x-error-code'' \<mapsto> v] | None \<Rightarrow> Map.empty)\<rparr>"

definition status_from_global_error :: "(string \<Rightarrow> string option) \<Rightarrow> global_error \<Rightarrow> status" where
  "status_from_global_error parse_value e =
     (case e of BizErr b \<Rightarrow> status_from_biz_error parse_value b
      | SysErr msg \<Rightarrow> \<lparr>st_code = Code_Internal, st_message = msg, st_metadata = Map.empty\<rparr>)"

section \<open>Lemmas\<close>

lemma all_base_errors_complete: "e \<in> set all_base_errors"
  by (cases e) (simp_all add: all_base_errors_def)

lemma base_code_inj: "base_code a = base_code b \<Longrightarrow> a = b"
  by (cases a; cases b; simp)

lemma base_from_code_in_correct: "e \<in> set es \<Longrightarrow> base_from_code_in es (base_code e) = Some e"
  by (induction es) (auto dest: base_code_inj)

lemma base_from_code_in_sound: "base_from_code_in es c = Some e \<Longrightarrow> base_code e = c"
  by (induction es) (auto split: if_splits)

lemma register_outputs_map:
  "fst (register_outputs outs m) = m ++ map_of (rev (map (\<lambda>out. (eo_code out, out)) outs))"
  by (induction outs arbitrary: m) (auto simp: split_beta Let_def fun_eq_iff map_add_def split: option.splits)

lemma register_outputs_warn:
  "snd (register_outputs outs m) = [] \<longleftrightarrow>
     distinct (map eo_code outs) \<and> (\<forall>out\<in>set outs. m (eo_code out) = None)"
proof (induction outs arbitrary: m)
  case (Cons out outs)
  have "(\<forall>o'\<in>set outs. (m(eo_code out \<mapsto> out)) (eo_code o') = None) \<longleftrightarrow>
      eo_code out \<notin> eo_code ` set outs \<and> (\<forall>o'\<in>set outs. m (eo_code o') = None)"
    by (auto simp: image_iff)
  then show ?case by (simp add: split_beta Let_def Cons.IH del: fun_upd_apply) blast
qed simp

lemma registered_lookup:
  assumes "snd (registry_init groups) = []"
  shows "fst (registry_init groups) c = Some out \<longleftrightarrow> out \<in> set (concat groups) \<and> eo_code out = c"
proof -
  let ?kv = "rev (map (\<lambda>out. (eo_code out, out)) (concat groups))"
  have "distinct (map eo_code (concat groups))"
    using assms by (simp add: registry_init_def register_outputs_warn)
  then have "distinct (map fst ?kv)" by (simp add: rev_map [symmetric] comp_def)
  then have "map_of ?kv c = Some out \<longleftrightarrow> (c, out) \<in> set ?kv" by simp
  then show ?thesis by (auto simp: registry_init_def register_outputs_map)
qed

section \<open>Properties\<close>

text \<open>C24. The error registry does not depend on link order: if one order of the registered groups
  raises no replacement warning, then every other order builds the same registry, silently too, and
  a code resolves to exactly the output registered for it.\<close>

theorem registry_order_irrelevant:
  assumes "mset groups' = mset groups" and "snd (registry_init groups) = []"
  shows "registry_init groups' = registry_init groups \<and>
    (\<forall>out. out \<in> set (concat groups) \<longrightarrow> fst (registry_init groups') (eo_code out) = Some out)"
proof -
  have set: "set (concat groups') = set (concat groups)"
    using mset_eq_setD [OF assms(1)] by simp
  have "mset (map eo_code (concat groups')) = mset (map eo_code (concat groups))"
    using arg_cong [OF assms(1), of "\<lambda>m. \<Sum>\<^sub># (image_mset mset m)"]
    by (simp add: mset_concat mset_map flip: sum_mset_sum_list)
  then have "distinct (map eo_code (concat groups'))"
    using assms(2) mset_eq_imp_distinct_iff by (fastforce simp: registry_init_def register_outputs_warn)
  then have w: "snd (registry_init groups') = []"
    by (simp add: registry_init_def register_outputs_warn)
  have "fst (registry_init groups') c = fst (registry_init groups) c" for c
    using registered_lookup [OF w, of c] registered_lookup [OF assms(2), of c] set
    by (metis option.collapse option.distinct(1) not_None_eq)
  then have "registry_init groups' = registry_init groups"
    using w assms(2) by (simp add: prod_eq_iff fun_eq_iff)
  with registered_lookup [OF assms(2)] show ?thesis by simp
qed

theorem registry_order_irrelevant_witness:
  "registry_init [[base_output BE_Timeout], [base_output BE_NotFound]] =
     registry_init [[base_output BE_NotFound], [base_output BE_Timeout]] \<and>
   fst (registry_init [[base_output BE_Timeout], [base_output BE_NotFound]]) 1210 = Some (base_output BE_Timeout)"
  using registry_order_irrelevant [of "[[base_output BE_Timeout], [base_output BE_NotFound]]"
      "[[base_output BE_NotFound], [base_output BE_Timeout]]"]
  by (auto simp: registry_init_def base_output_def)

text \<open>Error codes and gRPC codes: a numeric code decodes to a base error exactly when it is
  that error's code; the gRPC status determines the base error; and an error is marked retryable
  exactly when its status is one of deadline exceeded, unavailable and resource exhausted. A
  business error with any other code becomes an internal status, and the decimal text of the code
  travels in the metadata whenever it parses as a metadata value.\<close>

lemma base_error_codes:
  "(base_from_code c = Some e \<longleftrightarrow> base_code e = c) \<and>
   (biz_status_code (base_code e) = biz_status_code (base_code e') \<longleftrightarrow> e = e') \<and>
   (base_retryable e \<longleftrightarrow>
      biz_status_code (base_code e) \<in> {Code_DeadlineExceeded, Code_Unavailable, Code_ResourceExhausted}) \<and>
   (base_from_code c = None \<longrightarrow> biz_status_code c = Code_Internal) \<and>
   st_metadata (status_from_biz_error parse_value \<lparr>be_code = c, be_msg = m\<rparr>) ''x-error-code'' =
     parse_value (show_nat (unat c))"
proof (intro conjI)
  show "base_from_code c = Some e \<longleftrightarrow> base_code e = c"
    using base_from_code_in_correct all_base_errors_complete base_from_code_in_sound
    unfolding base_from_code_def by metis
  show "biz_status_code (base_code e) = biz_status_code (base_code e') \<longleftrightarrow> e = e'"
    by (cases e; cases e'; simp add: biz_status_code_def)
  show "base_retryable e \<longleftrightarrow>
      biz_status_code (base_code e) \<in> {Code_DeadlineExceeded, Code_Unavailable, Code_ResourceExhausted}"
    by (cases e) (simp_all add: biz_status_code_def)
  show "base_from_code c = None \<longrightarrow> biz_status_code c = Code_Internal"
    by (auto simp: base_from_code_def all_base_errors_def biz_status_code_def)
qed (simp add: status_from_biz_error_def split: option.split)

end
