(* ===== verification/Packet_Codec.thy ===== *)
theory Packet_Codec
  imports Exceptions
begin

text \<open>
  Packet encoding and the byte-level write path of \<^verbatim>\<open>base/src/net/rw.rs\<close>: inline prefixes, the two
  packet encoders, the vectored write loop, the receive-buffer reservation and the accept back-off.

  The stream a packet is written to is tokio's: its \<^verbatim>\<open>write\<close>, \<^verbatim>\<open>write_vectored\<close> and
  \<^verbatim>\<open>write_all\<close> are the fields of an \<open>async_write\<close> argument, and \<open>async_write_ok\<close> states the
  documented behaviour of these calls against the sequence of bytes the peer has been sent.
\<close>

section \<open>Constants\<close>

definition MAX_BUF_SIZE :: nat where "MAX_BUF_SIZE = 2 * 1024 * 1024"
definition TCP_READ_BUF_SIZE :: nat where "TCP_READ_BUF_SIZE = 64 * 1024"
definition TCP_MIN_READ_SPARE :: nat where "TCP_MIN_READ_SPARE = 4 * 1024"
definition UDP_MAX_DATAGRAM_SIZE :: nat where "UDP_MAX_DATAGRAM_SIZE = 65535"
definition TCP_WRITE_QUEUE_SIZE :: nat where "TCP_WRITE_QUEUE_SIZE = 1024"
definition INLINE_PREFIX_CAPACITY :: nat where "INLINE_PREFIX_CAPACITY = 16"

text \<open>Durations are counted in nanoseconds.\<close>

definition duration_max :: nat where
  "duration_max = u64_max * 10 ^ 9 + 999999999"

definition TCP_ACCEPT_ERROR_BACKOFF_MIN :: nat where
  "TCP_ACCEPT_ERROR_BACKOFF_MIN = 10 * 10 ^ 6"

definition TCP_ACCEPT_ERROR_BACKOFF_MAX :: nat where
  "TCP_ACCEPT_ERROR_BACKOFF_MAX = 10 ^ 9"

section \<open>Inline prefixes\<close>

text \<open>The array \<^verbatim>\<open>data\<close> always has \<^verbatim>\<open>INLINE_PREFIX_CAPACITY\<close> bytes.\<close>

record inline_prefix =
  ip_len :: u8
  ip_data :: "u8 list"

text \<open>\<^verbatim>\<open>for (idx, byte) in prefix.iter().enumerate() { data[idx] = *byte; }\<close>; \<open>None\<close> when an
  index is out of the array.\<close>

fun copy_prefix :: "nat \<Rightarrow> u8 list \<Rightarrow> u8 list \<Rightarrow> u8 list option" where
  "copy_prefix idx [] data = Some data"
| "copy_prefix idx (b # bs) data =
     (if idx < length data then copy_prefix (Suc idx) bs (data[idx := b]) else None)"

definition prefix_array :: "u8 list \<Rightarrow> inline_prefix option" where
  "prefix_array bytes =
     map_option (\<lambda>data. \<lparr>ip_len = of_nat (length bytes), ip_data = data\<rparr>)
       (copy_prefix 0 bytes (replicate INLINE_PREFIX_CAPACITY 0))"

text \<open>\<^verbatim>\<open>InlinePrefix::new\<close> and \<^verbatim>\<open>from_array\<close>.\<close>

definition inline_prefix_new :: "u8 list \<Rightarrow> inline_prefix global_result option" where
  "inline_prefix_new bytes =
     (if length bytes > INLINE_PREFIX_CAPACITY
      then Some (Inl (snd (new_sys_error ''inline packet prefix exceeds capacity'')))
      else map_option Inr (prefix_array bytes))"

definition inline_prefix_from_array :: "u8 list \<Rightarrow> inline_prefix global_result option" where
  "inline_prefix_from_array bytes = inline_prefix_new bytes"

text \<open>\<^verbatim>\<open>from_number_bytes\<close>: the assertion of the capacity, then the copy.\<close>

definition from_number_bytes :: "u8 list \<Rightarrow> inline_prefix option" where
  "from_number_bytes bytes =
     (if length bytes \<le> INLINE_PREFIX_CAPACITY then prefix_array bytes else None)"

definition ip_size :: "inline_prefix \<Rightarrow> nat" where
  "ip_size p = unat (ip_len p)"

definition ip_is_empty :: "inline_prefix \<Rightarrow> bool" where
  "ip_is_empty p \<longleftrightarrow> ip_len p = 0"

text \<open>\<^verbatim>\<open>&self.data[..self.len()]\<close> panics when the length exceeds the array.\<close>

definition as_slice :: "inline_prefix \<Rightarrow> u8 list option" where
  "as_slice p = (if ip_size p \<le> length (ip_data p) then Some (take (ip_size p) (ip_data p)) else None)"

text \<open>The byte representations of an unsigned integer; \<open>ne\<close> depends on the target.\<close>

datatype endianness = BigEndian | LittleEndian

definition to_le_bytes :: "'a::len word \<Rightarrow> u8 list" where
  "to_le_bytes v = map (\<lambda>i. word_of_nat (unat v div 256 ^ i)) [0..<LENGTH('a) div 8]"

definition to_be_bytes :: "'a::len word \<Rightarrow> u8 list" where
  "to_be_bytes v = rev (to_le_bytes v)"

definition to_ne_bytes :: "endianness \<Rightarrow> 'a::len word \<Rightarrow> u8 list" where
  "to_ne_bytes target v = (case target of BigEndian \<Rightarrow> to_be_bytes v | LittleEndian \<Rightarrow> to_le_bytes v)"

definition to_inline_prefix_be :: "'a::len word \<Rightarrow> inline_prefix option" where
  "to_inline_prefix_be v = from_number_bytes (to_be_bytes v)"

definition to_inline_prefix_le :: "'a::len word \<Rightarrow> inline_prefix option" where
  "to_inline_prefix_le v = from_number_bytes (to_le_bytes v)"

definition to_inline_prefix_ne :: "endianness \<Rightarrow> 'a::len word \<Rightarrow> inline_prefix option" where
  "to_inline_prefix_ne target v = from_number_bytes (to_ne_bytes target v)"

definition prefix_from_be :: "'a::len word \<Rightarrow> inline_prefix option" where
  "prefix_from_be v = to_inline_prefix_be v"

definition prefix_from_le :: "'a::len word \<Rightarrow> inline_prefix option" where
  "prefix_from_le v = to_inline_prefix_le v"

definition prefix_from_ne :: "endianness \<Rightarrow> 'a::len word \<Rightarrow> inline_prefix option" where
  "prefix_from_ne target v = to_inline_prefix_ne target v"

text \<open>The macro \<^verbatim>\<open>inline_prefix!\<close>: its optional first argument names the byte order.\<close>

datatype prefix_order = OrderBe | OrderLe | OrderNe

definition inline_prefix_macro :: "endianness \<Rightarrow> prefix_order option \<Rightarrow> 'a::len word \<Rightarrow> inline_prefix option" where
  "inline_prefix_macro target order v =
     (case order of
        None \<Rightarrow> prefix_from_be v
      | Some OrderBe \<Rightarrow> prefix_from_be v
      | Some OrderLe \<Rightarrow> prefix_from_le v
      | Some OrderNe \<Rightarrow> prefix_from_ne target v)"

section \<open>Encoders\<close>

datatype encoded_packet =
  Single "u8 list"
| InlinePrefixed inline_prefix "u8 list"

text \<open>A packet encoder, with the defaults of the trait.\<close>

record packet_encoder =
  encode_udp :: "u8 list \<Rightarrow> u8 list global_result option"
  encode_tcp :: "u8 list \<Rightarrow> encoded_packet global_result option"

definition RawPacketEncoder :: packet_encoder where
  "RawPacketEncoder = \<lparr>encode_udp = (\<lambda>data. Some (Inr data)), encode_tcp = (\<lambda>data. Some (Inr (Single data)))\<rparr>"

definition u16_be_encode_tcp :: "u8 list \<Rightarrow> encoded_packet global_result option" where
  "u16_be_encode_tcp data =
     (if length data > 65535
      then Some (Inl (snd (new_sys_error ''packet length exceeds u16 max'')))
      else map_option (\<lambda>prefix. Inr (InlinePrefixed prefix data))
             (to_inline_prefix_be (word_of_nat (length data) :: u16)))"

definition U16BeLengthPrefixEncoder :: packet_encoder where
  "U16BeLengthPrefixEncoder = RawPacketEncoder\<lparr>encode_tcp := u16_be_encode_tcp\<rparr>"

datatype tcp_write_mode = Queued nat | Direct

definition default_write_mode :: tcp_write_mode where
  "default_write_mode = Queued TCP_WRITE_QUEUE_SIZE"

fun queue_size :: "tcp_write_mode \<Rightarrow> nat option" where
  "queue_size (Queued n) = Some (max n 1)"
| "queue_size Direct = None"

section \<open>Writing a packet\<close>

datatype io_error_kind = WriteZero | ConnectionReset | BrokenPipe | WouldBlock | OtherIo
type_synonym io_error = "io_error_kind \<times> string"
type_synonym 'a io_result = "io_error + 'a"

record 'w async_write =
  aw_write :: "u8 list \<Rightarrow> 'w \<Rightarrow> nat io_result \<times> 'w"
  aw_write_vectored :: "u8 list list \<Rightarrow> 'w \<Rightarrow> nat io_result \<times> 'w"
  aw_write_all :: "u8 list \<Rightarrow> 'w \<Rightarrow> unit io_result \<times> 'w"

text \<open>
  What tokio documents of these calls, with \<open>sent w\<close> the bytes the stream has taken: a write
  takes a prefix of its buffers and returns its length, or takes nothing and returns an error;
  \<^verbatim>\<open>write_all\<close> takes the whole buffer, or some prefix of it and returns an error.
\<close>

fun took :: "u8 list \<Rightarrow> u8 list \<Rightarrow> nat io_result \<Rightarrow> u8 list \<Rightarrow> bool" where
  "took before data (Inr n) after \<longleftrightarrow> n \<le> length data \<and> after = before @ take n data"
| "took before data (Inl e) after \<longleftrightarrow> after = before"

fun took_all :: "u8 list \<Rightarrow> u8 list \<Rightarrow> unit io_result \<Rightarrow> u8 list \<Rightarrow> bool" where
  "took_all before data (Inr u) after \<longleftrightarrow> after = before @ data"
| "took_all before data (Inl e) after \<longleftrightarrow> (\<exists>k\<le>length data. after = before @ take k data)"

definition async_write_ok :: "'w async_write \<Rightarrow> ('w \<Rightarrow> u8 list) \<Rightarrow> bool" where
  "async_write_ok aw sent \<longleftrightarrow>
     (\<forall>buf w. took (sent w) buf (fst (aw_write aw buf w)) (sent (snd (aw_write aw buf w)))) \<and>
     (\<forall>bufs w. took (sent w) (concat bufs)
        (fst (aw_write_vectored aw bufs w)) (sent (snd (aw_write_vectored aw bufs w)))) \<and>
     (\<forall>buf w. took_all (sent w) buf (fst (aw_write_all aw buf w)) (sent (snd (aw_write_all aw buf w))))"

text \<open>The body of the loop: one write of what is left of the two slices.\<close>

definition write_step ::
  "'w async_write \<Rightarrow> u8 list \<Rightarrow> u8 list \<Rightarrow> 'w \<Rightarrow> nat io_result \<times> 'w" where
  "write_step aw first second w =
     (if first = [] then aw_write aw second w
      else if second = [] then aw_write aw first w
      else aw_write_vectored aw [first, second] w)"

text \<open>What is left of the two slices after \<open>written\<close> bytes.\<close>

definition advance_slices :: "nat \<Rightarrow> u8 list \<Rightarrow> u8 list \<Rightarrow> u8 list \<times> u8 list" where
  "advance_slices written first second =
     (if written < length first then (drop written first, second)
      else ([], drop (min (written - length first) (length second)) second))"

lemma advance_slices_shrink:
  assumes "advance_slices n first second = (first', second')" "0 < n" "first \<noteq> [] \<or> second \<noteq> []"
  shows "length first' + length second' < length first + length second"
  using assms by (cases first; cases second) (auto simp: advance_slices_def split: if_splits)

function write_all_vectored_2 ::
  "'w async_write \<Rightarrow> u8 list \<Rightarrow> u8 list \<Rightarrow> 'w \<Rightarrow> unit io_result \<times> 'w" where
  "write_all_vectored_2 aw first second w =
     (if first = [] \<and> second = [] then (Inr (), w)
      else (case write_step aw first second w of
        (Inl e, w') \<Rightarrow> (Inl e, w')
      | (Inr written, w') \<Rightarrow>
          (if written = 0 then (Inl (WriteZero, ''failed to write packet''), w')
           else (let (first', second') = advance_slices written first second in
                 write_all_vectored_2 aw first' second' w'))))"
  by pat_completeness auto
termination
  by (relation "measure (\<lambda>(aw, first, second, w). length first + length second)")
    (auto intro: advance_slices_shrink)

declare write_all_vectored_2.simps [simp del]

text \<open>\<open>None\<close> is the panic of \<^verbatim>\<open>prefix.as_slice()\<close>.\<close>

definition write_encoded_packet ::
  "'w async_write \<Rightarrow> encoded_packet \<Rightarrow> 'w \<Rightarrow> (unit io_result \<times> 'w) option" where
  "write_encoded_packet aw packet w =
     (case packet of
        Single data \<Rightarrow> Some (aw_write_all aw data w)
      | InlinePrefixed prefix payload \<Rightarrow>
          map_option (\<lambda>p. write_all_vectored_2 aw p payload w) (as_slice prefix))"

section \<open>Receive buffers and back-off\<close>

record bytes_mut =
  bm_bytes :: "u8 list"
  bm_cap :: nat

text \<open>\<open>reserve len cap additional\<close> is the capacity the \<^verbatim>\<open>bytes\<close> crate ends with.\<close>

definition ensure_spare_capacity ::
  "(nat \<Rightarrow> nat \<Rightarrow> nat \<Rightarrow> nat) \<Rightarrow> nat \<Rightarrow> nat \<Rightarrow> bytes_mut \<Rightarrow> bytes_mut" where
  "ensure_spare_capacity reserve min_spare reserve_size buf =
     (if sat_sub (bm_cap buf) (length (bm_bytes buf)) < min_spare
      then buf\<lparr>bm_cap := reserve (length (bm_bytes buf)) (bm_cap buf) reserve_size\<rparr>
      else buf)"

text \<open>\<^verbatim>\<open>read_buf\<close> is the stream's: the argument \<open>recv\<close> is its outcome, the bytes it appends or an
  error.\<close>

definition tcp_stream_read_buf ::
  "(nat \<Rightarrow> nat \<Rightarrow> nat \<Rightarrow> nat) \<Rightarrow> u8 list io_result \<Rightarrow> bytes_mut \<Rightarrow> nat io_result \<times> bytes_mut" where
  "tcp_stream_read_buf reserve recv buf =
     (let buf' = ensure_spare_capacity reserve TCP_MIN_READ_SPARE TCP_READ_BUF_SIZE buf in
      case recv of
        Inl e \<Rightarrow> (Inl e, buf')
      | Inr bs \<Rightarrow> (Inr (length bs), buf'\<lparr>bm_bytes := bm_bytes buf' @ bs\<rparr>))"

definition next_accept_error_backoff :: "nat \<Rightarrow> nat" where
  "next_accept_error_backoff current =
     (if current = 0 then TCP_ACCEPT_ERROR_BACKOFF_MIN
      else min (sat_mul duration_max current 2) TCP_ACCEPT_ERROR_BACKOFF_MAX)"

section \<open>Inline prefixes: lemmas\<close>

lemma copy_prefix_spec:
  "idx + length bs \<le> length data \<Longrightarrow>
     copy_prefix idx bs data = Some (take idx data @ bs @ drop (idx + length bs) data)"
proof (induction idx bs data rule: copy_prefix.induct)
  case (2 idx b bs data)
  then have "copy_prefix (Suc idx) bs (data[idx := b]) =
      Some (take (Suc idx) (data[idx := b]) @ bs @ drop (Suc idx + length bs) (data[idx := b]))" by simp
  moreover have "take (Suc idx) (data[idx := b]) = take idx data @ [b]"
    using 2 by (simp add: take_Suc_conv_app_nth)
  ultimately show ?case using 2 by simp
qed simp

lemma prefix_array_slice:
  assumes "length bytes \<le> INLINE_PREFIX_CAPACITY"
  obtains p where "prefix_array bytes = Some p" "as_slice p = Some bytes" "ip_size p = length bytes"
    "length (ip_data p) = INLINE_PREFIX_CAPACITY"
proof -
  have c: "copy_prefix 0 bytes (replicate INLINE_PREFIX_CAPACITY 0) =
      Some (bytes @ drop (length bytes) (replicate INLINE_PREFIX_CAPACITY 0))"
    using assms by (simp add: copy_prefix_spec)
  have "unat (of_nat (length bytes) :: u8) = length bytes"
    using assms by (simp add: unat_of_nat INLINE_PREFIX_CAPACITY_def)
  with c assms show ?thesis
    by (intro that) (auto simp: prefix_array_def as_slice_def ip_size_def)
qed

text \<open>The value of a byte sequence, least significant byte first.\<close>

fun le_value :: "u8 list \<Rightarrow> nat" where
  "le_value [] = 0"
| "le_value (b # bs) = unat b + 256 * le_value bs"

lemma le_value_digits: "le_value (map (\<lambda>i. word_of_nat (n div 256 ^ i)) [0..<k]) = n mod 256 ^ k"
proof (induction k arbitrary: n)
  case (Suc k)
  have "map (\<lambda>i. word_of_nat (n div 256 ^ i) :: u8) [0..<Suc k] =
      word_of_nat n # map (\<lambda>i. word_of_nat ((n div 256) div 256 ^ i)) [0..<k]"
    by (simp add: upt_conv_Cons map_Suc_upt [symmetric] div_mult2_eq o_def del: upt_Suc)
  then have "le_value (map (\<lambda>i. word_of_nat (n div 256 ^ i) :: u8) [0..<Suc k]) =
      n mod 256 + 256 * (n div 256 mod 256 ^ k)"
    using Suc [of "n div 256"] by (simp add: unat_of_nat del: upt_Suc)
  also have "\<dots> = n mod 256 ^ Suc k"
    by (simp add: mod_mult2_eq add.commute)
  finally show ?case .
qed simp

lemma le_value_to_le_bytes:
  assumes "8 dvd LENGTH('a::len)"
  shows "le_value (to_le_bytes (v :: 'a word)) = unat v"
proof -
  have "(256::nat) ^ (LENGTH('a) div 8) = (2 ^ 8) ^ (LENGTH('a) div 8)" by simp
  also have "\<dots> = 2 ^ LENGTH('a)" using assms by (simp only: power_mult [symmetric] dvd_mult_div_cancel)
  finally have "(256::nat) ^ (LENGTH('a) div 8) = 2 ^ LENGTH('a)" .
  then show ?thesis using le_value_digits [of "unat v" "LENGTH('a) div 8"] unsigned_less [of v]
    by (simp add: to_le_bytes_def)
qed

lemma length_to_le_bytes [simp]: "length (to_le_bytes (v :: 'a::len word)) = LENGTH('a) div 8"
  by (simp add: to_le_bytes_def)

lemma length_to_be_bytes [simp]: "length (to_be_bytes (v :: 'a::len word)) = LENGTH('a) div 8"
  by (simp add: to_be_bytes_def)

section \<open>Wire format\<close>

text \<open>The bytes a packet stands for, and the frame the length-prefix encoder gives a payload.\<close>

definition wire :: "encoded_packet \<Rightarrow> u8 list option" where
  "wire packet =
     (case packet of Single data \<Rightarrow> Some data
      | InlinePrefixed prefix payload \<Rightarrow> map_option (\<lambda>p. p @ payload) (as_slice prefix))"

definition u16_frame :: "u8 list \<Rightarrow> u8 list option" where
  "u16_frame data = (case u16_be_encode_tcp data of Some (Inr packet) \<Rightarrow> wire packet | _ \<Rightarrow> None)"

text \<open>The receiver's view: a parser of one frame, and of a stream of frames with the rest that
  is not a whole frame yet.\<close>

definition u16_parse :: "u8 list \<Rightarrow> (u8 list \<times> u8 list) option" where
  "u16_parse bs =
     (case bs of
        hi # lo # rest \<Rightarrow>
          (let n = le_value [lo, hi] in
           if n \<le> length rest then Some (take n rest, drop n rest) else None)
      | _ \<Rightarrow> None)"

fun parse_stream :: "(u8 list \<Rightarrow> ('a \<times> u8 list) option) \<Rightarrow> nat \<Rightarrow> u8 list \<Rightarrow> 'a list \<times> u8 list" where
  "parse_stream parse 0 bs = ([], bs)"
| "parse_stream parse (Suc fuel) bs =
     (case parse bs of None \<Rightarrow> ([], bs)
      | Some (d, rest) \<Rightarrow> (let (ds, rest') = parse_stream parse fuel rest in (d # ds, rest')))"

text \<open>
  The contract of a self-delimiting framing: every frame parses back with whatever follows it left
  over, and no strict prefix of a frame parses. Then a stream of frames parses back into exactly
  the payloads, up to a frame that has not arrived completely.
\<close>

locale self_delimiting =
  fixes frame :: "'a \<Rightarrow> u8 list option"
    and parse :: "u8 list \<Rightarrow> ('a \<times> u8 list) option"
  assumes parse_frame: "frame d = Some f \<Longrightarrow> parse (f @ rest) = Some (d, rest)"
    and parse_partial: "frame d = Some f \<Longrightarrow> k < length f \<Longrightarrow> parse (take k f) = None"
begin

lemma stream_parses:
  assumes "list_all2 (\<lambda>d f. frame d = Some f) ds fs" and "frame d = Some f" "k < length f"
    and "length ds \<le> fuel"
  shows "parse_stream parse fuel (concat fs @ take k f) = (ds, take k f)"
  using assms(1,4)
proof (induction arbitrary: fuel rule: list_all2_induct)
  case Nil
  then show ?case using parse_partial [OF assms(2,3)] by (cases fuel) auto
next
  case (Cons d' ds f' fs)
  then show ?case using parse_frame by (cases fuel) auto
qed

lemma frame_inj: "frame d = Some f \<Longrightarrow> frame d' = Some f \<Longrightarrow> d = d'"
  using parse_frame by (metis Pair_inject option.inject)

end

lemma u16_be_bytes: "to_be_bytes (v :: u16) = [word_of_nat (unat v div 256), word_of_nat (unat v)]"
  by (simp add: to_be_bytes_def to_le_bytes_def upt_rec)

lemma u16_frame_eq:
  "u16_frame data =
     (if length data > 65535 then None else Some (to_be_bytes (word_of_nat (length data) :: u16) @ data))"
proof (cases "length data > 65535")
  case False
  have "length (to_be_bytes (word_of_nat (length data) :: u16)) \<le> INLINE_PREFIX_CAPACITY"
    by (simp add: INLINE_PREFIX_CAPACITY_def)
  from prefix_array_slice [OF this] obtain p where
    "prefix_array (to_be_bytes (word_of_nat (length data) :: u16)) = Some p"
    "as_slice p = Some (to_be_bytes (word_of_nat (length data) :: u16))" .
  with False show ?thesis
    by (simp add: u16_frame_def u16_be_encode_tcp_def to_inline_prefix_be_def from_number_bytes_def wire_def
        INLINE_PREFIX_CAPACITY_def)
qed (simp add: u16_frame_def u16_be_encode_tcp_def)

lemma u16_length_bytes:
  assumes "n \<le> 65535"
  shows "unat (word_of_nat n :: u8) + 256 * unat (word_of_nat (n div 256) :: u8) = n"
proof -
  have "n div 256 < 256" using assms by simp
  then show ?thesis by (simp add: unat_of_nat)
qed

interpretation u16: self_delimiting u16_frame u16_parse
proof
  fix d f rest
  assume f: "u16_frame d = Some f"
  then have n: "length d \<le> 65535" by (simp add: u16_frame_eq split: if_splits)
  then have u: "unat (word_of_nat (length d) :: u16) = length d" by (simp add: unat_of_nat)
  from f n have fe: "f = [word_of_nat (length d div 256), word_of_nat (length d)] @ d"
    by (simp add: u16_frame_eq u16_be_bytes u)
  show "u16_parse (f @ rest) = Some (d, rest)"
    using u16_length_bytes [OF n] by (simp add: fe u16_parse_def Let_def)
  fix k
  assume "k < length f"
  then show "u16_parse (take k f) = None"
    using u16_length_bytes [OF n]
    by (cases k; cases "k - 1") (auto simp: fe u16_parse_def Let_def take_Cons')
qed

section \<open>The write loop\<close>

lemma async_writeD:
  assumes "async_write_ok aw sent"
  shows "took (sent w) buf (fst (aw_write aw buf w)) (sent (snd (aw_write aw buf w)))"
    and "took (sent w) (concat bufs) (fst (aw_write_vectored aw bufs w)) (sent (snd (aw_write_vectored aw bufs w)))"
    and "took_all (sent w) buf (fst (aw_write_all aw buf w)) (sent (snd (aw_write_all aw buf w)))"
  using assms unfolding async_write_ok_def by blast+

lemma write_step_spec:
  assumes "async_write_ok aw sent"
  shows "took (sent w) (first @ second) (fst (write_step aw first second w)) (sent (snd (write_step aw first second w)))"
  using async_writeD(1) [OF assms, of w first] async_writeD(1) [OF assms, of w second]
    async_writeD(2) [OF assms, of w "[first, second]"]
  by (simp add: write_step_def)

lemma advance_slices_append:
  "advance_slices n first second = (first', second') \<Longrightarrow> first' @ second' = drop n (first @ second)"
  by (auto simp: advance_slices_def min_def split: if_splits)

lemma took_all_resume:
  assumes "took_all (before @ take n data) (drop n data) r after" "n \<le> length data"
  shows "took_all before data r after"
proof (cases r)
  case (Inl e)
  with assms obtain k where "k \<le> length data - n" "after = before @ take n data @ take k (drop n data)"
    by auto
  then have "after = before @ take (n + k) data" "n + k \<le> length data"
    using assms(2) by (simp_all add: take_add)
  with Inl show ?thesis by auto
qed (use assms in simp)

lemma write_all_done: "write_all_vectored_2 aw [] [] w = (Inr (), w)"
  by (simp add: write_all_vectored_2.simps)

lemma write_all_error:
  assumes "\<not> (first = [] \<and> second = [])" "write_step aw first second w = (Inl e, w1)"
  shows "write_all_vectored_2 aw first second w = (Inl e, w1)"
  unfolding write_all_vectored_2.simps [of aw first second w] if_not_P [OF assms(1)] assms(2) by simp

lemma write_all_more:
  assumes "\<not> (first = [] \<and> second = [])" "write_step aw first second w = (Inr n, w1)"
    "advance_slices n first second = (first', second')"
  shows "write_all_vectored_2 aw first second w =
    (if n = 0 then (Inl (WriteZero, ''failed to write packet''), w1)
     else write_all_vectored_2 aw first' second' w1)"
  unfolding write_all_vectored_2.simps [of aw first second w] if_not_P [OF assms(1)] assms(2)
  by (simp add: assms(3))

lemma write_all_vectored_2_spec:
  assumes "async_write_ok aw sent"
  shows "took_all (sent w) (first @ second) (fst (write_all_vectored_2 aw first second w))
    (sent (snd (write_all_vectored_2 aw first second w)))"
  using assms
proof (induction aw first second w rule: write_all_vectored_2.induct)
  case (1 aw first second w)
  show ?case
  proof (cases "first = [] \<and> second = []")
    case False
    obtain res w1 where st: "write_step aw first second w = (res, w1)" by fastforce
    note took = write_step_spec [OF "1.prems", of w first second, unfolded st fst_conv snd_conv]
    show ?thesis
    proof (cases res)
      case (Inl e)
      with took write_all_error [OF False st [unfolded Inl]] show ?thesis
        by (cases e) (auto intro: exI [of _ 0])
    next
      case (Inr n)
      obtain first' second' where ad: "advance_slices n first second = (first', second')" by fastforce
      note more = write_all_more [OF False st [unfolded Inr] ad]
      have n: "n \<le> length (first @ second)" "sent w1 = sent w @ take n (first @ second)"
        using took Inr by auto
      show ?thesis
      proof (cases "n = 0")
        case True
        with more n(2) show ?thesis by (auto intro: exI [of _ 0])
      next
        case nz: False
        have "took_all (sent w1) (first' @ second') (fst (write_all_vectored_2 aw first' second' w1))
            (sent (snd (write_all_vectored_2 aw first' second' w1)))"
          using "1.IH" [OF False st [symmetric] Inr nz ad [symmetric] refl "1.prems"] .
        from took_all_resume [OF this [unfolded n(2) advance_slices_append [OF ad]] n(1)]
        show ?thesis unfolding more if_not_P [OF nz] .
      qed
    qed
  qed (simp add: write_all_done)
qed

lemma packet_written:
  assumes "async_write_ok aw sent" and "wire packet = Some bytes"
  shows "\<exists>r w'. write_encoded_packet aw packet w = Some (r, w') \<and> took_all (sent w) bytes r (sent w')"
proof (cases packet)
  case (Single data)
  then show ?thesis
    using async_writeD(3) [OF assms(1), of w data] assms(2)
    by (cases "aw_write_all aw data w") (auto simp: write_encoded_packet_def wire_def)
next
  case (InlinePrefixed prefix payload)
  with assms(2) obtain p where p: "as_slice prefix = Some p" "bytes = p @ payload"
    by (auto simp: wire_def)
  then show ?thesis
    using write_all_vectored_2_spec [OF assms(1), of w p payload] InlinePrefixed
    by (cases "write_all_vectored_2 aw p payload w") (auto simp: write_encoded_packet_def)
qed

section \<open>Properties\<close>

text \<open>Writing a packet either delivers exactly the packet's bytes, prefix then payload, or fails
  after some prefix of them: whatever the sizes of the partial writes of the stream, the loop ends,
  no byte is lost, repeated or reordered, and a packet that an encoder built never makes it panic.\<close>

lemma write_encoded_packet_delivers:
  assumes "async_write_ok aw sent" and "wire packet = Some bytes"
  shows "\<exists>r w'. write_encoded_packet aw packet w = Some (r, w') \<and> took_all (sent w) bytes r (sent w')"
  using assms by (rule packet_written)

definition three_at_a_time :: "u8 list async_write" where
  "three_at_a_time = \<lparr>aw_write = (\<lambda>buf w. (Inr (length (take 3 buf)), w @ take 3 buf)),
     aw_write_vectored = (\<lambda>bufs w. (Inr (length (take 3 (concat bufs))), w @ take 3 (concat bufs))),
     aw_write_all = (\<lambda>buf w. (Inr (), w @ buf))\<rparr>"

text \<open>Length-prefix framing is self-delimiting: the frames the encoder makes of a list of
  payloads, followed by a frame of which only the first \<open>k\<close> bytes have arrived, parse back into
  exactly those payloads and those \<open>k\<close> bytes. The encoder makes a frame of every payload of at
  most 65535 bytes.\<close>

lemma u16_stream_roundtrip:
  assumes "\<forall>d\<in>set (last_one # ds). length d \<le> 65535" and "k < length last_one + 2"
  shows "(\<forall>d\<in>set (last_one # ds). u16_frame d \<noteq> None) \<and>
    parse_stream u16_parse (length ds)
      (concat (map (the \<circ> u16_frame) ds) @ take k (the (u16_frame last_one))) =
      (ds, take k (the (u16_frame last_one)))"
proof -
  have some: "u16_frame d \<noteq> None" if "d \<in> set (last_one # ds)" for d
    using assms(1) that by (auto simp: u16_frame_eq)
  then have "list_all2 (\<lambda>d f. u16_frame d = Some f) ds (map (the \<circ> u16_frame) ds)"
    by (simp add: list_all2_conv_all_nth)
  moreover have "u16_frame last_one = Some (the (u16_frame last_one))"
    using some by simp
  moreover have "k < length (the (u16_frame last_one))"
    using assms by (simp add: u16_frame_eq)
  ultimately have "parse_stream u16_parse (length ds)
      (concat (map (the \<circ> u16_frame) ds) @ take k (the (u16_frame last_one))) =
      (ds, take k (the (u16_frame last_one)))"
    by (rule u16.stream_parses) simp
  with some show ?thesis by blast
qed

text \<open>A number of up to 16 bytes always fits an inline prefix: building it does not panic, its
  slice is the big-endian, little-endian or native representation with all its bytes, and the
  number is read back from it.\<close>

lemma inline_prefix_number:
  fixes v :: "'a::len word"
  assumes "8 dvd LENGTH('a)" "LENGTH('a) \<le> 128"
  shows "\<exists>be le ne. to_inline_prefix_be v = Some be \<and> to_inline_prefix_le v = Some le \<and>
    to_inline_prefix_ne target v = Some ne \<and>
    as_slice be = Some (to_be_bytes v) \<and> as_slice le = Some (to_le_bytes v) \<and>
    as_slice ne = Some (if target = BigEndian then to_be_bytes v else to_le_bytes v) \<and>
    ip_size be = LENGTH('a) div 8 \<and>
    le_value (rev (to_be_bytes v)) = unat v \<and> le_value (to_le_bytes v) = unat v"
proof -
  have c: "LENGTH('a) div 8 \<le> INLINE_PREFIX_CAPACITY"
    using assms(2) by (simp add: INLINE_PREFIX_CAPACITY_def)
  then have cb: "length (to_be_bytes v) \<le> INLINE_PREFIX_CAPACITY"
    and cl: "length (to_le_bytes v) \<le> INLINE_PREFIX_CAPACITY" by simp_all
  obtain be where "prefix_array (to_be_bytes v) = Some be" "as_slice be = Some (to_be_bytes v)"
    "ip_size be = length (to_be_bytes v)" using prefix_array_slice [OF cb] .
  moreover obtain le where "prefix_array (to_le_bytes v) = Some le" "as_slice le = Some (to_le_bytes v)"
    using prefix_array_slice [OF cl] .
  moreover have "le_value (rev (to_be_bytes v)) = unat v" "le_value (to_le_bytes v) = unat v"
    using le_value_to_le_bytes [OF assms(1), of v] by (simp_all add: to_be_bytes_def)
  ultimately show ?thesis using c
    by (cases target) (simp_all add: to_inline_prefix_be_def to_inline_prefix_le_def to_inline_prefix_ne_def
        from_number_bytes_def to_ne_bytes_def)
qed

text \<open>The pause after failed accepts starts at 10 ms, doubles with every further failure and
  never exceeds one second: after \<open>n + 1\<close> failures in a row it is the smaller of \<open>10 * 2 ^ n\<close>
  milliseconds and one second.\<close>

lemma accept_backoff_closed_form:
  "(next_accept_error_backoff ^^ Suc n) 0 =
     min (TCP_ACCEPT_ERROR_BACKOFF_MIN * 2 ^ n) TCP_ACCEPT_ERROR_BACKOFF_MAX"
proof (induction n)
  case 0
  then show ?case
    by (simp add: next_accept_error_backoff_def TCP_ACCEPT_ERROR_BACKOFF_MIN_def TCP_ACCEPT_ERROR_BACKOFF_MAX_def)
next
  case (Suc n)
  have step: "next_accept_error_backoff c = min (2 * c) TCP_ACCEPT_ERROR_BACKOFF_MAX" if "0 < c" for c
    using that by (simp add: next_accept_error_backoff_def sat_simps duration_max_def u64_max_def
        TCP_ACCEPT_ERROR_BACKOFF_MAX_def min_def)
  have "(next_accept_error_backoff ^^ Suc (Suc n)) 0 =
      next_accept_error_backoff (min (TCP_ACCEPT_ERROR_BACKOFF_MIN * 2 ^ n) TCP_ACCEPT_ERROR_BACKOFF_MAX)"
    by (simp only: funpow.simps(2) [of "Suc n"] comp_apply Suc)
  also have "\<dots> = min (2 * min (TCP_ACCEPT_ERROR_BACKOFF_MIN * 2 ^ n) TCP_ACCEPT_ERROR_BACKOFF_MAX)
      TCP_ACCEPT_ERROR_BACKOFF_MAX"
    by (rule step) (simp add: TCP_ACCEPT_ERROR_BACKOFF_MIN_def TCP_ACCEPT_ERROR_BACKOFF_MAX_def)
  also have "\<dots> = min (TCP_ACCEPT_ERROR_BACKOFF_MIN * 2 ^ Suc n) TCP_ACCEPT_ERROR_BACKOFF_MAX"
    by (simp add: min_def)
  finally show ?case .
qed

end
