(* ===== verification/Net_State.thy ===== *)
theory Net_State
  imports Packet_Codec
begin

text \<open>
  The vocabulary of the network layer, \<^verbatim>\<open>base/src/net/state.rs\<close>: addresses, protocols, associations,
  and the messages (data packages and connection events) exchanged with the application, and
  \<^verbatim>\<open>base/src/net/listen.rs\<close>. Socket addresses and their \<^verbatim>\<open>ip()\<close> are those of the standard library.
\<close>

section \<open>Addresses\<close>

datatype ip_addr = IpV4 u32 | IpV6 "128 word"

datatype socket_addr = SaV4 u32 u16 | SaV6 "128 word" u16 u32 u32

fun sa_ip :: "socket_addr \<Rightarrow> ip_addr" where
  "sa_ip (SaV4 ip port) = IpV4 ip"
| "sa_ip (SaV6 ip port flowinfo scope_id) = IpV6 ip"

section \<open>Messages\<close>

definition CHANNEL_BUFFER_SIZE :: nat where "CHANNEL_BUFFER_SIZE = 10000"

datatype protocol = ProtoUDP | ProtoTCP | ProtoALL

fun protocol_value :: "protocol \<Rightarrow> string" where
  "protocol_value ProtoUDP = ''UDP''"
| "protocol_value ProtoTCP = ''TCP''"
| "protocol_value ProtoALL = ''ALL''"

datatype io_event_type = Close

record association =
  as_local_addr :: socket_addr
  as_remote_addr :: socket_addr
  as_protocol :: protocol

text \<open>\<^verbatim>\<open>Display\<close>; the text of a socket address is the standard library's.\<close>

fun show_protocol :: "protocol \<Rightarrow> string" where
  "show_protocol ProtoUDP = ''UDP''"
| "show_protocol ProtoTCP = ''TCP''"
| "show_protocol ProtoALL = ''ALL''"

definition show_association :: "(socket_addr \<Rightarrow> string) \<Rightarrow> association \<Rightarrow> string" where
  "show_association show_addr a = show_protocol (as_protocol a) @ '' '' @ show_addr (as_local_addr a) @ ''/'' @ show_addr (as_remote_addr a)"

record event =
  ev_association :: association
  ev_type_code :: io_event_type

record package =
  pk_association :: association
  pk_data :: "u8 list"

datatype zip_msg = Data package | Event event

definition build_shutdown_event :: "association option \<Rightarrow> event" where
  "build_shutdown_event a =
     \<lparr>ev_association =
        (case a of Some x \<Rightarrow> x
         | None \<Rightarrow> \<lparr>as_local_addr = SaV4 0x7F000001 0, as_remote_addr = SaV4 0x7F000001 0, as_protocol = ProtoALL\<rparr>),
      ev_type_code = Close\<rparr>"

definition build_shutdown_zip :: "association option \<Rightarrow> zip_msg" where
  "build_shutdown_zip a = Event (build_shutdown_event a)"

fun is_shutdown_event :: "zip_msg \<Rightarrow> bool" where
  "is_shutdown_event (Event e) = (ev_type_code e = Close)"
| "is_shutdown_event (Data p) = False"

definition build_data :: "package \<Rightarrow> zip_msg" where
  "build_data p = Data p"

definition build_event :: "event \<Rightarrow> zip_msg" where
  "build_event e = Event e"

fun get_association :: "zip_msg \<Rightarrow> association" where
  "get_association (Data p) = pk_association p"
| "get_association (Event e) = ev_association e"

fun get_association_protocol :: "zip_msg \<Rightarrow> protocol" where
  "get_association_protocol (Data p) = as_protocol (pk_association p)"
| "get_association_protocol (Event e) = as_protocol (ev_association e)"

section \<open>Listening\<close>

text \<open>\<open>bind_udp\<close> and \<open>bind_tcp\<close> are the operating system's: a socket, or an error as its debug and
  display texts.\<close>

definition listen ::
  "(socket_addr \<Rightarrow> (string \<times> string) + 'u) \<Rightarrow> (socket_addr \<Rightarrow> (string \<times> string) + 't) \<Rightarrow>
   protocol \<Rightarrow> socket_addr \<Rightarrow> ('t option \<times> 'u option) global_result" where
  "listen bind_udp bind_tcp protocol addr =
     (case protocol of
        ProtoUDP \<Rightarrow>
          (case snd (hand_log (bind_udp addr)) of Inl e \<Rightarrow> Inl e | Inr udp \<Rightarrow> Inr (None, Some udp))
      | ProtoTCP \<Rightarrow>
          (case snd (hand_log (bind_tcp addr)) of Inl e \<Rightarrow> Inl e | Inr tcp \<Rightarrow> Inr (Some tcp, None))
      | ProtoALL \<Rightarrow>
          (case snd (hand_log (bind_udp addr)) of Inl e \<Rightarrow> Inl e
           | Inr udp \<Rightarrow>
             (case snd (hand_log (bind_tcp addr)) of Inl e \<Rightarrow> Inl e
              | Inr tcp \<Rightarrow> Inr (Some tcp, Some udp))))"

section \<open>Lemmas\<close>

lemma listen_sockets:
  assumes "listen bind_udp bind_tcp protocol addr = Inr (tcp, udp)"
  shows "(tcp \<noteq> None \<longleftrightarrow> protocol \<noteq> ProtoUDP) \<and> (udp \<noteq> None \<longleftrightarrow> protocol \<noteq> ProtoTCP)"
  using assms by (cases protocol) (auto simp: listen_def split: sum.splits)

lemma protocol_value_inj: "protocol_value p = protocol_value q \<longleftrightarrow> p = q"
  by (cases p; cases q) simp_all

lemma shutdown_zip_recognised [simp]:
  "is_shutdown_event (build_shutdown_zip a)"
  "get_association (build_shutdown_zip (Some x)) = x"
  "\<not> is_shutdown_event (build_data p)"
  by (simp_all add: build_shutdown_zip_def build_shutdown_event_def build_data_def)

text \<open>The text of an association determines it, when the text of an address determines the address and has neither a space nor a slash.\<close>

lemma protocol_text: "show_protocol p = protocol_value p" "show_protocol p = show_protocol p' \<longleftrightarrow> p = p'" "length (show_protocol p) = 3"
  by (cases p; cases p'; simp)+

lemma append_sep_cancel:
  assumes "x \<notin> set a" "x \<notin> set a'" "a @ x # b = a' @ x # b'"
  shows "a = a'" "b = b'"
  using assms by (auto simp: append_eq_append_conv2 Cons_eq_append_conv append_eq_Cons_conv)

lemma show_association_inj:
  assumes "inj show_addr" "\<And>x. CHR ''/'' \<notin> set (show_addr x)" "show_association show_addr a = show_association show_addr a'"
  shows "(a :: association) = a'"
proof -
  have eq: "show_protocol (as_protocol a) @ (CHR '' '' # show_addr (as_local_addr a) @ CHR ''/'' # show_addr (as_remote_addr a)) =
      show_protocol (as_protocol a') @ (CHR '' '' # show_addr (as_local_addr a') @ CHR ''/'' # show_addr (as_remote_addr a'))"
    using assms(3) by (simp add: show_association_def)
  have p: "as_protocol a = as_protocol a'"
    and rest: "show_addr (as_local_addr a) @ CHR ''/'' # show_addr (as_remote_addr a) = show_addr (as_local_addr a') @ CHR ''/'' # show_addr (as_remote_addr a')"
    using eq protocol_text(2,3) by (auto simp: append_eq_append_conv)
  from append_sep_cancel [OF assms(2) assms(2) rest] p assms(1) show ?thesis by (auto simp: inj_eq)
qed

end
