(* ===== verification/Packet_Writer.thy ===== *)
theory Packet_Writer
  imports Net_State
begin

text \<open>
  The packet writer of \<^verbatim>\<open>base/src/net/rw.rs\<close>: queued and direct TCP sinks, the registry of the
  writers of all connected peers (by address, and by IP in the order of registration), writing to
  a peer, waiting for a peer's writer, and closing.

  Cancellation tokens, write queues and write halves are named by numbers: \<open>pw_cancelled\<close> holds the
  tokens that are cancelled, \<open>pw_queues\<close> the packets each queue has accepted, in order, and
  \<open>pw_streams\<close> the write halves. What a call into tokio resolves to (whether a cancellation came
  first, whether the queue took the packet, what the operating system answered) is an argument of
  the operation that awaits it.
\<close>

section \<open>Sinks\<close>

datatype tcp_sink =
  QueuedSink socket_addr nat nat   \<comment> \<open>remote address, queue, token\<close>
| DirectSink socket_addr nat nat   \<comment> \<open>remote address, write half, token\<close>

fun sink_addr :: "tcp_sink \<Rightarrow> socket_addr" where
  "sink_addr (QueuedSink a q t) = a"
| "sink_addr (DirectSink a s t) = a"

fun sink_token :: "tcp_sink \<Rightarrow> nat" where
  "sink_token (QueuedSink a q t) = t"
| "sink_token (DirectSink a s t) = t"

fun is_direct :: "tcp_sink \<Rightarrow> bool" where
  "is_direct (QueuedSink a q t) = False"
| "is_direct (DirectSink a s t) = True"

record tcp_writer_registration =
  wr_remote_addr :: socket_addr
  wr_writer_id :: u64

record registered_tcp_sink =
  rs_registration :: tcp_writer_registration
  rs_sink :: tcp_sink

record 'w packet_writer =
  pw_udp_socket :: "nat option"
  pw_tcp_writers :: "socket_addr \<rightharpoonup> registered_tcp_sink"
  pw_addrs_by_ip :: "ip_addr \<rightharpoonup> tcp_writer_registration list"
  pw_next_id :: u64
  pw_ready :: nat                  \<comment> \<open>how often \<^verbatim>\<open>notify_waiters\<close> was called\<close>
  pw_mode :: tcp_write_mode
  pw_closed :: bool
  pw_cancelled :: "nat set"
  pw_queues :: "nat \<Rightarrow> encoded_packet list"
  pw_streams :: "nat \<Rightarrow> 'w"

definition packet_writer_new :: "nat option \<Rightarrow> tcp_write_mode \<Rightarrow> (nat \<Rightarrow> 'w) \<Rightarrow> 'w packet_writer" where
  "packet_writer_new udp mode streams =
     \<lparr>pw_udp_socket = udp, pw_tcp_writers = Map.empty, pw_addrs_by_ip = Map.empty, pw_next_id = 1,
      pw_ready = 0, pw_mode = mode, pw_closed = False, pw_cancelled = {}, pw_queues = (\<lambda>_. []),
      pw_streams = streams\<rparr>"

definition cancel_token :: "nat \<Rightarrow> 'w packet_writer \<Rightarrow> 'w packet_writer" where
  "cancel_token t w = w\<lparr>pw_cancelled := insert t (pw_cancelled w)\<rparr>"

definition sink_close :: "tcp_sink \<Rightarrow> 'w packet_writer \<Rightarrow> 'w packet_writer" where
  "sink_close s w = cancel_token (sink_token s) w"

text \<open>\<open>rx_dropped\<close>: the queues whose receiver is gone.\<close>

fun sink_is_closed :: "nat set \<Rightarrow> tcp_sink \<Rightarrow> 'w packet_writer \<Rightarrow> bool" where
  "sink_is_closed rx_dropped (QueuedSink a q t) w \<longleftrightarrow> t \<in> pw_cancelled w \<or> q \<in> rx_dropped"
| "sink_is_closed rx_dropped (DirectSink a s t) w \<longleftrightarrow> t \<in> pw_cancelled w"

definition sys_err :: "string \<Rightarrow> global_error" where
  "sys_err msg = snd (new_sys_error msg)"

section \<open>Writing to a sink\<close>

text \<open>What \<^verbatim>\<open>select!\<close> over the token and \<^verbatim>\<open>sender.send\<close> resolves to, and \<^verbatim>\<open>try_send\<close>.\<close>

datatype send_outcome = SendCancelled | SendClosed | SendOk
datatype try_outcome = TryOk | TryFull | TryClosed

definition push_packet :: "nat \<Rightarrow> encoded_packet \<Rightarrow> 'w packet_writer \<Rightarrow> 'w packet_writer" where
  "push_packet q p w = w\<lparr>pw_queues := (pw_queues w)(q := pw_queues w q @ [p])\<rparr>"

definition queued_write ::
  "packet_encoder \<Rightarrow> nat \<Rightarrow> nat \<Rightarrow> u8 list \<Rightarrow> send_outcome \<Rightarrow> 'w packet_writer \<Rightarrow>
   (unit global_result \<times> 'w packet_writer) option" where
  "queued_write enc q t data outcome w =
     (if t \<in> pw_cancelled w then Some (Inl (sys_err ''tcp sink is closed''), w)
      else (case encode_tcp enc data of
        None \<Rightarrow> None
      | Some (Inl e) \<Rightarrow> Some (Inl e, w)
      | Some (Inr packet) \<Rightarrow>
          Some (case outcome of
            SendCancelled \<Rightarrow> (Inl (sys_err ''tcp sink is closed''), cancel_token t w)
          | SendClosed \<Rightarrow> (Inl (sys_err ''tcp write channel closed''), w)
          | SendOk \<Rightarrow> (Inr (), push_packet q packet w))))"

definition queued_try_write ::
  "packet_encoder \<Rightarrow> nat \<Rightarrow> nat \<Rightarrow> u8 list \<Rightarrow> try_outcome \<Rightarrow> 'w packet_writer \<Rightarrow>
   (unit global_result \<times> 'w packet_writer) option" where
  "queued_try_write enc q t data outcome w =
     (if t \<in> pw_cancelled w then Some (Inl (sys_err ''tcp sink is closed''), w)
      else (case encode_tcp enc data of
        None \<Rightarrow> None
      | Some (Inl e) \<Rightarrow> Some (Inl e, w)
      | Some (Inr packet) \<Rightarrow>
          Some (case outcome of
            TryOk \<Rightarrow> (Inr (), push_packet q packet w)
          | TryFull \<Rightarrow> (Inl (sys_err ''tcp write channel is full''), w)
          | TryClosed \<Rightarrow> (Inl (sys_err ''tcp write channel closed''), w))))"

text \<open>
  A direct write awaits the lock of the write half, during which others may cancel the token
  (\<open>CancelledAtLock\<close>), then races the write against the token: \<open>CancelledDuring s\<close> when the
  cancellation wins, with \<open>s\<close> the write half as the abandoned write left it. A failed write cancels
  the token.
\<close>

datatype 'w direct_outcome = CancelledAtLock | CancelledDuring 'w | WriteRuns

definition io_hand_log :: "(io_error \<Rightarrow> string) \<Rightarrow> unit io_result \<Rightarrow> unit global_result" where
  "io_hand_log dbg r = snd (hand_log (case r of Inl e \<Rightarrow> Inl (dbg e, snd e) | Inr u \<Rightarrow> Inr u))"

definition direct_write ::
  "packet_encoder \<Rightarrow> 'w async_write \<Rightarrow> (io_error \<Rightarrow> string) \<Rightarrow> nat \<Rightarrow> nat \<Rightarrow> u8 list \<Rightarrow> 'w direct_outcome \<Rightarrow>
   'w packet_writer \<Rightarrow> (unit global_result \<times> 'w packet_writer) option" where
  "direct_write enc aw dbg s t data outcome w =
     (if t \<in> pw_cancelled w then Some (Inl (sys_err ''tcp sink is closed''), w)
      else (case encode_tcp enc data of
        None \<Rightarrow> None
      | Some (Inl e) \<Rightarrow> Some (Inl e, w)
      | Some (Inr packet) \<Rightarrow>
          (case outcome of
             CancelledAtLock \<Rightarrow> Some (Inl (sys_err ''tcp sink is closed''), cancel_token t w)
           | CancelledDuring left \<Rightarrow>
               Some (Inl (sys_err ''tcp sink is closed''),
                     cancel_token t (w\<lparr>pw_streams := (pw_streams w)(s := left)\<rparr>))
           | WriteRuns \<Rightarrow>
               map_option (\<lambda>(r, left).
                  let w' = w\<lparr>pw_streams := (pw_streams w)(s := left)\<rparr>;
                      result = io_hand_log dbg r in
                  (result, case result of Inl _ \<Rightarrow> cancel_token t w' | Inr _ \<Rightarrow> w'))
                 (write_encoded_packet aw packet (pw_streams w s)))))"

text \<open>The caller may drop the future of a write while the select waits: the stream keeps what was taken (\<open>left\<close>) and nothing cancels the
  token. Before the select a drop leaves everything as it was.\<close>

definition direct_write_dropped ::
  "packet_encoder \<Rightarrow> nat \<Rightarrow> nat \<Rightarrow> u8 list \<Rightarrow> 'w \<Rightarrow> 'w packet_writer \<Rightarrow> 'w packet_writer" where
  "direct_write_dropped enc s t data left w =
     (if t \<in> pw_cancelled w then w
      else (case encode_tcp enc data of
        Some (Inr packet) \<Rightarrow> w\<lparr>pw_streams := (pw_streams w)(s := left)\<rparr>
      | _ \<Rightarrow> w))"

text \<open>\<^verbatim>\<open>shutdown\<close> of a write half: \<open>outcome\<close> is what the stream answers.\<close>

definition direct_shutdown ::
  "nat \<Rightarrow> (string \<times> string) + unit \<Rightarrow> 'w packet_writer \<Rightarrow> unit global_result \<times> 'w packet_writer" where
  "direct_shutdown t outcome w = (snd (hand_log outcome), cancel_token t w)"

record 'w sink_env =
  se_send :: send_outcome
  se_try :: try_outcome
  se_direct :: "'w direct_outcome"

fun sink_write ::
  "packet_encoder \<Rightarrow> 'w async_write \<Rightarrow> (io_error \<Rightarrow> string) \<Rightarrow> 'w sink_env \<Rightarrow> tcp_sink \<Rightarrow> u8 list \<Rightarrow>
   'w packet_writer \<Rightarrow> (unit global_result \<times> 'w packet_writer) option" where
  "sink_write enc aw dbg env (QueuedSink a q t) data w = queued_write enc q t data (se_send env) w"
| "sink_write enc aw dbg env (DirectSink a s t) data w = direct_write enc aw dbg s t data (se_direct env) w"

fun sink_try_write ::
  "packet_encoder \<Rightarrow> 'w sink_env \<Rightarrow> tcp_sink \<Rightarrow> u8 list \<Rightarrow> 'w packet_writer \<Rightarrow>
   (unit global_result \<times> 'w packet_writer) option" where
  "sink_try_write enc env (QueuedSink a q t) data w = queued_try_write enc q t data (se_try env) w"
| "sink_try_write enc env (DirectSink a s t) data w =
     Some (Inl (sys_err ''direct tcp sink requires async write''), w)"

section \<open>The registry\<close>

definition packet_writer_closed :: global_error where
  "packet_writer_closed = sys_err ''packet writer is closed''"

definition ensure_open :: "'w packet_writer \<Rightarrow> unit global_result" where
  "ensure_open w = (if pw_closed w then Inl packet_writer_closed else Inr ())"

definition pw_tcp_sink :: "socket_addr \<Rightarrow> 'w packet_writer \<Rightarrow> tcp_sink option" where
  "pw_tcp_sink a w = map_option rs_sink (pw_tcp_writers w a)"

definition has_tcp_writer :: "socket_addr \<Rightarrow> 'w packet_writer \<Rightarrow> bool" where
  "has_tcp_writer a w \<longleftrightarrow> pw_tcp_writers w a \<noteq> None"

fun find_registered :: "(socket_addr \<rightharpoonup> registered_tcp_sink) \<Rightarrow> tcp_writer_registration list \<Rightarrow> tcp_sink option" where
  "find_registered writers [] = None"
| "find_registered writers (g # gs) =
     (case writers (wr_remote_addr g) of
        Some r \<Rightarrow> if rs_registration r = g then Some (rs_sink r) else find_registered writers gs
      | None \<Rightarrow> find_registered writers gs)"

definition tcp_sink_by_ip :: "ip_addr \<Rightarrow> 'w packet_writer \<Rightarrow> tcp_sink option" where
  "tcp_sink_by_ip ip w =
     pw_addrs_by_ip w ip \<bind> (\<lambda>gs. find_registered (pw_tcp_writers w) (rev gs))"

definition tcp_sink_or_err :: "socket_addr \<Rightarrow> 'w packet_writer \<Rightarrow> tcp_sink global_result" where
  "tcp_sink_or_err a w =
     (case pw_tcp_sink a w of Some s \<Rightarrow> Inr s | None \<Rightarrow> Inl (sys_err ''tcp writer is not available''))"

text \<open>
  Registration, in the three parts between which other tasks can run: the check and the draw of an
  identifier; the section under the registry lock; closing the replaced sink and waking the
  waiters. \<^verbatim>\<open>fetch_add\<close> wraps.
\<close>

definition insert_begin ::
  "socket_addr \<Rightarrow> tcp_sink \<Rightarrow> 'w packet_writer \<Rightarrow> tcp_writer_registration option \<times> 'w packet_writer" where
  "insert_begin a s w =
     (if pw_closed w then (None, sink_close s w)
      else (Some \<lparr>wr_remote_addr = a, wr_writer_id = pw_next_id w\<rparr>, w\<lparr>pw_next_id := pw_next_id w + 1\<rparr>))"

definition insert_update ::
  "tcp_writer_registration \<Rightarrow> tcp_sink \<Rightarrow> 'w packet_writer \<Rightarrow> registered_tcp_sink option \<times> 'w packet_writer" where
  "insert_update g s w =
     (let a = wr_remote_addr g;
          previous = pw_tcp_writers w a;
          gs = (case pw_addrs_by_ip w (sa_ip a) of None \<Rightarrow> [] | Some gs \<Rightarrow> gs);
          gs' = filter (\<lambda>item. wr_remote_addr item \<noteq> a) gs @ [g] in
      (previous,
       w\<lparr>pw_tcp_writers := (pw_tcp_writers w)(a \<mapsto> \<lparr>rs_registration = g, rs_sink = s\<rparr>),
         pw_addrs_by_ip := (pw_addrs_by_ip w)(sa_ip a \<mapsto> gs')\<rparr>))"

definition insert_finish :: "registered_tcp_sink option \<Rightarrow> 'w packet_writer \<Rightarrow> 'w packet_writer" where
  "insert_finish previous w =
     (let w' = (case previous of Some p \<Rightarrow> sink_close (rs_sink p) w | None \<Rightarrow> w) in
      w'\<lparr>pw_ready := pw_ready w' + 1\<rparr>)"

definition insert_tcp_sink ::
  "socket_addr \<Rightarrow> tcp_sink \<Rightarrow> 'w packet_writer \<Rightarrow> tcp_writer_registration option \<times> 'w packet_writer" where
  "insert_tcp_sink a s w =
     (case insert_begin a s w of
        (None, w') \<Rightarrow> (None, w')
      | (Some g, w') \<Rightarrow>
          if pw_closed w' then (None, sink_close s w')
          else (let (previous, w'') = insert_update g s w' in (Some g, insert_finish previous w'')))"

definition insert_registered_tcp_writer ::
  "socket_addr \<Rightarrow> nat \<Rightarrow> nat \<Rightarrow> 'w packet_writer \<Rightarrow> tcp_writer_registration option \<times> 'w packet_writer" where
  "insert_registered_tcp_writer a q t w = insert_tcp_sink a (QueuedSink a q t) w"

definition insert_registered_direct_tcp_writer ::
  "socket_addr \<Rightarrow> nat \<Rightarrow> nat \<Rightarrow> 'w packet_writer \<Rightarrow> tcp_writer_registration option \<times> 'w packet_writer" where
  "insert_registered_direct_tcp_writer a s t w = insert_tcp_sink a (DirectSink a s t) w"

definition insert_tcp_writer :: "socket_addr \<Rightarrow> nat \<Rightarrow> nat \<Rightarrow> 'w packet_writer \<Rightarrow> 'w packet_writer" where
  "insert_tcp_writer a q t w = snd (insert_registered_tcp_writer a q t w)"

definition insert_direct_tcp_writer :: "socket_addr \<Rightarrow> nat \<Rightarrow> nat \<Rightarrow> 'w packet_writer \<Rightarrow> 'w packet_writer" where
  "insert_direct_tcp_writer a s t w = snd (insert_registered_direct_tcp_writer a s t w)"

definition remove_tcp_writer_inner ::
  "socket_addr \<Rightarrow> u64 option \<Rightarrow> 'w packet_writer \<Rightarrow> tcp_sink option \<times> 'w packet_writer" where
  "remove_tcp_writer_inner a expected w =
     (case pw_tcp_writers w a of
        None \<Rightarrow> (None, w)
      | Some r \<Rightarrow>
          if (case expected of Some e \<Rightarrow> e \<noteq> wr_writer_id (rs_registration r) | None \<Rightarrow> False)
          then (None, w)
          else (let by_ip = pw_addrs_by_ip w; ip = sa_ip a in
            (Some (rs_sink r),
             w\<lparr>pw_tcp_writers := (pw_tcp_writers w)(a := None),
               pw_addrs_by_ip :=
                 (case by_ip ip of
                    None \<Rightarrow> by_ip
                  | Some gs \<Rightarrow>
                      (let gs' = filter (\<lambda>item. item \<noteq> rs_registration r) gs in
                       if gs' = [] then by_ip(ip := None) else by_ip(ip \<mapsto> gs')))\<rparr>)))"

definition remove_tcp_writer :: "socket_addr \<Rightarrow> 'w packet_writer \<Rightarrow> 'w packet_writer" where
  "remove_tcp_writer a w =
     (case remove_tcp_writer_inner a None w of (Some s, w') \<Rightarrow> sink_close s w' | (None, w') \<Rightarrow> w')"

definition remove_registered_tcp_writer :: "tcp_writer_registration \<Rightarrow> 'w packet_writer \<Rightarrow> 'w packet_writer" where
  "remove_registered_tcp_writer g w =
     (case remove_tcp_writer_inner (wr_remote_addr g) (Some (wr_writer_id g)) w of
        (Some s, w') \<Rightarrow> sink_close s w' | (None, w') \<Rightarrow> w')"

section \<open>Closing the writer\<close>

text \<open>\<open>order\<close> is the order in which the map yields its keys.\<close>

definition close_begin :: "'w packet_writer \<Rightarrow> 'w packet_writer" where
  "close_begin w = w\<lparr>pw_closed := True\<rparr>"

definition close_locked :: "socket_addr list \<Rightarrow> 'w packet_writer \<Rightarrow> tcp_sink list \<times> 'w packet_writer" where
  "close_locked order w =
     (List.map_filter (\<lambda>a. pw_tcp_sink a w) order,
      w\<lparr>pw_tcp_writers := Map.empty, pw_addrs_by_ip := Map.empty\<rparr>)"

fun close_sinks ::
  "(nat \<Rightarrow> (string \<times> string) + unit) \<Rightarrow> tcp_sink list \<Rightarrow> global_error option \<Rightarrow> 'w packet_writer \<Rightarrow>
   global_error option \<times> 'w packet_writer" where
  "close_sinks shut [] err w = (err, w)"
| "close_sinks shut (sink # sinks) err w =
     (let w' = sink_close sink w in
      case sink of
        QueuedSink a q t \<Rightarrow> close_sinks shut sinks err w'
      | DirectSink a s t \<Rightarrow>
          (case direct_shutdown t (shut s) w' of
             (Inl e, w'') \<Rightarrow> close_sinks shut sinks (case err of None \<Rightarrow> Some e | Some e0 \<Rightarrow> Some e0) w''
           | (Inr _, w'') \<Rightarrow> close_sinks shut sinks err w''))"

definition packet_writer_close ::
  "socket_addr list \<Rightarrow> (nat \<Rightarrow> (string \<times> string) + unit) \<Rightarrow> 'w packet_writer \<Rightarrow>
   unit global_result \<times> 'w packet_writer" where
  "packet_writer_close order shut w =
     (let (sinks, w1) = close_locked order (close_begin w);
          (err, w2) = close_sinks shut sinks None w1;
          w3 = w2\<lparr>pw_udp_socket := None\<rparr> in
      (case err of Some e \<Rightarrow> Inl e | None \<Rightarrow> Inr (), w3))"

text \<open>The future of the close dropped while it awaits the \<open>n\<close>-th sink (or, after the last, the lock of the socket): the sinks still to come
  were only in its local list.\<close>

definition packet_writer_close_dropped ::
  "nat \<Rightarrow> socket_addr list \<Rightarrow> (nat \<Rightarrow> (string \<times> string) + unit) \<Rightarrow> 'w packet_writer \<Rightarrow> 'w packet_writer" where
  "packet_writer_close_dropped n order shut w =
     (let (sinks, w1) = close_locked order (close_begin w);
          (err, w2) = close_sinks shut (take n sinks) None w1 in
      case drop n sinks of [] \<Rightarrow> w2 | sink # _ \<Rightarrow> sink_close sink w2)"

section \<open>Writing to a peer\<close>

text \<open>What the datagram send resolves to: the writer was closed first, or the socket's answer.\<close>

datatype udp_outcome = UdpClosed | UdpResult "(string \<times> string) + nat"

definition udp_send :: "udp_outcome \<Rightarrow> unit global_result" where
  "udp_send outcome =
     (case outcome of
        UdpClosed \<Rightarrow> Inl packet_writer_closed
      | UdpResult r \<Rightarrow> (case snd (hand_log r) of Inl e \<Rightarrow> Inl e | Inr _ \<Rightarrow> Inr ()))"

definition write_to ::
  "packet_encoder \<Rightarrow> 'w async_write \<Rightarrow> (io_error \<Rightarrow> string) \<Rightarrow> 'w sink_env \<Rightarrow> udp_outcome \<Rightarrow> u8 list \<Rightarrow>
   socket_addr \<Rightarrow> protocol \<Rightarrow> 'w packet_writer \<Rightarrow> (unit global_result \<times> 'w packet_writer) option" where
  "write_to enc aw dbg env udp data a protocol w =
     (case ensure_open w of
        Inl e \<Rightarrow> Some (Inl e, w)
      | Inr _ \<Rightarrow>
          (case protocol of
             ProtoUDP \<Rightarrow>
               (case encode_udp enc data of
                  None \<Rightarrow> None
                | Some (Inl e) \<Rightarrow> Some (Inl e, w)
                | Some (Inr packet) \<Rightarrow>
                    (case pw_udp_socket w of
                       None \<Rightarrow> Some (Inl (sys_err ''udp socket is not available''), w)
                     | Some _ \<Rightarrow> Some (udp_send udp, w)))
           | ProtoTCP \<Rightarrow>
               (case tcp_sink_or_err a w of
                  Inl e \<Rightarrow> Some (Inl e, w)
                | Inr sink \<Rightarrow> sink_write enc aw dbg env sink data w)
           | ProtoALL \<Rightarrow> Some (Inl (sys_err ''protocol ALL cannot be used to write a packet''), w)))"

definition write_slice_to ::
  "udp_outcome \<Rightarrow> u8 list \<Rightarrow> socket_addr \<Rightarrow> protocol \<Rightarrow> 'w packet_writer \<Rightarrow> unit global_result \<times> 'w packet_writer" where
  "write_slice_to udp data a protocol w =
     (case ensure_open w of
        Inl e \<Rightarrow> (Inl e, w)
      | Inr _ \<Rightarrow>
          (case protocol of
             ProtoUDP \<Rightarrow>
               (case pw_udp_socket w of
                  None \<Rightarrow> (Inl (sys_err ''udp socket is not available''), w)
                | Some _ \<Rightarrow> (udp_send udp, w))
           | ProtoTCP \<Rightarrow>
               (Inl (sys_err ''write_slice_to cannot write TCP without copy; use write_to with Bytes''), w)
           | ProtoALL \<Rightarrow> (Inl (sys_err ''protocol ALL cannot be used to write a packet''), w)))"

definition write_tcp_to_ip ::
  "packet_encoder \<Rightarrow> 'w async_write \<Rightarrow> (io_error \<Rightarrow> string) \<Rightarrow> 'w sink_env \<Rightarrow> u8 list \<Rightarrow> ip_addr \<Rightarrow>
   'w packet_writer \<Rightarrow> (unit global_result \<times> 'w packet_writer) option" where
  "write_tcp_to_ip enc aw dbg env data ip w =
     (case ensure_open w of
        Inl e \<Rightarrow> Some (Inl e, w)
      | Inr _ \<Rightarrow>
          (case tcp_sink_by_ip ip w of
             None \<Rightarrow> Some (Inl (sys_err ''tcp writer is not available''), w)
           | Some sink \<Rightarrow> sink_write enc aw dbg env sink data w))"

text \<open>\<open>udp_locked\<close>: the socket's lock is taken by the closing task.\<close>

definition try_write_to ::
  "packet_encoder \<Rightarrow> 'w sink_env \<Rightarrow> bool \<Rightarrow> (string \<times> string) + nat \<Rightarrow> u8 list \<Rightarrow> socket_addr \<Rightarrow> protocol \<Rightarrow>
   'w packet_writer \<Rightarrow> (unit global_result \<times> 'w packet_writer) option" where
  "try_write_to enc env udp_locked udp data a protocol w =
     (case ensure_open w of
        Inl e \<Rightarrow> Some (Inl e, w)
      | Inr _ \<Rightarrow>
          (case protocol of
             ProtoUDP \<Rightarrow>
               (case encode_udp enc data of
                  None \<Rightarrow> None
                | Some (Inl e) \<Rightarrow> Some (Inl e, w)
                | Some (Inr packet) \<Rightarrow>
                    (if udp_locked then Some (Inl (sys_err ''udp socket is closing''), w)
                     else case pw_udp_socket w of
                       None \<Rightarrow> Some (Inl (sys_err ''udp socket is not available''), w)
                     | Some _ \<Rightarrow> Some (udp_send (UdpResult udp), w)))
           | ProtoTCP \<Rightarrow>
               (case tcp_sink_or_err a w of
                  Inl e \<Rightarrow> Some (Inl e, w)
                | Inr sink \<Rightarrow> sink_try_write enc env sink data w)
           | ProtoALL \<Rightarrow> Some (Inl (sys_err ''protocol ALL cannot be used to write a packet''), w)))"

section \<open>Waiting for a peer\<close>

text \<open>
  One round of the loop of \<^verbatim>\<open>wait_tcp_sink\<close> sees the writer at three moments (the check that it is
  open and the first lookup, and the second lookup after the notification is armed) and then
  whatever ends the wait. \<open>None\<close>: the rounds observed so far leave the caller waiting.
\<close>

datatype wait_outcome = WaitClosed | WaitTimedOut | WaitNotified

record 'w wait_round =
  wt_open :: "'w packet_writer"
  wt_first :: "'w packet_writer"
  wt_second :: "'w packet_writer"
  wt_outcome :: wait_outcome

fun wait_rounds :: "socket_addr \<Rightarrow> 'w wait_round list \<Rightarrow> tcp_sink global_result option" where
  "wait_rounds a [] = None"
| "wait_rounds a (r # rs) =
     (case ensure_open (wt_open r) of
        Inl e \<Rightarrow> Some (Inl e)
      | Inr _ \<Rightarrow>
          (case pw_tcp_sink a (wt_first r) of
             Some s \<Rightarrow> Some (Inr s)
           | None \<Rightarrow>
               (case pw_tcp_sink a (wt_second r) of
                  Some s \<Rightarrow> Some (Inr s)
                | None \<Rightarrow>
                    (case wt_outcome r of
                       WaitClosed \<Rightarrow> Some (Inl packet_writer_closed)
                     | WaitTimedOut \<Rightarrow> Some (Inl (sys_err ''tcp writer wait timed out''))
                     | WaitNotified \<Rightarrow> wait_rounds a rs))))"

definition wait_tcp_sink :: "socket_addr \<Rightarrow> nat \<Rightarrow> 'w wait_round list \<Rightarrow> tcp_sink global_result option" where
  "wait_tcp_sink a timeout rounds =
     (if timeout = 0 then Some (Inl (sys_err ''tcp writer wait timeout must be greater than zero''))
      else wait_rounds a rounds)"

end
