(* ===== verification/Packet_Writer_Inv.thy ===== *)
theory Packet_Writer_Inv
  imports Packet_Writer
begin

text \<open>
  The registry of peers refines a list of registrations in the order they were made: the map by
  address and the map by IP are views of one list, a registration replaces the one of its address
  and goes to the end, a removal deletes only the generation it names, and a lookup by IP finds
  the peer that registered last. Direct sinks: what a sequence of writes leaves on the stream.
\<close>

section \<open>The abstract registry\<close>

type_synonym peers = "registered_tcp_sink list"

abbreviation peer_addr :: "registered_tcp_sink \<Rightarrow> socket_addr" where
  "peer_addr r \<equiv> wr_remote_addr (rs_registration r)"

definition peers_at :: "socket_addr \<Rightarrow> peers \<Rightarrow> registered_tcp_sink option" where
  "peers_at a l = map_of (map (\<lambda>r. (peer_addr r, r)) l) a"

definition peers_of_ip :: "ip_addr \<Rightarrow> peers \<Rightarrow> peers" where
  "peers_of_ip ip l = filter (\<lambda>r. sa_ip (peer_addr r) = ip) l"

definition peers_insert :: "registered_tcp_sink \<Rightarrow> peers \<Rightarrow> peers" where
  "peers_insert r l = filter (\<lambda>x. peer_addr x \<noteq> peer_addr r) l @ [r]"

definition peers_remove :: "socket_addr \<Rightarrow> peers \<Rightarrow> peers" where
  "peers_remove a l = filter (\<lambda>x. peer_addr x \<noteq> a) l"

definition registry_rel :: "'w packet_writer \<Rightarrow> peers \<Rightarrow> bool" where
  "registry_rel w l \<longleftrightarrow>
     distinct (map peer_addr l) \<and>
     (\<forall>a. pw_tcp_writers w a = peers_at a l) \<and>
     (\<forall>ip. pw_addrs_by_ip w ip =
        (if peers_of_ip ip l = [] then None else Some (map rs_registration (peers_of_ip ip l))))"

lemma registry_relI:
  assumes "distinct (map peer_addr l)" "\<And>a. pw_tcp_writers w a = peers_at a l"
    "\<And>ip. pw_addrs_by_ip w ip =
        (if peers_of_ip ip l = [] then None else Some (map rs_registration (peers_of_ip ip l)))"
  shows "registry_rel w l"
  using assms by (simp add: registry_rel_def)

lemma registry_relD:
  assumes "registry_rel w l"
  shows "distinct (map peer_addr l)" "pw_tcp_writers w a = peers_at a l"
    "pw_addrs_by_ip w ip =
       (if peers_of_ip ip l = [] then None else Some (map rs_registration (peers_of_ip ip l)))"
  using assms by (simp_all add: registry_rel_def)

lemma peers_at_Some:
  "distinct (map peer_addr l) \<Longrightarrow> peers_at a l = Some r \<longleftrightarrow> r \<in> set l \<and> peer_addr r = a"
  by (auto simp: peers_at_def comp_def)

lemma peers_at_None: "peers_at a l = None \<longleftrightarrow> a \<notin> peer_addr ` set l"
  by (auto simp: peers_at_def map_of_eq_None_iff image_image)

lemma peers_at_addr: "peers_at a l = Some r \<Longrightarrow> peer_addr r = a"
  by (auto simp: peers_at_def dest: map_of_SomeD)

lemma peers_at_filter:
  "peers_at b (filter (\<lambda>x. peer_addr x \<noteq> a) l) = (if b = a then None else peers_at b l)"
  by (induction l) (auto simp: peers_at_def)

lemma peers_at_append: "peers_at a (l @ l') = (case peers_at a l of Some r \<Rightarrow> Some r | None \<Rightarrow> peers_at a l')"
  by (induction l) (auto simp: peers_at_def)

lemma peers_at_insert: "peers_at a (peers_insert r l) = (if a = peer_addr r then Some r else peers_at a l)"
  by (auto simp: peers_insert_def peers_at_append peers_at_filter split: option.splits) (simp_all add: peers_at_def)

lemma peers_at_remove: "peers_at b (peers_remove a l) = (if b = a then None else peers_at b l)"
  by (simp add: peers_remove_def peers_at_filter)

lemma distinct_peers_remove: "distinct (map peer_addr l) \<Longrightarrow> distinct (map peer_addr (peers_remove a l))"
  by (simp add: peers_remove_def distinct_map_filter)

lemma distinct_peers_insert: "distinct (map peer_addr l) \<Longrightarrow> distinct (map peer_addr (peers_insert r l))"
  by (auto simp: peers_insert_def distinct_map_filter)

lemma peers_of_ip_other:
  "sa_ip a \<noteq> ip \<Longrightarrow> peers_of_ip ip (filter (\<lambda>x. peer_addr x \<noteq> a) l) = peers_of_ip ip l"
  by (induction l) (auto simp: peers_of_ip_def)

lemma peers_of_ip_filter:
  "map rs_registration (peers_of_ip ip (filter (\<lambda>x. peer_addr x \<noteq> a) l)) =
     filter (\<lambda>g. wr_remote_addr g \<noteq> a) (map rs_registration (peers_of_ip ip l))"
  by (induction l) (auto simp: peers_of_ip_def)

lemma retain_other_registration:
  assumes "distinct (map peer_addr l)" "r \<in> set l"
  shows "filter (\<lambda>g. g \<noteq> rs_registration r) (map rs_registration (peers_of_ip ip l)) =
    filter (\<lambda>g. wr_remote_addr g \<noteq> peer_addr r) (map rs_registration (peers_of_ip ip l))"
proof (rule filter_cong [OF refl])
  fix g assume "g \<in> set (map rs_registration (peers_of_ip ip l))"
  then obtain x where "x \<in> set l" "g = rs_registration x" by (auto simp: peers_of_ip_def)
  then show "g \<noteq> rs_registration r \<longleftrightarrow> wr_remote_addr g \<noteq> peer_addr r"
    using assms by (auto simp: distinct_map inj_on_def)
qed

section \<open>The registry operations implement it\<close>

lemma registry_rel_new: "registry_rel (packet_writer_new udp mode streams) []"
  by (simp add: registry_rel_def packet_writer_new_def peers_at_def peers_of_ip_def)

lemma registry_rel_cong:
  "pw_tcp_writers w' = pw_tcp_writers w \<Longrightarrow> pw_addrs_by_ip w' = pw_addrs_by_ip w \<Longrightarrow>
     registry_rel w' l \<longleftrightarrow> registry_rel w l"
  by (simp add: registry_rel_def)

lemma registry_rel_frame [simp]:
  "registry_rel (cancel_token t w) l \<longleftrightarrow> registry_rel w l"
  "registry_rel (sink_close s w) l \<longleftrightarrow> registry_rel w l"
  "registry_rel (snd (insert_begin a s w)) l \<longleftrightarrow> registry_rel w l"
  "registry_rel (insert_finish p w) l \<longleftrightarrow> registry_rel w l"
  "registry_rel (close_begin w) l \<longleftrightarrow> registry_rel w l"
  by (auto simp: cancel_token_def sink_close_def insert_begin_def insert_finish_def close_begin_def Let_def
      intro!: registry_rel_cong split: option.splits)

lemma insert_update_rel:
  assumes "registry_rel w l"
  shows "registry_rel (snd (insert_update g s w)) (peers_insert \<lparr>rs_registration = g, rs_sink = s\<rparr> l)"
    and "fst (insert_update g s w) = peers_at (wr_remote_addr g) l"
proof -
  let ?r = "\<lparr>rs_registration = g, rs_sink = s\<rparr>"
  let ?a = "wr_remote_addr g"
  let ?w = "snd (insert_update g s w)"
  note d = registry_relD [OF assms]
  show "registry_rel ?w (peers_insert ?r l)"
  proof (rule registry_relI)
    show "distinct (map peer_addr (peers_insert ?r l))" using d(1) by (rule distinct_peers_insert)
    show "pw_tcp_writers ?w a = peers_at a (peers_insert ?r l)" for a
      by (simp add: insert_update_def Let_def peers_at_insert d(2))
    show "pw_addrs_by_ip ?w ip =
        (if peers_of_ip ip (peers_insert ?r l) = [] then None
         else Some (map rs_registration (peers_of_ip ip (peers_insert ?r l))))" for ip
    proof (cases "ip = sa_ip ?a")
      case True
      then have "peers_of_ip ip (peers_insert ?r l) =
          peers_of_ip ip (filter (\<lambda>x. peer_addr x \<noteq> ?a) l) @ [?r]"
        by (simp add: peers_insert_def peers_of_ip_def)
      with True show ?thesis
        by (simp add: insert_update_def Let_def d(3) peers_of_ip_filter)
    next
      case False
      then have "peers_of_ip ip (peers_insert ?r l) = peers_of_ip ip l"
        using peers_of_ip_other [of ?a ip l] by (auto simp: peers_insert_def peers_of_ip_def)
      with False show ?thesis by (simp add: insert_update_def Let_def d(3))
    qed
  qed
  show "fst (insert_update g s w) = peers_at ?a l"
    by (simp add: insert_update_def Let_def d(2))
qed

lemma remove_inner_none:
  assumes "registry_rel w l"
    and "\<forall>r. peers_at a l = Some r \<longrightarrow> (\<exists>e. expected = Some e \<and> e \<noteq> wr_writer_id (rs_registration r))"
  shows "remove_tcp_writer_inner a expected w = (None, w)"
  using assms by (auto simp: remove_tcp_writer_inner_def registry_relD(2) split: option.splits)

lemma remove_inner_some:
  assumes "registry_rel w l" and r: "peers_at a l = Some r"
    and e: "\<forall>e. expected = Some e \<longrightarrow> e = wr_writer_id (rs_registration r)"
  shows "fst (remove_tcp_writer_inner a expected w) = Some (rs_sink r)"
    and "registry_rel (snd (remove_tcp_writer_inner a expected w)) (peers_remove a l)"
proof -
  note d = registry_relD [OF assms(1)]
  let ?w = "snd (remove_tcp_writer_inner a expected w)"
  let ?gs = "map rs_registration (peers_of_ip (sa_ip a) l)"
  have rl: "r \<in> set l" "peer_addr r = a" using r d(1) by (simp_all add: peers_at_Some)
  have keep: "filter (\<lambda>g. g \<noteq> rs_registration r) ?gs =
      map rs_registration (peers_of_ip (sa_ip a) (peers_remove a l))"
    using retain_other_registration [OF d(1) rl(1)] rl(2) by (simp add: peers_remove_def peers_of_ip_filter)
  have ne: "peers_of_ip (sa_ip a) l \<noteq> []"
    using rl by (auto simp: peers_of_ip_def filter_empty_conv)
  have pw: "remove_tcp_writer_inner a expected w =
     (Some (rs_sink r), w\<lparr>pw_tcp_writers := (pw_tcp_writers w)(a := None),
        pw_addrs_by_ip := (if peers_of_ip (sa_ip a) (peers_remove a l) = [] then (pw_addrs_by_ip w)(sa_ip a := None)
          else (pw_addrs_by_ip w)(sa_ip a \<mapsto> map rs_registration (peers_of_ip (sa_ip a) (peers_remove a l))))\<rparr>)"
    using e r ne by (auto simp: remove_tcp_writer_inner_def d(2,3) Let_def keep split: option.split)
  show "fst (remove_tcp_writer_inner a expected w) = Some (rs_sink r)" by (simp add: pw)
  show "registry_rel ?w (peers_remove a l)"
  proof (rule registry_relI)
    show "distinct (map peer_addr (peers_remove a l))" using d(1) by (rule distinct_peers_remove)
    show "pw_tcp_writers ?w b = peers_at b (peers_remove a l)" for b
      by (simp add: pw peers_at_remove d(2))
    show "pw_addrs_by_ip ?w ip =
        (if peers_of_ip ip (peers_remove a l) = [] then None
         else Some (map rs_registration (peers_of_ip ip (peers_remove a l))))" for ip
      using peers_of_ip_other [of a ip l] by (cases "ip = sa_ip a") (auto simp: pw d(3) peers_remove_def)
  qed
qed

lemma close_locked_rel: "registry_rel (snd (close_locked order w)) []"
  by (simp add: registry_rel_def close_locked_def peers_at_def peers_of_ip_def)

lemma find_registered_head:
  "writers (wr_remote_addr g) = Some r \<Longrightarrow> rs_registration r = g \<Longrightarrow>
     find_registered writers (g # gs) = Some (rs_sink r)"
  by simp

lemma tcp_sink_by_ip_last:
  assumes "registry_rel w l"
  shows "tcp_sink_by_ip ip w =
    (if peers_of_ip ip l = [] then None else Some (rs_sink (last (peers_of_ip ip l))))"
proof (cases "peers_of_ip ip l = []")
  case True
  then show ?thesis by (simp add: tcp_sink_by_ip_def registry_relD(3) [OF assms])
next
  case False
  note d = registry_relD [OF assms]
  let ?r = "last (peers_of_ip ip l)"
  have "?r \<in> set (peers_of_ip ip l)" using False by (rule last_in_set)
  then have "?r \<in> set l" by (simp add: peers_of_ip_def)
  then have "pw_tcp_writers w (peer_addr ?r) = Some ?r" using d(1) by (simp add: d(2) peers_at_Some)
  moreover have "rev (map rs_registration (peers_of_ip ip l)) =
      rs_registration ?r # rev (map rs_registration (butlast (peers_of_ip ip l)))"
    using False append_butlast_last_id [of "peers_of_ip ip l"]
    by (metis list.simps(9) rev.simps(2) rev_map rev_rev_ident)
  ultimately show ?thesis using False
    by (simp add: tcp_sink_by_ip_def d(3))
qed

section \<open>Generations\<close>

text \<open>
  The contract connection tasks rely on: a registration makes a generation current for its key, and
  a task that unregisters its own generation leaves every other generation alone.
\<close>

datatype ('k, 'v, 'g) registry_op = Add 'k 'v | DropGen 'g

fun registry_apply ::
  "('k \<Rightarrow> 'v \<Rightarrow> 's \<Rightarrow> 'g option \<times> 's) \<Rightarrow> ('g \<Rightarrow> 's \<Rightarrow> 's) \<Rightarrow> ('k, 'v, 'g) registry_op \<Rightarrow> 's \<Rightarrow> 's" where
  "registry_apply add drop_gen (Add k v) s = snd (add k v s)"
| "registry_apply add drop_gen (DropGen g) s = drop_gen g s"

fun registry_touches :: "'k \<Rightarrow> 'g \<Rightarrow> ('k, 'v, 'g) registry_op \<Rightarrow> bool" where
  "registry_touches k g (Add k' v) \<longleftrightarrow> k' = k"
| "registry_touches k g (DropGen g') \<longleftrightarrow> g' = g"

locale generation_registry =
  fixes inv :: "'s \<Rightarrow> bool"
    and current :: "'k \<Rightarrow> 's \<Rightarrow> 'g option"
    and add :: "'k \<Rightarrow> 'v \<Rightarrow> 's \<Rightarrow> 'g option \<times> 's"
    and drop_gen :: "'g \<Rightarrow> 's \<Rightarrow> 's"
  assumes add_inv: "inv s \<Longrightarrow> inv (snd (add k v s))"
    and drop_inv: "inv s \<Longrightarrow> inv (drop_gen g s)"
    and current_add: "inv s \<Longrightarrow> current k' (snd (add k v s)) =
      (if k' = k \<and> fst (add k v s) \<noteq> None then fst (add k v s) else current k' s)"
    and current_drop: "inv s \<Longrightarrow> current k (drop_gen g s) = (if current k s = Some g then None else current k s)"
begin

lemma ops_inv: "inv s \<Longrightarrow> inv (fold (registry_apply add drop_gen) ops s)"
proof (induction ops arbitrary: s)
  case (Cons op ops)
  then show ?case by (cases op) (simp_all add: add_inv drop_inv)
qed simp

lemma survives:
  "inv s \<Longrightarrow> current k s = Some g \<Longrightarrow> \<not> list_ex (registry_touches k g) ops \<Longrightarrow>
     current k (fold (registry_apply add drop_gen) ops s) = Some g"
proof (induction ops arbitrary: s)
  case (Cons op ops)
  have "current k (registry_apply add drop_gen op s) = Some g \<and> inv (registry_apply add drop_gen op s)"
    using Cons.prems by (cases op) (auto simp: add_inv drop_inv current_add current_drop)
  then show ?case using Cons by simp
qed simp

lemma dropped_gone: "inv s \<Longrightarrow> current k (drop_gen g s) \<noteq> Some g"
  by (simp add: current_drop)

end

text \<open>The generation registered for an address.\<close>

definition current_registration :: "socket_addr \<Rightarrow> 'w packet_writer \<Rightarrow> tcp_writer_registration option" where
  "current_registration a w = map_option rs_registration (pw_tcp_writers w a)"

definition registry_inv :: "'w packet_writer \<Rightarrow> bool" where
  "registry_inv w \<longleftrightarrow> (\<exists>l. registry_rel w l)"

lemma insert_tcp_sink_open:
  assumes "\<not> pw_closed w"
  shows "insert_tcp_sink a s w =
    (let g = \<lparr>wr_remote_addr = a, wr_writer_id = pw_next_id w\<rparr>;
         (previous, w'') = insert_update g s (w\<lparr>pw_next_id := pw_next_id w + 1\<rparr>) in
     (Some g, insert_finish previous w''))"
  using assms by (simp add: insert_tcp_sink_def insert_begin_def Let_def)

lemma insert_tcp_sink_closed:
  "pw_closed w \<Longrightarrow> insert_tcp_sink a s w = (None, sink_close s w)"
  by (simp add: insert_tcp_sink_def insert_begin_def)

lemma insert_tcp_sink_rel:
  fixes a :: socket_addr
  assumes "registry_rel w l" "\<not> pw_closed w"
  defines "g \<equiv> \<lparr>wr_remote_addr = a, wr_writer_id = pw_next_id w\<rparr>"
  shows "fst (insert_tcp_sink a s w) = Some g"
    and "registry_rel (snd (insert_tcp_sink a s w)) (peers_insert \<lparr>rs_registration = g, rs_sink = s\<rparr> l)"
proof -
  have "registry_rel (w\<lparr>pw_next_id := pw_next_id w + 1\<rparr>) l"
    using assms(1) by (subst registry_rel_cong) simp_all
  from insert_update_rel(1) [OF this, of g s]
  show "registry_rel (snd (insert_tcp_sink a s w)) (peers_insert \<lparr>rs_registration = g, rs_sink = s\<rparr> l)"
    using assms(2) by (simp add: insert_tcp_sink_open g_def Let_def split_beta)
  show "fst (insert_tcp_sink a s w) = Some g"
    using assms(2) by (simp add: insert_tcp_sink_open g_def Let_def split_beta)
qed

lemma remove_registered_cases:
  assumes "registry_rel w l"
  shows "(\<exists>r. peers_at (wr_remote_addr g) l = Some r \<and> rs_registration r = g \<and>
      remove_registered_tcp_writer g w = sink_close (rs_sink r)
        (snd (remove_tcp_writer_inner (wr_remote_addr g) (Some (wr_writer_id g)) w)) \<and>
      registry_rel (remove_registered_tcp_writer g w) (peers_remove (wr_remote_addr g) l)) \<or>
    map_option rs_registration (peers_at (wr_remote_addr g) l) \<noteq> Some g \<and> remove_registered_tcp_writer g w = w"
proof (cases "\<exists>r. peers_at (wr_remote_addr g) l = Some r \<and> rs_registration r = g")
  case True
  then obtain r where r: "peers_at (wr_remote_addr g) l = Some r" "rs_registration r = g" by blast
  have "\<forall>e. Some (wr_writer_id g) = Some e \<longrightarrow> e = wr_writer_id (rs_registration r)" using r(2) by simp
  note R = remove_inner_some [OF assms r(1) this]
  show ?thesis
    using r R by (cases "remove_tcp_writer_inner (wr_remote_addr g) (Some (wr_writer_id g)) w")
      (auto simp: remove_registered_tcp_writer_def)
next
  case False
  have "wr_writer_id g \<noteq> wr_writer_id (rs_registration r)" if "peers_at (wr_remote_addr g) l = Some r" for r
    using that False peers_at_addr [OF that] by (cases g, cases "rs_registration r") auto
  then have "remove_tcp_writer_inner (wr_remote_addr g) (Some (wr_writer_id g)) w = (None, w)"
    by (intro remove_inner_none [OF assms]) simp
  with False show ?thesis by (auto simp: remove_registered_tcp_writer_def)
qed

lemma current_after_remove:
  assumes l: "registry_rel w l"
  shows "current_registration k (remove_registered_tcp_writer g w) =
      (if current_registration k w = Some g then None else current_registration k w)"
  using remove_registered_cases [OF l, of g]
proof (elim disjE exE conjE)
  fix r
  assume r: "peers_at (wr_remote_addr g) l = Some r" "rs_registration r = g"
    and rel: "registry_rel (remove_registered_tcp_writer g w) (peers_remove (wr_remote_addr g) l)"
  show ?thesis
    using r registry_relD(2) [OF l, of k] registry_relD(2) [OF rel, of k] peers_at_addr [of k l]
    by (auto simp: current_registration_def peers_at_remove)
next
  assume "map_option rs_registration (peers_at (wr_remote_addr g) l) \<noteq> Some g"
    and "remove_registered_tcp_writer g w = w"
  then show ?thesis
    using registry_relD(2) [OF l, of k] peers_at_addr [of k l] by (auto simp: current_registration_def)
qed

interpretation peers: generation_registry registry_inv current_registration insert_tcp_sink remove_registered_tcp_writer
proof
  fix w :: "'w packet_writer" and k k' v and g :: tcp_writer_registration
  assume "registry_inv w"
  then obtain l where l: "registry_rel w l" by (auto simp: registry_inv_def)
  note ins = insert_tcp_sink_rel [OF l, of k v]
  show "registry_inv (snd (insert_tcp_sink k v w))"
    using ins(2) l by (cases "pw_closed w") (auto simp: registry_inv_def insert_tcp_sink_closed)
  show "current_registration k' (snd (insert_tcp_sink k v w)) =
      (if k' = k \<and> fst (insert_tcp_sink k v w) \<noteq> None then fst (insert_tcp_sink k v w) else current_registration k' w)"
    using ins registry_relD(2) [OF ins(2)] registry_relD(2) [OF l]
    by (cases "pw_closed w")
      (auto simp: insert_tcp_sink_closed current_registration_def peers_at_insert sink_close_def cancel_token_def)
  note rem = remove_registered_cases [OF l, of g]
  show "registry_inv (remove_registered_tcp_writer g w)"
    using rem l by (auto simp: registry_inv_def)
  show "current_registration k (remove_registered_tcp_writer g w) =
      (if current_registration k w = Some g then None else current_registration k w)"
    using l by (rule current_after_remove)
qed

section \<open>Direct sinks\<close>

text \<open>
  The history of one direct sink (write half \<open>s\<close>, token \<open>t\<close>): writes, cancellations, and anything
  else that leaves its stream alone and un-cancels nothing. The second index collects the wire
  bytes of the packets whose write returned \<^verbatim>\<open>Ok\<close>. An abandoned write leaves a prefix of its packet
  on the stream.
\<close>

definition abandoned_ok ::
  "packet_encoder \<Rightarrow> ('w \<Rightarrow> u8 list) \<Rightarrow> 'w \<Rightarrow> u8 list \<Rightarrow> 'w direct_outcome \<Rightarrow> bool" where
  "abandoned_ok enc sent stream data outcome \<longleftrightarrow>
     (\<forall>left p bytes. outcome = CancelledDuring left \<longrightarrow> encode_tcp enc data = Some (Inr p) \<longrightarrow> wire p = Some bytes \<longrightarrow>
        (\<exists>k\<le>length bytes. sent left = sent stream @ take k bytes))"

definition encoder_ok :: "packet_encoder \<Rightarrow> bool" where
  "encoder_ok enc \<longleftrightarrow> (\<forall>data p. encode_tcp enc data = Some (Inr p) \<longrightarrow> wire p \<noteq> None)"

definition wire_of :: "packet_encoder \<Rightarrow> u8 list \<Rightarrow> u8 list" where
  "wire_of enc data = (case encode_tcp enc data of Some (Inr p) \<Rightarrow> the (wire p) | _ \<Rightarrow> [])"

inductive direct_history ::
  "packet_encoder \<Rightarrow> 'w async_write \<Rightarrow> (io_error \<Rightarrow> string) \<Rightarrow> ('w \<Rightarrow> u8 list) \<Rightarrow> nat \<Rightarrow> nat \<Rightarrow> 'w packet_writer \<Rightarrow>
   'w packet_writer \<Rightarrow> u8 list list \<Rightarrow> bool"
  for enc aw dbg sent s t w0 where
  start: "direct_history enc aw dbg sent s t w0 w0 []"
| written: "direct_history enc aw dbg sent s t w0 w ds \<Longrightarrow> abandoned_ok enc sent (pw_streams w s) data outcome \<Longrightarrow>
    direct_write enc aw dbg s t data outcome w = Some (Inr u, w') \<Longrightarrow>
    direct_history enc aw dbg sent s t w0 w' (ds @ [data])"
| refused: "direct_history enc aw dbg sent s t w0 w ds \<Longrightarrow> abandoned_ok enc sent (pw_streams w s) data outcome \<Longrightarrow>
    direct_write enc aw dbg s t data outcome w = Some (Inl e, w') \<Longrightarrow>
    direct_history enc aw dbg sent s t w0 w' ds"
| other: "direct_history enc aw dbg sent s t w0 w ds \<Longrightarrow> pw_streams w' s = pw_streams w s \<Longrightarrow>
    pw_cancelled w \<subseteq> pw_cancelled w' \<Longrightarrow> direct_history enc aw dbg sent s t w0 w' ds"

lemma io_hand_log_Inr: "io_hand_log dbg r = Inr u \<longleftrightarrow> r = Inr u"
  by (cases r) (auto simp: io_hand_log_def hand_log_def split_beta)

lemma io_hand_log_ok [simp]: "io_hand_log dbg (Inr u) = Inr u"
  by (simp add: io_hand_log_Inr)

lemma direct_write_spec:
  assumes "async_write_ok aw sent" "encoder_ok enc" "abandoned_ok enc sent (pw_streams w s) data outcome"
    and dw: "direct_write enc aw dbg s t data outcome w = Some (r, w')"
  shows "pw_cancelled w \<subseteq> pw_cancelled w' \<and>
    (t \<in> pw_cancelled w \<longrightarrow> w' = w \<and> (\<forall>u. r \<noteq> Inr u)) \<and>
    ((\<exists>u. r = Inr u) \<longrightarrow> sent (pw_streams w' s) = sent (pw_streams w s) @ wire_of enc data) \<and>
    ((\<forall>u. r \<noteq> Inr u) \<longrightarrow> w' = w \<or>
       t \<in> pw_cancelled w' \<and> (\<exists>k. sent (pw_streams w' s) = sent (pw_streams w s) @ take k (wire_of enc data)))"
proof (cases "t \<in> pw_cancelled w")
  case False
  consider (fail) e where "encode_tcp enc data = Some (Inl e)" | (ok) p where "encode_tcp enc data = Some (Inr p)"
    using dw False by (auto simp: direct_write_def split: option.splits sum.splits)
  then show ?thesis
  proof cases
    case ok
    then obtain bytes where w: "wire p = Some bytes" using assms(2) by (auto simp: encoder_ok_def)
    have we: "wire_of enc data = bytes" using ok w by (simp add: wire_of_def)
    show ?thesis
    proof (cases outcome)
      case CancelledAtLock
      then show ?thesis using dw False ok
        by (auto simp: direct_write_def cancel_token_def intro: exI [of _ 0])
    next
      case (CancelledDuring left)
      then obtain k where "sent left = sent (pw_streams w s) @ take k bytes"
        using assms(3) ok w by (auto simp: abandoned_ok_def)
      then show ?thesis using dw False ok CancelledDuring we
        by (auto simp: direct_write_def cancel_token_def)
    next
      case WriteRuns
      obtain res left where wr: "write_encoded_packet aw p (pw_streams w s) = Some (res, left)"
        and tk: "took_all (sent (pw_streams w s)) bytes res (sent left)"
        using packet_written [OF assms(1) w] by blast
      then show ?thesis using dw False ok WriteRuns we
        by (cases res) (auto simp: direct_write_def cancel_token_def Let_def io_hand_log_Inr split: sum.splits)
    qed
  qed (use dw False in \<open>auto simp: direct_write_def\<close>)
qed (use dw in \<open>auto simp: direct_write_def\<close>)

section \<open>Closing\<close>

text \<open>The errors of the shutdowns of a list of sinks, in order.\<close>

fun shutdown_errors :: "(nat \<Rightarrow> (string \<times> string) + unit) \<Rightarrow> tcp_sink list \<Rightarrow> global_error list" where
  "shutdown_errors shut [] = []"
| "shutdown_errors shut (QueuedSink a q t # sinks) = shutdown_errors shut sinks"
| "shutdown_errors shut (DirectSink a s t # sinks) =
     (case shut s of Inl (dbg, disp) \<Rightarrow> [SysErr disp] | Inr _ \<Rightarrow> []) @ shutdown_errors shut sinks"

lemma cancel_token_merge:
  "(sink_close s w)\<lparr>pw_cancelled := pw_cancelled (sink_close s w) \<union> X\<rparr> =
     w\<lparr>pw_cancelled := pw_cancelled w \<union> insert (sink_token s) X\<rparr>"
  by (simp add: sink_close_def cancel_token_def)

lemma shutdown_closed: "direct_shutdown t r (sink_close (DirectSink a s t) w) =
    (case r of Inl (dbg, disp) \<Rightarrow> Inl (SysErr disp) | Inr u \<Rightarrow> Inr u, sink_close (DirectSink a s t) w)"
  by (auto simp: direct_shutdown_def sink_close_def cancel_token_def hand_log_def from_external_error_def
      split: sum.split)

lemma close_sinks_spec:
  "close_sinks shut sinks err w =
     (case err of Some e \<Rightarrow> Some e
       | None \<Rightarrow> (case shutdown_errors shut sinks of [] \<Rightarrow> None | e # _ \<Rightarrow> Some e),
      w\<lparr>pw_cancelled := pw_cancelled w \<union> sink_token ` set sinks\<rparr>)"
proof (induction sinks arbitrary: err w)
  case (Cons sink sinks)
  show ?case
  proof (cases sink)
    case (QueuedSink a q t)
    show ?thesis
      using Cons cancel_token_merge [of sink w] unfolding QueuedSink by (auto split: option.split)
  next
    case (DirectSink a s t)
    show ?thesis
      using Cons cancel_token_merge [of sink w] unfolding DirectSink
      by (auto simp: shutdown_closed split: sum.splits option.splits)
  qed
qed (simp split: option.split)

section \<open>Properties\<close>

text \<open>C3. The registry of peers, both its maps, implements a list of registrations in the order they
  were made. Registering on an open writer gives a new identifier, replaces the registration of
  the same address and becomes the last of its IP, cancels the sink it replaced and wakes the
  waiters; on a closed writer it only cancels the new sink. Removal by registration deletes exactly
  that generation or does nothing. A lookup by address finds its registration, and a lookup by IP
  the peer of that IP that registered last.\<close>

theorem registry_refines:
  assumes "registry_rel w l"
  shows "(\<not> pw_closed w \<longrightarrow>
      (\<exists>w'. insert_tcp_sink a s w = (Some \<lparr>wr_remote_addr = a, wr_writer_id = pw_next_id w\<rparr>, w') \<and>
         registry_rel w' (peers_insert \<lparr>rs_registration = \<lparr>wr_remote_addr = a, wr_writer_id = pw_next_id w\<rparr>, rs_sink = s\<rparr> l) \<and>
         pw_next_id w' = pw_next_id w + 1 \<and> pw_ready w' = pw_ready w + 1 \<and>
         pw_cancelled w' = pw_cancelled w \<union> (\<lambda>r. sink_token (rs_sink r)) ` set_option (peers_at a l))) \<and>
    (pw_closed w \<longrightarrow> insert_tcp_sink a s w = (None, cancel_token (sink_token s) w)) \<and>
    registry_rel (remove_registered_tcp_writer g w)
      (if map_option rs_registration (peers_at (wr_remote_addr g) l) = Some g
       then peers_remove (wr_remote_addr g) l else l) \<and>
    registry_rel (remove_tcp_writer a w) (peers_remove a l) \<and>
    pw_tcp_sink a w = map_option rs_sink (peers_at a l) \<and>
    tcp_sink_by_ip ip w = (if peers_of_ip ip l = [] then None else Some (rs_sink (last (peers_of_ip ip l))))"
proof (intro conjI impI)
  assume "\<not> pw_closed w"
  note R = insert_tcp_sink_rel [OF assms this, of a s]
  show "\<exists>w'. insert_tcp_sink a s w = (Some \<lparr>wr_remote_addr = a, wr_writer_id = pw_next_id w\<rparr>, w') \<and>
      registry_rel w' (peers_insert \<lparr>rs_registration = \<lparr>wr_remote_addr = a, wr_writer_id = pw_next_id w\<rparr>, rs_sink = s\<rparr> l) \<and>
      pw_next_id w' = pw_next_id w + 1 \<and> pw_ready w' = pw_ready w + 1 \<and>
      pw_cancelled w' = pw_cancelled w \<union> (\<lambda>r. sink_token (rs_sink r)) ` set_option (peers_at a l)"
    using R \<open>\<not> pw_closed w\<close> registry_relD(2) [OF assms, of a]
    by (intro exI [of _ "snd (insert_tcp_sink a s w)"])
      (auto simp: prod_eq_iff insert_tcp_sink_open insert_update_def insert_finish_def sink_close_def
        cancel_token_def Let_def split: option.splits)
next
  assume "pw_closed w"
  then show "insert_tcp_sink a s w = (None, cancel_token (sink_token s) w)"
    by (simp add: insert_tcp_sink_closed sink_close_def)
next
  show "registry_rel (remove_registered_tcp_writer g w)
      (if map_option rs_registration (peers_at (wr_remote_addr g) l) = Some g
       then peers_remove (wr_remote_addr g) l else l)"
    using remove_registered_cases [OF assms, of g] assms by auto
next
  show "registry_rel (remove_tcp_writer a w) (peers_remove a l)"
  proof (cases "peers_at a l")
    case None
    then have "peers_remove a l = l" by (auto simp: peers_at_None peers_remove_def filter_id_conv)
    moreover have "remove_tcp_writer_inner a None w = (None, w)" by (rule remove_inner_none [OF assms]) (simp add: None)
    ultimately show ?thesis using assms by (simp add: remove_tcp_writer_def)
  next
    case (Some r)
    with remove_inner_some [OF assms Some, of None] show ?thesis
      by (cases "remove_tcp_writer_inner a None w") (simp add: remove_tcp_writer_def)
  qed
next
  show "pw_tcp_sink a w = map_option rs_sink (peers_at a l)"
    by (simp add: pw_tcp_sink_def registry_relD(2) [OF assms])
  show "tcp_sink_by_ip ip w = (if peers_of_ip ip l = [] then None else Some (rs_sink (last (peers_of_ip ip l))))"
    by (rule tcp_sink_by_ip_last [OF assms])
qed

text \<open>Two peers of one IP and a reconnection of the first of them.\<close>

definition peer1 :: socket_addr where "peer1 = SaV4 10 5000"
definition peer2 :: socket_addr where "peer2 = SaV4 10 5001"

definition sample_writer :: "u8 list packet_writer" where
  "sample_writer = insert_tcp_writer peer2 2 102 (insert_tcp_writer peer1 1 101
     (packet_writer_new None default_write_mode (\<lambda>_. [])))"

lemma sample_writer_rel:
  "registry_rel sample_writer
     [\<lparr>rs_registration = \<lparr>wr_remote_addr = peer1, wr_writer_id = 1\<rparr>, rs_sink = QueuedSink peer1 1 101\<rparr>,
      \<lparr>rs_registration = \<lparr>wr_remote_addr = peer2, wr_writer_id = 2\<rparr>, rs_sink = QueuedSink peer2 2 102\<rparr>]"
proof -
  let ?w0 = "packet_writer_new None default_write_mode (\<lambda>_. []) :: u8 list packet_writer"
  have "\<not> pw_closed ?w0" "pw_next_id ?w0 = 1" by (simp_all add: packet_writer_new_def)
  from insert_tcp_sink_rel(2) [OF registry_rel_new this(1), of peer1 "QueuedSink peer1 1 101"] this(2)
  have r1: "registry_rel (insert_tcp_writer peer1 1 101 ?w0)
      [\<lparr>rs_registration = \<lparr>wr_remote_addr = peer1, wr_writer_id = 1\<rparr>, rs_sink = QueuedSink peer1 1 101\<rparr>]"
    by (simp add: insert_tcp_writer_def insert_registered_tcp_writer_def peers_insert_def)
  have "\<not> pw_closed (insert_tcp_writer peer1 1 101 ?w0)" "pw_next_id (insert_tcp_writer peer1 1 101 ?w0) = 2"
    by (simp_all add: insert_tcp_writer_def insert_registered_tcp_writer_def insert_tcp_sink_def
        insert_begin_def insert_update_def insert_finish_def packet_writer_new_def Let_def)
  from insert_tcp_sink_rel(2) [OF r1 this(1), of peer2 "QueuedSink peer2 2 102"] this(2)
  show ?thesis
    by (simp add: insert_tcp_writer_def insert_registered_tcp_writer_def peers_insert_def sample_writer_def
        peer1_def peer2_def)
qed

theorem registry_refines_witness:
  "tcp_sink_by_ip (IpV4 10) sample_writer = Some (QueuedSink peer2 2 102) \<and>
   registry_rel (remove_registered_tcp_writer \<lparr>wr_remote_addr = peer2, wr_writer_id = 2\<rparr> sample_writer)
     [\<lparr>rs_registration = \<lparr>wr_remote_addr = peer1, wr_writer_id = 1\<rparr>, rs_sink = QueuedSink peer1 1 101\<rparr>]"
  using registry_refines [OF sample_writer_rel, where ip = "IpV4 10"
      and g = "\<lparr>wr_remote_addr = peer2, wr_writer_id = 2\<rparr>"]
  by (simp add: peers_of_ip_def peers_at_def peers_remove_def peer1_def peer2_def)

text \<open>A registered peer stays registered through any sequence of registrations of other
  addresses and removals of other generations, so a connection task that ends late cannot
  unregister the reconnection that replaced it; and removing its own generation does unregister
  it.\<close>

lemma registration_survives:
  assumes "registry_rel w l" and "current_registration a w = Some g"
    and "\<not> list_ex (registry_touches a g) ops"
  shows "current_registration a (fold (registry_apply insert_tcp_sink remove_registered_tcp_writer) ops w) = Some g \<and>
    current_registration a (remove_registered_tcp_writer g
      (fold (registry_apply insert_tcp_sink remove_registered_tcp_writer) ops w)) \<noteq> Some g"
proof -
  have inv: "registry_inv w" using assms(1) by (auto simp: registry_inv_def)
  show ?thesis
    using peers.survives [OF inv assms(2,3)] peers.dropped_gone [OF peers.ops_inv [OF inv]] by blast
qed

lemma direct_write_encodes:
  "direct_write enc aw dbg s t data outcome w = Some (Inr u, w') \<Longrightarrow> \<exists>p. encode_tcp enc data = Some (Inr p)"
  by (auto simp: direct_write_def split: if_splits option.splits sum.splits)

text \<open>A write of \<open>d\<close> failed after the writes of \<open>ds\<close> had succeeded.\<close>

definition failed_write ::
  "packet_encoder \<Rightarrow> 'w async_write \<Rightarrow> (io_error \<Rightarrow> string) \<Rightarrow> ('w \<Rightarrow> u8 list) \<Rightarrow> nat \<Rightarrow> nat \<Rightarrow> 'w packet_writer \<Rightarrow>
   u8 list list \<Rightarrow> u8 list \<Rightarrow> bool" where
  "failed_write enc aw dbg sent s t w0 ds d \<longleftrightarrow>
     (\<exists>w w' outcome e. direct_history enc aw dbg sent s t w0 w ds \<and> abandoned_ok enc sent (pw_streams w s) d outcome \<and>
        direct_write enc aw dbg s t d outcome w = Some (Inl e, w'))"

lemma direct_history_stream:
  assumes "direct_history enc aw dbg sent s t w0 w ds"
    and "async_write_ok aw sent" and "encoder_ok enc"
  shows "(\<forall>d\<in>set ds. \<exists>p. encode_tcp enc d = Some (Inr p)) \<and>
    (\<exists>torn. sent (pw_streams w s) = sent (pw_streams w0 s) @ concat (map (wire_of enc) ds) @ torn \<and>
      (torn = [] \<or> t \<in> pw_cancelled w \<and> (\<exists>d k. torn = take k (wire_of enc d) \<and> failed_write enc aw dbg sent s t w0 ds d)))"
  using assms(1)
proof (induction rule: direct_history.induct)
  case start
  then show ?case by simp
next
  case (written w ds data outcome u w')
  note S = direct_write_spec [OF assms(2,3) written.hyps(2,3)]
  from S have "t \<notin> pw_cancelled w" by blast
  with written.IH S direct_write_encodes [OF written.hyps(3)] show ?case by auto
next
  case (refused w ds data outcome e w')
  note S = direct_write_spec [OF assms(2,3) refused.hyps(2,3)]
  from refused.IH obtain torn where torn: "sent (pw_streams w s) = sent (pw_streams w0 s) @ concat (map (wire_of enc) ds) @ torn"
    "torn = [] \<or> t \<in> pw_cancelled w \<and> (\<exists>d k. torn = take k (wire_of enc d) \<and> failed_write enc aw dbg sent s t w0 ds d)" by blast
  have "failed_write enc aw dbg sent s t w0 ds data" unfolding failed_write_def using refused.hyps by blast
  then show ?case
  proof (cases "w' = w")
    case True
    with refused.IH show ?thesis by simp
  next
    case False
    with S torn(2) have "torn = []" by blast
    moreover from S False obtain k where "t \<in> pw_cancelled w'" "sent (pw_streams w' s) = sent (pw_streams w s) @ take k (wire_of enc data)"
      by blast
    moreover note fw = \<open>failed_write enc aw dbg sent s t w0 ds data\<close>
    ultimately show ?thesis using torn(1) refused.IH
      by (intro conjI exI [of _ "take k (wire_of enc data)"]) auto
  qed
next
  case (other w ds w')
  then show ?case by auto
qed

text \<open>C4. Stream integrity of a direct sink: after any history of concurrent writes, failures and
  cancellations, the stream holds the bytes of exactly the packets whose write returned success,
  whole and in order, followed by at most one broken packet, of which it holds the first bytes; and if there is a
  broken packet the sink is cancelled, so nothing is ever written after it.\<close>

theorem direct_stream_integrity:
  assumes "direct_history enc aw dbg sent s t w0 w ds"
    and "async_write_ok aw sent" and "encoder_ok enc"
  shows "\<exists>torn. sent (pw_streams w s) = sent (pw_streams w0 s) @ concat (map (wire_of enc) ds) @ torn \<and>
    (torn = [] \<or> t \<in> pw_cancelled w \<and> (\<exists>d k. torn = take k (wire_of enc d)))"
  using direct_history_stream [OF assms] by blast

definition one_direct_write :: "u8 list packet_writer" where
  "one_direct_write = (packet_writer_new None Direct (\<lambda>_. []))\<lparr>pw_streams := (\<lambda>_. [])(1 := [0, 2, 7, 8])\<rparr>"

theorem direct_stream_integrity_witness:
  "\<exists>torn. pw_streams (cancel_token 5 (one_direct_write\<lparr>pw_streams := (\<lambda>_. [])(1 := [0, 2, 7, 8, 0])\<rparr>)) 1 =
     [] @ concat (map (wire_of RawPacketEncoder) [[0, 2, 7, 8]]) @ torn \<and> (torn = [] \<or> 5 \<in> pw_cancelled
       (cancel_token 5 (one_direct_write\<lparr>pw_streams := (\<lambda>_. [])(1 := [0, 2, 7, 8, 0])\<rparr>)) \<and>
       (\<exists>d k. torn = take k (wire_of RawPacketEncoder d)))"
proof -
  let ?w0 = "packet_writer_new None Direct (\<lambda>_. []) :: u8 list packet_writer"
  let ?w2 = "cancel_token 5 (one_direct_write\<lparr>pw_streams := (\<lambda>_. [])(1 := [0, 2, 7, 8, 0])\<rparr>)"
  have enc: "encoder_ok RawPacketEncoder" by (simp add: encoder_ok_def RawPacketEncoder_def wire_def)
  have aw: "async_write_ok three_at_a_time (\<lambda>w. w)"
    by (simp add: async_write_ok_def three_at_a_time_def min_def)
  have "direct_write RawPacketEncoder three_at_a_time snd 1 5 [0, 2, 7, 8] WriteRuns ?w0 = Some (Inr (), one_direct_write)"
    by (simp add: direct_write_def RawPacketEncoder_def write_encoded_packet_def three_at_a_time_def
        packet_writer_new_def one_direct_write_def fun_upd_def)
  then have h1: "direct_history RawPacketEncoder three_at_a_time snd (\<lambda>w. w) 1 5 ?w0 one_direct_write ([] @ [[0, 2, 7, 8]])"
    by (intro direct_history.written [OF direct_history.start]) (simp_all add: abandoned_ok_def)
  have "direct_write RawPacketEncoder three_at_a_time snd 1 5 [0, 1] (CancelledDuring [0, 2, 7, 8, 0]) one_direct_write =
      Some (Inl (sys_err ''tcp sink is closed''), ?w2)"
    by (simp add: direct_write_def RawPacketEncoder_def packet_writer_new_def one_direct_write_def)
  then have "direct_history RawPacketEncoder three_at_a_time snd (\<lambda>w. w) 1 5 ?w0 ?w2 ([] @ [[0, 2, 7, 8]])"
    by (intro direct_history.refused [OF h1])
      (auto simp: abandoned_ok_def one_direct_write_def RawPacketEncoder_def wire_def intro: exI [of _ 1])
  from direct_stream_integrity [OF this aw enc] show ?thesis
    by (simp add: packet_writer_new_def)
qed

text \<open>The property counts writes whose futures run to their end. A caller that drops the future of a write while it is on the stream leaves the sink
  open: the next packet follows the beginning of the abandoned one.\<close>

lemma dropped_write_tears_stream:
  assumes "async_write_ok aw sent" "encoder_ok enc" "t \<notin> pw_cancelled w" "encode_tcp enc data = Some (Inr p)"
    and "direct_write enc aw dbg s t data' WriteRuns (direct_write_dropped enc s t data left w) = Some (Inr u, w')"
  shows "sent (pw_streams w' s) = sent left @ wire_of enc data'"
proof -
  have "abandoned_ok enc sent (pw_streams (direct_write_dropped enc s t data left w) s) data' WriteRuns"
    by (simp add: abandoned_ok_def)
  from direct_write_spec [OF assms(1,2) this assms(5)] assms(3,4) show ?thesis by (auto simp: direct_write_dropped_def)
qed

text \<open>Closing the packet writer cancels every registered sink, empties the registry, releases the
  UDP socket and reports the first failed shutdown; from then on every way to write is refused with
  the closed error and a registration only cancels its sink.\<close>

lemma packet_writer_close_final:
  assumes "packet_writer_close order shut w = (r, w')" and "set order = dom (pw_tcp_writers w)"
  shows "registry_rel w' [] \<and> pw_closed w' \<and> pw_udp_socket w' = None \<and>
    (\<forall>a reg. pw_tcp_writers w a = Some reg \<longrightarrow> sink_token (rs_sink reg) \<in> pw_cancelled w') \<and>
    r = (case shutdown_errors shut (List.map_filter (\<lambda>a. pw_tcp_sink a w) order) of [] \<Rightarrow> Inr () | e # _ \<Rightarrow> Inl e) \<and>
    write_to enc aw dbg env udp data a p w' = Some (Inl packet_writer_closed, w') \<and>
    write_slice_to udp data a p w' = (Inl packet_writer_closed, w') \<and>
    write_tcp_to_ip enc aw dbg env data ip w' = Some (Inl packet_writer_closed, w') \<and>
    try_write_to enc env locked res data a p w' = Some (Inl packet_writer_closed, w') \<and>
    insert_tcp_sink a s w' = (None, sink_close s w')"
proof -
  let ?sinks = "List.map_filter (\<lambda>a. pw_tcp_sink a w) order"
  have w': "w' = w\<lparr>pw_closed := True, pw_tcp_writers := Map.empty, pw_addrs_by_ip := Map.empty,
      pw_cancelled := pw_cancelled w \<union> sink_token ` set ?sinks, pw_udp_socket := None\<rparr>"
    and r: "r = (case shutdown_errors shut ?sinks of [] \<Rightarrow> Inr () | e # _ \<Rightarrow> Inl e)"
    using assms(1) by (auto simp: packet_writer_close_def close_locked_def close_begin_def close_sinks_spec
        pw_tcp_sink_def split: list.splits)
  have "sink_token (rs_sink reg) \<in> pw_cancelled w'" if "pw_tcp_writers w a = Some reg" for a reg
  proof -
    have "a \<in> set order" using assms(2) that by blast
    then have "rs_sink reg \<in> set ?sinks" using that by (force simp: List.map_filter_def pw_tcp_sink_def)
    then show ?thesis by (simp add: w')
  qed
  moreover have "registry_rel w' []" by (simp add: registry_rel_def peers_at_def peers_of_ip_def w')
  moreover have "pw_closed w'" "pw_udp_socket w' = None" by (simp_all add: w')
  ultimately show ?thesis using r
    by (simp add: write_to_def write_slice_to_def write_tcp_to_ip_def try_write_to_def ensure_open_def insert_tcp_sink_closed)
qed

lemma token_later:
  assumes "distinct (map sink_token sinks)" "n < m" "m < length sinks"
  shows "sink_token (sinks ! m) \<notin> sink_token ` set (take (Suc n) sinks)"
proof
  assume "sink_token (sinks ! m) \<in> sink_token ` set (take (Suc n) sinks)"
  then obtain k where "k < Suc n" "k < length sinks" "sink_token (sinks ! m) = sink_token (sinks ! k)"
    by (auto simp: in_set_conv_nth)
  with assms show False by (auto simp: distinct_conv_nth)
qed

text \<open>The close is not safe to drop: the sinks after the one it was waiting for were only in its local list. Closing again finds an empty registry and
  reports success, without the failures seen before, and those sinks are never cancelled.\<close>

lemma dropped_writer_close_forgets:
  assumes "packet_writer_close order' shut' (packet_writer_close_dropped n order shut w) = (r, w')"
    and "sinks = List.map_filter (\<lambda>a. pw_tcp_sink a w) order" "n < m" "m < length sinks"
    and "distinct (map sink_token sinks)" "sink_token (sinks ! m) \<notin> pw_cancelled w"
  shows "r = Inr ()" "sink_token (sinks ! m) \<notin> pw_cancelled w'"
proof -
  let ?d = "packet_writer_close_dropped n order shut w"
  have ls: "close_locked order (close_begin w) = (sinks, (close_begin w)\<lparr>pw_tcp_writers := Map.empty, pw_addrs_by_ip := Map.empty\<rparr>)"
    using assms(2) by (simp add: close_locked_def close_begin_def pw_tcp_sink_def)
  obtain rest where dn: "drop n sinks = sinks ! n # rest" using assms(3,4) by (metis Cons_nth_drop_Suc less_trans)
  have d: "pw_tcp_writers ?d = Map.empty" "pw_cancelled ?d = pw_cancelled w \<union> sink_token ` set (take (Suc n) sinks)"
    using assms(3,4) unfolding packet_writer_close_dropped_def ls Let_def
    by (simp_all add: dn close_sinks_spec sink_close_def cancel_token_def close_begin_def take_Suc_conv_app_nth)
  have "List.map_filter (\<lambda>a. pw_tcp_sink a (close_begin ?d)) order' = []"
    by (induction order') (simp_all add: List.map_filter_simps pw_tcp_sink_def close_begin_def d(1))
  with assms(1) show "r = Inr ()" and w': "sink_token (sinks ! m) \<notin> pw_cancelled w'"
    using d(2) assms(6) token_later [OF assms(5,3,4)]
    by (auto simp: packet_writer_close_def close_locked_def close_begin_def)
qed

end
