(* ===== verification/Packet_Writer_Conc.thy ===== *)
theory Packet_Writer_Conc
  imports Packet_Writer_Inv
begin

text \<open>
  The packet writer under concurrent use: tasks that register and remove peers, a task that closes
  the writer, and a task that waits for the writer of one peer. A step is one of the regions between
  which other tasks can run. A registration passes through the check and the draw of its
  identifier, the acquisition of the registry lock with the second check, the update (the lock is
  held in between, the closed flag is not protected by it), and the wake-up of the waiters after
  the lock is released.
\<close>

datatype wait_phase =
  WaitIdle           \<comment> \<open>before the first lookup of a round\<close>
| WaitArming         \<comment> \<open>first lookup failed, the notification is not armed yet\<close>
| WaitArmed nat      \<comment> \<open>armed when the given number of notifications had been sent\<close>
| WaitAsleep nat     \<comment> \<open>second lookup failed too: waiting for a later notification\<close>
| WaitDone "tcp_sink global_result"

record 'w writer_sys =
  ws_writer :: "'w packet_writer"
  ws_pending :: "(tcp_writer_registration \<times> tcp_sink) list"
  ws_lock :: "(tcp_writer_registration \<times> tcp_sink) option"
  ws_finish :: "registered_tcp_sink option list"
  ws_close_done :: bool
  ws_wait :: wait_phase

inductive writer_step :: "socket_addr \<Rightarrow> 'w writer_sys \<Rightarrow> 'w writer_sys \<Rightarrow> bool" for target where
  register: "insert_begin a s (ws_writer c) = (Some g, w) \<Longrightarrow>
    writer_step target c (c\<lparr>ws_writer := w, ws_pending := (g, s) # ws_pending c\<rparr>)"
| register_closed: "insert_begin a s (ws_writer c) = (None, w) \<Longrightarrow>
    writer_step target c (c\<lparr>ws_writer := w\<rparr>)"
| acquire: "ws_lock c = None \<Longrightarrow> (g, s) \<in> set (ws_pending c) \<Longrightarrow> \<not> pw_closed (ws_writer c) \<Longrightarrow>
    writer_step target c (c\<lparr>ws_pending := remove1 (g, s) (ws_pending c), ws_lock := Some (g, s)\<rparr>)"
| acquire_closed: "ws_lock c = None \<Longrightarrow> (g, s) \<in> set (ws_pending c) \<Longrightarrow> pw_closed (ws_writer c) \<Longrightarrow>
    writer_step target c
      (c\<lparr>ws_pending := remove1 (g, s) (ws_pending c), ws_writer := sink_close s (ws_writer c)\<rparr>)"
| update: "ws_lock c = Some (g, s) \<Longrightarrow> insert_update g s (ws_writer c) = (previous, w) \<Longrightarrow>
    writer_step target c (c\<lparr>ws_lock := None, ws_writer := w, ws_finish := previous # ws_finish c\<rparr>)"
| finish: "previous \<in> set (ws_finish c) \<Longrightarrow>
    writer_step target c
      (c\<lparr>ws_finish := remove1 previous (ws_finish c), ws_writer := insert_finish previous (ws_writer c)\<rparr>)"
| remove: "ws_lock c = None \<Longrightarrow> remove_tcp_writer_inner a expected (ws_writer c) = (removed, w) \<Longrightarrow>
    writer_step target c (c\<lparr>ws_writer := w\<rparr>)"
| close_sink: "writer_step target c (c\<lparr>ws_writer := sink_close s (ws_writer c)\<rparr>)"
| close_flag: "writer_step target c (c\<lparr>ws_writer := close_begin (ws_writer c)\<rparr>)"
| close_clear: "ws_lock c = None \<Longrightarrow> pw_closed (ws_writer c) \<Longrightarrow>
    writer_step target c (c\<lparr>ws_writer := snd (close_locked order (ws_writer c)), ws_close_done := True\<rparr>)"
| wait_open: "ws_wait c = WaitIdle \<Longrightarrow> ensure_open (ws_writer c) = Inl e \<Longrightarrow>
    writer_step target c (c\<lparr>ws_wait := WaitDone (Inl e)\<rparr>)"
| wait_first: "ws_wait c = WaitIdle \<Longrightarrow> ensure_open (ws_writer c) = Inr () \<Longrightarrow>
    writer_step target c (c\<lparr>ws_wait := (case pw_tcp_sink target (ws_writer c) of
      Some s \<Rightarrow> WaitDone (Inr s) | None \<Rightarrow> WaitArming)\<rparr>)"
| wait_arm: "ws_wait c = WaitArming \<Longrightarrow>
    writer_step target c (c\<lparr>ws_wait := WaitArmed (pw_ready (ws_writer c))\<rparr>)"
| wait_second: "ws_wait c = WaitArmed n \<Longrightarrow>
    writer_step target c (c\<lparr>ws_wait := (case pw_tcp_sink target (ws_writer c) of
      Some s \<Rightarrow> WaitDone (Inr s) | None \<Rightarrow> WaitAsleep n)\<rparr>)"
| wait_closed: "ws_wait c = WaitAsleep n \<Longrightarrow> pw_closed (ws_writer c) \<Longrightarrow>
    writer_step target c (c\<lparr>ws_wait := WaitDone (Inl packet_writer_closed)\<rparr>)"
| wait_woken: "ws_wait c = WaitAsleep n \<Longrightarrow> n < pw_ready (ws_writer c) \<Longrightarrow>
    writer_step target c (c\<lparr>ws_wait := WaitIdle\<rparr>)"
| wait_timeout: "ws_wait c = WaitAsleep n \<Longrightarrow>
    writer_step target c (c\<lparr>ws_wait := WaitDone (Inl (sys_err ''tcp writer wait timed out''))\<rparr>)"

text \<open>The start: a new writer and a task about to wait.\<close>

definition writer_sys_init :: "'w packet_writer \<Rightarrow> 'w writer_sys" where
  "writer_sys_init w = \<lparr>ws_writer = w, ws_pending = [], ws_lock = None, ws_finish = [],
     ws_close_done = False, ws_wait = WaitIdle\<rparr>"

section \<open>Invariant\<close>

definition sys_inv :: "socket_addr \<Rightarrow> 'w writer_sys \<Rightarrow> bool" where
  "sys_inv target c \<longleftrightarrow>
     registry_inv (ws_writer c) \<and>
     (ws_close_done c \<longrightarrow> pw_closed (ws_writer c) \<and> ws_lock c = None \<and>
        pw_tcp_writers (ws_writer c) = Map.empty \<and> pw_addrs_by_ip (ws_writer c) = Map.empty) \<and>
     (\<forall>n. ws_wait c = WaitArmed n \<or> ws_wait c = WaitAsleep n \<longrightarrow> n \<le> pw_ready (ws_writer c)) \<and>
     (\<forall>n. ws_wait c = WaitAsleep n \<longrightarrow> has_tcp_writer target (ws_writer c) \<longrightarrow>
        n < pw_ready (ws_writer c) \<or> ws_finish c \<noteq> [])"

text \<open>Steps that touch neither the registry nor the notification count.\<close>

lemma sys_inv_quiet:
  assumes "sys_inv target c"
    and "pw_tcp_writers w = pw_tcp_writers (ws_writer c)" "pw_addrs_by_ip w = pw_addrs_by_ip (ws_writer c)"
    and "pw_ready w = pw_ready (ws_writer c)" "pw_closed (ws_writer c) \<longrightarrow> pw_closed w"
  shows "sys_inv target (c\<lparr>ws_writer := w\<rparr>)"
  using assms registry_rel_cong [of w "ws_writer c"]
  by (auto simp: sys_inv_def registry_inv_def has_tcp_writer_def)

lemma insert_update_fields:
  assumes "insert_update g s w = (p, w')"
  shows "pw_closed w' = pw_closed w" "pw_ready w' = pw_ready w"
  using assms by (auto simp: insert_update_def Let_def)

lemma insert_finish_fields:
  "pw_closed (insert_finish p w) = pw_closed w" "pw_ready (insert_finish p w) = pw_ready w + 1"
  "pw_tcp_writers (insert_finish p w) = pw_tcp_writers w" "pw_addrs_by_ip (insert_finish p w) = pw_addrs_by_ip w"
  by (auto simp: insert_finish_def Let_def sink_close_def cancel_token_def split: option.split)

lemma remove_inner_fields:
  assumes "remove_tcp_writer_inner a e w = (r, w')"
  shows "pw_closed w' = pw_closed w" "pw_ready w' = pw_ready w"
    "pw_tcp_writers w' b = pw_tcp_writers w b \<or> pw_tcp_writers w' b = None"
    "pw_tcp_writers w = Map.empty \<Longrightarrow> w' = w"
  using assms by (auto simp: remove_tcp_writer_inner_def Let_def split: option.splits if_splits)

lemma remove_inner_inv:
  assumes "registry_inv w" "remove_tcp_writer_inner a e w = (r, w')"
  shows "registry_inv w'"
proof -
  from assms(1) obtain l where l: "registry_rel w l" by (auto simp: registry_inv_def)
  show ?thesis
  proof (cases "\<exists>x. peers_at a l = Some x \<and> (\<forall>i. e = Some i \<longrightarrow> i = wr_writer_id (rs_registration x))")
    case True
    then obtain x where "peers_at a l = Some x" "\<forall>i. e = Some i \<longrightarrow> i = wr_writer_id (rs_registration x)" by blast
    from remove_inner_some(2) [OF l this] assms(2) show ?thesis by (auto simp: registry_inv_def)
  next
    case False
    then have "remove_tcp_writer_inner a e w = (None, w)" by (intro remove_inner_none [OF l]) auto
    with assms show ?thesis by simp
  qed
qed

lemma update_inv:
  assumes "registry_inv w" "insert_update g s w = (p, w')"
  shows "registry_inv w'"
  using assms insert_update_rel(1) [of w _ g s] by (auto simp: registry_inv_def)

lemma writer_step_inv:
  assumes "sys_inv target c" "writer_step target c c'"
  shows "sys_inv target c'"
  using assms(2,1)
proof (cases rule: writer_step.cases)
  case (update g s previous w)
  then show ?thesis using assms(1) update_inv insert_update_fields [OF update(3)]
    by (auto simp: sys_inv_def)
next
  case (finish previous)
  note f = insert_finish_fields [of previous "ws_writer c"]
  have "registry_inv (insert_finish previous (ws_writer c))"
    using assms(1) by (simp add: sys_inv_def registry_inv_def)
  then show ?thesis using assms(1) finish f by (auto simp: sys_inv_def has_tcp_writer_def)
next
  case (remove a expected removed w)
  note f = remove_inner_fields [OF remove(3)]
  have "registry_inv w" using assms(1) remove remove_inner_inv by (auto simp: sys_inv_def)
  then show ?thesis using assms(1) f(1,2,4) f(3) [of target] remove
    by (auto simp: sys_inv_def has_tcp_writer_def)
next
  case (close_clear order)
  then show ?thesis using assms(1) close_locked_rel [of order "ws_writer c"]
    by (auto simp: sys_inv_def registry_inv_def close_locked_def has_tcp_writer_def)
next
  case (register a s g w)
  then have "sys_inv target (c\<lparr>ws_writer := w\<rparr>)"
    by (intro sys_inv_quiet [OF assms(1)]) (auto simp: insert_begin_def split: if_splits)
  then show ?thesis using register(1) by (simp add: sys_inv_def)
next
  case (register_closed a s w)
  then show ?thesis
    by (auto intro!: sys_inv_quiet [OF assms(1)] simp: insert_begin_def sink_close_def cancel_token_def split: if_splits)
next
  case (acquire_closed g s)
  have "sys_inv target (c\<lparr>ws_writer := sink_close s (ws_writer c)\<rparr>)"
    by (rule sys_inv_quiet [OF assms(1)]) (simp_all add: sink_close_def cancel_token_def)
  then show ?thesis using acquire_closed(1) by (simp add: sys_inv_def)
next
  case (close_sink s)
  then show ?thesis
    by (auto intro!: sys_inv_quiet [OF assms(1)] simp: sink_close_def cancel_token_def)
next
  case close_flag
  then show ?thesis
    by (auto intro!: sys_inv_quiet [OF assms(1)] simp: close_begin_def)
next
  case (wait_second n)
  then show ?thesis using assms(1)
    by (auto simp: sys_inv_def has_tcp_writer_def pw_tcp_sink_def split: option.splits)
qed (use assms(1) in \<open>auto simp: sys_inv_def split: option.splits\<close>)

interpretation writer_sys: inductive_system "writer_step target" "sys_inv target" for target
  by unfold_locales (rule writer_step_inv)

lemma sys_inv_init: "registry_inv w \<Longrightarrow> sys_inv target (writer_sys_init w)"
  by (simp add: sys_inv_def writer_sys_init_def)

lemma registry_inv_new: "registry_inv (packet_writer_new udp mode streams)"
  using registry_rel_new by (auto simp: registry_inv_def)

section \<open>Properties\<close>

text \<open>C25. Under every interleaving of registrations, removals and closing, the registry stays
  consistent, and once the close has emptied it, it stays empty and the writer stays closed: a
  registration that passed its first check before the close can no longer get in.\<close>

theorem closed_writer_stays_empty:
  assumes "(writer_step target)\<^sup>*\<^sup>* (writer_sys_init (packet_writer_new udp mode streams)) c"
  shows "(\<exists>l. registry_rel (ws_writer c) l) \<and>
    (ws_close_done c \<longrightarrow> pw_closed (ws_writer c) \<and> registry_rel (ws_writer c) [] \<and>
       (\<forall>a. \<not> has_tcp_writer a (ws_writer c)) \<and> ws_lock c = None)"
proof -
  have "sys_inv target c"
    by (rule writer_sys.reachable_inv [OF assms sys_inv_init [OF registry_inv_new]])
  then show ?thesis
    by (auto simp: sys_inv_def registry_inv_def registry_rel_def has_tcp_writer_def peers_at_def peers_of_ip_def)
qed

text \<open>C12. No lost wake-up: whenever the task that waits for a peer is asleep although the peer's
  writer is registered, either a notification later than the one it armed has been sent, so it can
  wake up, or the registering task still has its notification ahead of it.\<close>

theorem wait_no_lost_wakeup:
  assumes "(writer_step target)\<^sup>*\<^sup>* (writer_sys_init (packet_writer_new udp mode streams)) c"
    and "ws_wait c = WaitAsleep n" and "has_tcp_writer target (ws_writer c)"
  shows "writer_step target c (c\<lparr>ws_wait := WaitIdle\<rparr>) \<or>
    (\<exists>previous c'. previous \<in> set (ws_finish c) \<and> writer_step target c c' \<and>
       c' = c\<lparr>ws_finish := remove1 previous (ws_finish c), ws_writer := insert_finish previous (ws_writer c)\<rparr>)"
proof -
  have "sys_inv target c"
    by (rule writer_sys.reachable_inv [OF assms(1) sys_inv_init [OF registry_inv_new]])
  with assms(2,3) consider "n < pw_ready (ws_writer c)" | "ws_finish c \<noteq> []"
    by (auto simp: sys_inv_def)
  then show ?thesis
  proof cases
    case 1
    with assms(2) show ?thesis by (blast intro: writer_step.wait_woken)
  next
    case 2
    then obtain p where "p \<in> set (ws_finish c)" by (cases "ws_finish c") auto
    then show ?thesis using writer_step.finish [of p c] by blast
  qed
qed

text \<open>A run in which the task falls asleep and the peer registers afterwards.\<close>

definition asleep_sys :: "u8 list writer_sys" where
  "asleep_sys = (writer_sys_init (packet_writer_new None Direct (\<lambda>_. [])))\<lparr>ws_wait := WaitAsleep 0\<rparr>"

definition registered_sys :: "u8 list writer_sys" where
  "registered_sys =
     (let s = QueuedSink peer1 1 101; (g, w) = insert_begin peer1 s (ws_writer asleep_sys);
          (p, w') = insert_update (the g) s w in
      asleep_sys\<lparr>ws_writer := w', ws_finish := [p]\<rparr>)"

lemma asleep_reachable:
  "(writer_step peer1)\<^sup>*\<^sup>* (writer_sys_init (packet_writer_new None Direct (\<lambda>_. []))) asleep_sys"
proof -
  let ?c0 = "writer_sys_init (packet_writer_new None Direct (\<lambda>_. [])) :: u8 list writer_sys"
  have "writer_step peer1 ?c0 (?c0\<lparr>ws_wait := WaitArming\<rparr>)"
    using writer_step.wait_first [of ?c0 peer1]
    by (simp add: writer_sys_init_def ensure_open_def packet_writer_new_def pw_tcp_sink_def)
  moreover have "writer_step peer1 (?c0\<lparr>ws_wait := WaitArming\<rparr>) (?c0\<lparr>ws_wait := WaitArmed 0\<rparr>)"
    using writer_step.wait_arm [of "?c0\<lparr>ws_wait := WaitArming\<rparr>" peer1]
    by (simp add: writer_sys_init_def packet_writer_new_def)
  moreover have "writer_step peer1 (?c0\<lparr>ws_wait := WaitArmed 0\<rparr>) asleep_sys"
    using writer_step.wait_second [of "?c0\<lparr>ws_wait := WaitArmed 0\<rparr>" 0 peer1]
    by (simp add: writer_sys_init_def packet_writer_new_def pw_tcp_sink_def asleep_sys_def)
  ultimately show ?thesis by (meson converse_rtranclp_into_rtranclp rtranclp.rtrancl_refl)
qed

lemma registered_reachable:
  "(writer_step peer1)\<^sup>*\<^sup>* (writer_sys_init (packet_writer_new None Direct (\<lambda>_. []))) registered_sys"
proof -
  let ?s = "QueuedSink peer1 1 101" and ?g = "\<lparr>wr_remote_addr = peer1, wr_writer_id = 1\<rparr>"
  let ?w = "(ws_writer asleep_sys)\<lparr>pw_next_id := 2\<rparr>"
  have "insert_begin peer1 ?s (ws_writer asleep_sys) = (Some ?g, ?w)"
    by (simp add: insert_begin_def asleep_sys_def writer_sys_init_def packet_writer_new_def)
  note s1 = writer_step.register [OF this, of peer1]
  let ?c1 = "asleep_sys\<lparr>ws_writer := ?w, ws_pending := (?g, ?s) # ws_pending asleep_sys\<rparr>"
  have s2: "writer_step peer1 ?c1 (?c1\<lparr>ws_pending := remove1 (?g, ?s) (ws_pending ?c1), ws_lock := Some (?g, ?s)\<rparr>)"
    by (rule writer_step.acquire) (simp_all add: asleep_sys_def writer_sys_init_def packet_writer_new_def)
  let ?c2 = "?c1\<lparr>ws_pending := remove1 (?g, ?s) (ws_pending ?c1), ws_lock := Some (?g, ?s)\<rparr>"
  have s3: "writer_step peer1 ?c2 (?c2\<lparr>ws_lock := None, ws_writer := snd (insert_update ?g ?s ?w),
      ws_finish := fst (insert_update ?g ?s ?w) # ws_finish ?c2\<rparr>)"
    by (rule writer_step.update [of _ ?g ?s]) simp_all
  have "?c2\<lparr>ws_lock := None, ws_writer := snd (insert_update ?g ?s ?w),
      ws_finish := fst (insert_update ?g ?s ?w) # ws_finish ?c2\<rparr> = registered_sys"
    by (simp add: registered_sys_def Let_def split_beta insert_begin_def asleep_sys_def writer_sys_init_def
        packet_writer_new_def)
  with asleep_reachable s1 s2 s3 show ?thesis
    by (metis (no_types, lifting) rtranclp.rtrancl_into_rtrancl)
qed

theorem wait_no_lost_wakeup_witness:
  "writer_step peer1 registered_sys (registered_sys\<lparr>ws_wait := WaitIdle\<rparr>) \<or>
   (\<exists>previous c'. previous \<in> set (ws_finish registered_sys) \<and> writer_step peer1 registered_sys c' \<and>
     c' = registered_sys\<lparr>ws_finish := remove1 previous (ws_finish registered_sys),
       ws_writer := insert_finish previous (ws_writer registered_sys)\<rparr>)"
proof (rule wait_no_lost_wakeup [OF registered_reachable])
  show "ws_wait registered_sys = WaitAsleep 0"
    by (simp add: registered_sys_def asleep_sys_def Let_def split_beta)
  show "has_tcp_writer peer1 (ws_writer registered_sys)"
    by (simp add: registered_sys_def Let_def split_beta insert_update_def insert_begin_def has_tcp_writer_def
        asleep_sys_def writer_sys_init_def packet_writer_new_def)
qed

text \<open>The same run, closed after the registration.\<close>

definition closed_sys :: "u8 list writer_sys" where
  "closed_sys = registered_sys\<lparr>ws_writer := snd (close_locked [peer1] (close_begin (ws_writer registered_sys))),
     ws_close_done := True\<rparr>"

lemma closed_reachable:
  "(writer_step peer1)\<^sup>*\<^sup>* (writer_sys_init (packet_writer_new None Direct (\<lambda>_. []))) closed_sys"
proof -
  let ?c = "registered_sys\<lparr>ws_writer := close_begin (ws_writer registered_sys)\<rparr>"
  have "writer_step peer1 registered_sys ?c" by (rule writer_step.close_flag)
  moreover have "writer_step peer1 ?c (?c\<lparr>ws_writer := snd (close_locked [peer1] (ws_writer ?c)), ws_close_done := True\<rparr>)"
    by (rule writer_step.close_clear)
      (simp_all add: close_begin_def registered_sys_def asleep_sys_def writer_sys_init_def Let_def split_beta)
  ultimately show ?thesis using registered_reachable
    by (simp add: closed_sys_def rtranclp.rtrancl_into_rtrancl)
qed

theorem closed_writer_stays_empty_witness:
  "registry_rel (ws_writer closed_sys) [] \<and> pw_closed (ws_writer closed_sys)"
proof -
  have "ws_close_done closed_sys" by (simp add: closed_sys_def)
  with closed_writer_stays_empty [OF closed_reachable] show ?thesis by blast
qed

end
