(* ===== verification/Tcp_Connection.thy ===== *)
theory Tcp_Connection
  imports Packet_Writer_Inv
begin

text \<open>
  The tasks of one connection in \<^verbatim>\<open>base/src/net/rw.rs\<close>: the read loops (\<^verbatim>\<open>handle_tcp\<close>,
  \<^verbatim>\<open>handle_tcp_owned\<close>, \<^verbatim>\<open>handle_tcp_read_owned_half\<close>), the write loop (\<^verbatim>\<open>handle_tcp_write\<close>), the
  connection task that joins them (\<^verbatim>\<open>run_managed_tcp_connection\<close>) and the datagram loops.

  The dispatcher and the splitter belong to the application: they are the fields of a \<open>handlers\<close>
  argument, with a dispatcher state \<open>'d\<close> and a splitter state \<open>'s\<close>. What a \<^verbatim>\<open>select!\<close> resolves to
  is the next event of the loop.
\<close>

section \<open>Application code\<close>

record ('d, 's) handlers =
  hd_dispatch :: "u8 list \<Rightarrow> socket_addr \<Rightarrow> protocol \<Rightarrow> 'd \<Rightarrow> unit global_result \<times> 'd"
  hd_close :: "socket_addr \<Rightarrow> protocol \<Rightarrow> 'd \<Rightarrow> unit global_result \<times> 'd"
  hd_feed :: "'s \<Rightarrow> u8 list \<Rightarrow> (u8 list \<Rightarrow> 'd \<Rightarrow> unit global_result \<times> 'd) \<Rightarrow> 'd \<Rightarrow>
    unit global_result \<times> u8 list \<times> 's \<times> 'd"
  hd_splitter :: 's

section \<open>The read loop\<close>

datatype read_event = Received "u8 list io_result" | ReadCancelled

datatype loop_exit = LoopBreak | LoopError global_error

record ('d, 's) reader =
  rd_buf :: bytes_mut
  rd_splitter :: 's
  rd_disp :: 'd

definition reader_init :: "('d, 's) handlers \<Rightarrow> 'd \<Rightarrow> ('d, 's) reader" where
  "reader_init h d = \<lparr>rd_buf = \<lparr>bm_bytes = [], bm_cap = TCP_READ_BUF_SIZE\<rparr>, rd_splitter = hd_splitter h, rd_disp = d\<rparr>"

text \<open>One turn of the loop; \<open>reserve\<close> is the buffer crate's.\<close>

definition read_turn ::
  "('d, 's) handlers \<Rightarrow> (nat \<Rightarrow> nat \<Rightarrow> nat \<Rightarrow> nat) \<Rightarrow> socket_addr \<Rightarrow> read_event \<Rightarrow> ('d, 's) reader \<Rightarrow>
   loop_exit option \<times> ('d, 's) reader" where
  "read_turn h reserve a ev r =
     (case ev of
        ReadCancelled \<Rightarrow> (Some LoopBreak, r)
      | Received recv \<Rightarrow>
          (case tcp_stream_read_buf reserve recv (rd_buf r) of
             (Inl e, buf) \<Rightarrow> (Some LoopBreak, r\<lparr>rd_buf := buf\<rparr>)
           | (Inr n, buf) \<Rightarrow>
               (if n = 0 \<or> length (bm_bytes buf) > MAX_BUF_SIZE then (Some LoopBreak, r\<lparr>rd_buf := buf\<rparr>)
                else (case hd_feed h (rd_splitter r) (bm_bytes buf) (\<lambda>pkt. hd_dispatch h pkt a ProtoTCP) (rd_disp r) of
                  (res, rest, sp, d) \<Rightarrow>
                    (case res of Inl e \<Rightarrow> Some (LoopError e) | Inr _ \<Rightarrow> None,
                     \<lparr>rd_buf = buf\<lparr>bm_bytes := rest\<rparr>, rd_splitter = sp, rd_disp = d\<rparr>)))))"

text \<open>The loop over the events seen so far; \<open>None\<close> while it is still reading.\<close>

fun read_loop ::
  "('d, 's) handlers \<Rightarrow> (nat \<Rightarrow> nat \<Rightarrow> nat \<Rightarrow> nat) \<Rightarrow> socket_addr \<Rightarrow> read_event list \<Rightarrow> ('d, 's) reader \<Rightarrow>
   loop_exit option \<times> ('d, 's) reader" where
  "read_loop h reserve a [] r = (None, r)"
| "read_loop h reserve a (ev # evs) r =
     (case read_turn h reserve a ev r of
        (None, r') \<Rightarrow> read_loop h reserve a evs r'
      | (Some ex, r') \<Rightarrow> (Some ex, r'))"

text \<open>After the loop: an error of the splitter or the dispatcher returns at once; otherwise the
  dispatcher is told that the peer is gone.\<close>

definition read_finish ::
  "('d, 's) handlers \<Rightarrow> socket_addr \<Rightarrow> loop_exit \<Rightarrow> 'd \<Rightarrow> unit global_result \<times> 'd" where
  "read_finish h a ex d = (case ex of LoopError e \<Rightarrow> (Inl e, d) | LoopBreak \<Rightarrow> hd_close h a ProtoTCP d)"

definition handle_tcp ::
  "('d, 's) handlers \<Rightarrow> (nat \<Rightarrow> nat \<Rightarrow> nat \<Rightarrow> nat) \<Rightarrow> socket_addr \<Rightarrow> read_event list \<Rightarrow> 'd \<Rightarrow>
   unit global_result option \<times> 'd" where
  "handle_tcp h reserve a evs d =
     (case read_loop h reserve a evs (reader_init h d) of
        (None, r) \<Rightarrow> (None, rd_disp r)
      | (Some ex, r) \<Rightarrow> (let (res, d') = read_finish h a ex (rd_disp r) in (Some res, d')))"

definition handle_tcp_owned ::
  "('d, 's) handlers \<Rightarrow> (nat \<Rightarrow> nat \<Rightarrow> nat \<Rightarrow> nat) \<Rightarrow> socket_addr \<Rightarrow> read_event list \<Rightarrow> 'd \<Rightarrow>
   unit global_result option \<times> 'd" where
  "handle_tcp_owned h reserve a evs d =
     (case read_loop h reserve a evs (reader_init h d) of
        (None, r) \<Rightarrow> (None, rd_disp r)
      | (Some ex, r) \<Rightarrow> (let (res, d') = read_finish h a ex (rd_disp r) in (Some res, d')))"

text \<open>The read half of a managed connection unregisters its writer first.\<close>

definition read_half_finish ::
  "('d, 's) handlers \<Rightarrow> tcp_writer_registration \<Rightarrow> loop_exit \<Rightarrow> 'd \<Rightarrow> 'w packet_writer \<Rightarrow>
   unit global_result \<times> 'd \<times> 'w packet_writer" where
  "read_half_finish h g ex d w =
     (case ex of
        LoopError e \<Rightarrow> (Inl e, d, w)
      | LoopBreak \<Rightarrow>
          (let w' = remove_registered_tcp_writer g w; (res, d') = hd_close h (wr_remote_addr g) ProtoTCP d in
           (res, d', w')))"

definition handle_tcp_read_owned_half ::
  "('d, 's) handlers \<Rightarrow> (nat \<Rightarrow> nat \<Rightarrow> nat \<Rightarrow> nat) \<Rightarrow> tcp_writer_registration \<Rightarrow> read_event list \<Rightarrow> 'd \<Rightarrow>
   'w packet_writer \<Rightarrow> unit global_result option \<times> 'd \<times> 'w packet_writer" where
  "handle_tcp_read_owned_half h reserve g evs d w =
     (case read_loop h reserve (wr_remote_addr g) evs (reader_init h d) of
        (None, r) \<Rightarrow> (None, rd_disp r, w)
      | (Some ex, r) \<Rightarrow> (let (res, d', w') = read_half_finish h g ex (rd_disp r) w in (Some res, d', w')))"

section \<open>The write loop\<close>

text \<open>
  What the write half's \<^verbatim>\<open>select!\<close> resolves to: the next packet of the queue, the end of the queue
  (all senders dropped) or the cancellation. One turn: \<open>Some None\<close> goes on, \<open>Some (Some ())\<close> leaves
  the loop, \<open>None\<close> is a panic.
\<close>

datatype write_event = NextPacket encoded_packet | QueueEnded | WriteCancelled

definition write_turn ::
  "'w async_write \<Rightarrow> write_event \<Rightarrow> 'w \<Rightarrow> (bool \<times> 'w) option" where
  "write_turn aw ev s =
     (case ev of
        NextPacket p \<Rightarrow>
          map_option (\<lambda>(r, s'). (case r of Inl e \<Rightarrow> False | Inr _ \<Rightarrow> True, s')) (write_encoded_packet aw p s)
      | QueueEnded \<Rightarrow> Some (False, s)
      | WriteCancelled \<Rightarrow> Some (False, s))"

text \<open>After the loop: cancel, unregister, shut the stream down.\<close>

definition write_half_finish ::
  "nat \<Rightarrow> tcp_writer_registration \<Rightarrow> (string \<times> string) + unit \<Rightarrow> 'w packet_writer \<Rightarrow>
   unit global_result \<times> 'w packet_writer" where
  "write_half_finish t g shutdown w =
     (snd (hand_log shutdown), remove_registered_tcp_writer g (cancel_token t w))"

section \<open>The connection task\<close>

text \<open>
  A queued connection runs both halves concurrently. \<open>cn_taken\<close> counts the packets the write half
  has taken from the queue \<open>q\<close>; \<open>others\<close> is whatever other tasks do to the shared writer, which
  never registers this connection's generation again and only queues packets that have a wire form; \<open>cn_read\<close> and \<open>cn_write\<close> are \<open>None\<close> while the half runs and its
  result afterwards. The index \<open>q\<close> of the write half's stream in \<open>pw_streams\<close> is the queue's.
\<close>

record ('w, 'd, 's) conn =
  cn_writer :: "'w packet_writer"
  cn_reader :: "('d, 's) reader"
  cn_taken :: nat
  cn_read :: "unit global_result option"
  cn_write :: "unit global_result option"

definition conn_start ::
  "('d, 's) handlers \<Rightarrow> socket_addr \<Rightarrow> nat \<Rightarrow> nat \<Rightarrow> 'd \<Rightarrow> 'w packet_writer \<Rightarrow>
   global_error + tcp_writer_registration \<times> ('w, 'd, 's) conn" where
  "conn_start h a q t d w =
     (case insert_registered_tcp_writer a q t w of
        (None, w') \<Rightarrow> Inl packet_writer_closed
      | (Some g, w') \<Rightarrow>
          Inr (g, \<lparr>cn_writer = w', cn_reader = reader_init h d, cn_taken = 0, cn_read = None,
                   cn_write = None\<rparr>))"

inductive conn_step ::
  "('d, 's) handlers \<Rightarrow> (nat \<Rightarrow> nat \<Rightarrow> nat \<Rightarrow> nat) \<Rightarrow> 'w async_write \<Rightarrow> tcp_writer_registration \<Rightarrow> nat \<Rightarrow> nat \<Rightarrow>
   ('w, 'd, 's) conn \<Rightarrow> ('w, 'd, 's) conn \<Rightarrow> bool"
  for h reserve aw g q t where
  read_more: "cn_read c = None \<Longrightarrow> (ev = ReadCancelled \<longrightarrow> t \<in> pw_cancelled (cn_writer c)) \<Longrightarrow>
    read_turn h reserve (wr_remote_addr g) ev (cn_reader c) = (None, r) \<Longrightarrow>
    conn_step h reserve aw g q t c (c\<lparr>cn_reader := r\<rparr>)"
| read_exit: "cn_read c = None \<Longrightarrow> (ev = ReadCancelled \<longrightarrow> t \<in> pw_cancelled (cn_writer c)) \<Longrightarrow>
    read_turn h reserve (wr_remote_addr g) ev (cn_reader c) = (Some ex, r) \<Longrightarrow>
    read_half_finish h g ex (rd_disp r) (cn_writer c) = (res, d, w) \<Longrightarrow>
    conn_step h reserve aw g q t c
      (c\<lparr>cn_reader := r\<lparr>rd_disp := d\<rparr>, cn_writer := w, cn_read := Some res\<rparr>)"
| write_more: "cn_write c = None \<Longrightarrow> cn_taken c < length (pw_queues (cn_writer c) q) \<Longrightarrow>
    write_turn aw (NextPacket (pw_queues (cn_writer c) q ! cn_taken c)) (pw_streams (cn_writer c) q) = Some (True, s) \<Longrightarrow>
    conn_step h reserve aw g q t c
      (c\<lparr>cn_taken := cn_taken c + 1,
         cn_writer := (cn_writer c)\<lparr>pw_streams := (pw_streams (cn_writer c))(q := s)\<rparr>\<rparr>)"
| write_exit: "cn_write c = None \<Longrightarrow>
    (case ev of NextPacket p \<Rightarrow> cn_taken c < length (pw_queues (cn_writer c) q) \<and> p = pw_queues (cn_writer c) q ! cn_taken c
     | QueueEnded \<Rightarrow> cn_taken c = length (pw_queues (cn_writer c) q)
     | WriteCancelled \<Rightarrow> t \<in> pw_cancelled (cn_writer c)) \<Longrightarrow>
    write_turn aw ev (pw_streams (cn_writer c) q) = Some (False, s) \<Longrightarrow>
    write_half_finish t g shutdown ((cn_writer c)\<lparr>pw_streams := (pw_streams (cn_writer c))(q := s)\<rparr>) = (res, w) \<Longrightarrow>
    conn_step h reserve aw g q t c (c\<lparr>cn_writer := w, cn_write := Some res\<rparr>)"
| others: "registry_inv (cn_writer c) \<longrightarrow> registry_inv w \<Longrightarrow> pw_cancelled (cn_writer c) \<subseteq> pw_cancelled w \<Longrightarrow>
    pw_streams w q = pw_streams (cn_writer c) q \<Longrightarrow> (\<exists>ps. pw_queues w q = pw_queues (cn_writer c) q @ ps \<and> (\<forall>p\<in>set ps. wire p \<noteq> None)) \<Longrightarrow>
    (\<forall>r. pw_tcp_writers w (wr_remote_addr g) = Some r \<longrightarrow> rs_registration r = g \<longrightarrow>
       pw_tcp_writers (cn_writer c) (wr_remote_addr g) = Some r) \<Longrightarrow>
    conn_step h reserve aw g q t c (c\<lparr>cn_writer := w\<rparr>)"

text \<open>The task's result once both halves are done: the read half's error first.\<close>

definition conn_result :: "('w, 'd, 's) conn \<Rightarrow> unit global_result option" where
  "conn_result c =
     (case (cn_read c, cn_write c) of
        (Some (Inl e), Some _) \<Rightarrow> Some (Inl e)
      | (Some (Inr _), Some r) \<Rightarrow> Some r
      | _ \<Rightarrow> None)"

text \<open>A direct connection only runs the read half.\<close>

definition run_direct_connection ::
  "('d, 's) handlers \<Rightarrow> (nat \<Rightarrow> nat \<Rightarrow> nat \<Rightarrow> nat) \<Rightarrow> socket_addr \<Rightarrow> nat \<Rightarrow> nat \<Rightarrow> read_event list \<Rightarrow> 'd \<Rightarrow>
   'w packet_writer \<Rightarrow> unit global_result option \<times> 'd \<times> 'w packet_writer" where
  "run_direct_connection h reserve a s t evs d w =
     (case insert_registered_direct_tcp_writer a s t w of
        (None, w') \<Rightarrow> (Some (Inl packet_writer_closed), d, w')
      | (Some g, w') \<Rightarrow> handle_tcp_read_owned_half h reserve g evs d w')"

section \<open>Datagrams\<close>

record task_report =
  tr_completed :: nat
  tr_cancelled :: nat
  tr_failed :: nat
  tr_panicked :: nat
  tr_remaining :: nat

definition report_default :: task_report where
  "report_default = \<lparr>tr_completed = 0, tr_cancelled = 0, tr_failed = 0, tr_panicked = 0, tr_remaining = 0\<rparr>"

text \<open>\<open>UdpReceived (Inr (bytes, addr))\<close>: the datagram that \<^verbatim>\<open>recv_from\<close> stored in the buffer.\<close>

datatype udp_event = UdpCancelled | UdpReceived "(string \<times> string) + (u8 list \<times> socket_addr)"

definition udp_deliver :: "('d, 's) handlers \<Rightarrow> u8 list \<Rightarrow> socket_addr \<Rightarrow> 'd \<Rightarrow> 'd" where
  "udp_deliver h bs a d = (if bs = [] then d else snd (hd_dispatch h bs a ProtoUDP d))"

fun run_udp_receiver ::
  "('d, 's) handlers \<Rightarrow> udp_event list \<Rightarrow> task_report \<Rightarrow> 'd \<Rightarrow> task_report option \<times> 'd" where
  "run_udp_receiver h [] rep d = (None, d)"
| "run_udp_receiver h (UdpCancelled # evs) rep d = (Some (rep\<lparr>tr_cancelled := tr_cancelled rep + 1\<rparr>), d)"
| "run_udp_receiver h (UdpReceived (Inl e) # evs) rep d = (Some (rep\<lparr>tr_failed := tr_failed rep + 1\<rparr>), d)"
| "run_udp_receiver h (UdpReceived (Inr (bs, a)) # evs) rep d = run_udp_receiver h evs rep (udp_deliver h bs a d)"

text \<open>The unmanaged receiver, spawned by \<^verbatim>\<open>spawn_udp\<close>: \<open>True\<close> when it has ended.\<close>

fun spawn_udp_owned_task :: "('d, 's) handlers \<Rightarrow> udp_event list \<Rightarrow> 'd \<Rightarrow> bool \<times> 'd" where
  "spawn_udp_owned_task h [] d = (False, d)"
| "spawn_udp_owned_task h (UdpCancelled # evs) d = (True, d)"
| "spawn_udp_owned_task h (UdpReceived (Inl e) # evs) d = (True, d)"
| "spawn_udp_owned_task h (UdpReceived (Inr (bs, a)) # evs) d = spawn_udp_owned_task h evs (udp_deliver h bs a d)"

end
