(* ===== verification/Tcp_Connection_Inv.thy ===== *)
theory Tcp_Connection_Inv
  imports Tcp_Connection
begin

text \<open>
  Properties of the connection tasks: the read loop does not depend on how the stream is cut into
  chunks; a queued connection puts the accepted packets on the stream in order and always leaves
  the registry; and what an error of the splitter or the dispatcher skips.
\<close>

section \<open>Incremental parsing\<close>

text \<open>A parser whose verdict on a prefix stands when more bytes arrive, and which consumes bytes.\<close>

locale stream_parser =
  fixes parse :: "u8 list \<Rightarrow> ('a \<times> u8 list) option"
  assumes parse_extend: "parse x = Some (d, r) \<Longrightarrow> parse (x @ y) = Some (d, r @ y)"
    and parse_shrinks: "parse x = Some (d, r) \<Longrightarrow> length r < length x"
begin

lemma fuel_irrelevant:
  "length x \<le> m \<Longrightarrow> length x \<le> n \<Longrightarrow> parse_stream parse m x = parse_stream parse n x"
proof (induction m arbitrary: n x)
  case 0
  then show ?case using parse_shrinks [of "[]"] by (cases n) (auto split: option.splits)
next
  case (Suc m)
  show ?case
  proof (cases "parse x")
    case None
    then show ?thesis by (cases n) auto
  next
    case (Some a)
    then obtain d r where a: "parse x = Some (d, r)" by (cases a) auto
    from parse_shrinks [OF this] Suc.prems obtain n' where n: "n = Suc n'" "length r \<le> n'" "length r \<le> m"
      by (cases n) auto
    then show ?thesis using a Suc.IH [of r n'] by simp
  qed
qed

lemma incremental:
  "parse_stream parse (length x) x = (ps, rest) \<Longrightarrow>
   parse_stream parse (length (rest @ y)) (rest @ y) = (qs, rest') \<Longrightarrow>
   parse_stream parse (length (x @ y)) (x @ y) = (ps @ qs, rest')"
proof (induction "length x" arbitrary: x ps rule: less_induct)
  case less
  show ?case
  proof (cases "parse x")
    case None
    then have "parse_stream parse (length x) x = ([], x)" by (cases "length x") auto
    with less.prems show ?thesis by simp
  next
    case (Some a)
    then obtain d r where a: "parse x = Some (d, r)" by (cases a) auto
    note sh = parse_shrinks [OF a]
    then obtain n where n: "length x = Suc n" by (cases "length x") auto
    obtain ps' where ps: "ps = d # ps'" "parse_stream parse n r = (ps', rest)"
      using less.prems(1) a n by (auto split: prod.splits)
    have "parse_stream parse (length r) r = (ps', rest)"
      using ps(2) fuel_irrelevant [of r n "length r"] sh n by simp
    from less.hyps [OF sh this less.prems(2)]
    have "parse_stream parse (length (r @ y)) (r @ y) = (ps' @ qs, rest')" .
    moreover have "parse_stream parse (n + length y) (r @ y) = parse_stream parse (length (r @ y)) (r @ y)"
      using sh n by (intro fuel_irrelevant) auto
    ultimately show ?thesis using parse_extend [OF a, of y] n ps(1) by simp
  qed
qed

lemma rest_unparsable: "parse_stream parse (length x) x = (ps, rest) \<Longrightarrow> parse rest = None"
proof (induction "length x" arbitrary: x ps rule: less_induct)
  case less
  show ?case
  proof (cases "parse x")
    case None
    with less.prems show ?thesis by (cases "length x") auto
  next
    case (Some a)
    then obtain d r where a: "parse x = Some (d, r)" by (cases a) auto
    note sh = parse_shrinks [OF a]
    then obtain n where n: "length x = Suc n" by (cases "length x") auto
    obtain ps' where "parse_stream parse n r = (ps', rest)" using less.prems a n by (auto split: prod.splits)
    then have "parse_stream parse (length r) r = (ps', rest)"
      using fuel_irrelevant [of r n "length r"] sh n by simp
    with less.hyps sh show ?thesis by blast
  qed
qed

end

lemma u16_parse_Some:
  "u16_parse x = Some (d, r) \<longleftrightarrow>
     (\<exists>hi lo. x = hi # lo # d @ r \<and> length d = le_value [lo, hi])"
proof
  assume "u16_parse x = Some (d, r)"
  then show "\<exists>hi lo. x = hi # lo # d @ r \<and> length d = le_value [lo, hi]"
    by (auto simp: u16_parse_def Let_def split: list.splits if_splits)
next
  assume "\<exists>hi lo. x = hi # lo # d @ r \<and> length d = le_value [lo, hi]"
  then obtain hi lo where "x = hi # lo # d @ r" and n: "length d = le_value [lo, hi]" by blast
  then show "u16_parse x = Some (d, r)"
    unfolding u16_parse_def Let_def n [symmetric] by (simp add: n [symmetric] del: le_value.simps)
qed

lemma u16_parse_None: "u16_parse x = None \<Longrightarrow> length x \<le> 65536"
proof (cases x)
  case (Cons hi y)
  assume n: "u16_parse x = None"
  show ?thesis
  proof (cases y)
    case (Cons lo rest)
    have "unat lo < 2 ^ LENGTH(8)" "unat hi < 2 ^ LENGTH(8)" by (rule unsigned_less)+
    then have "unat lo + 256 * unat hi \<le> 65535" by simp
    with n Cons \<open>x = hi # y\<close> show ?thesis by (auto simp: u16_parse_def Let_def split: if_splits)
  qed (simp add: Cons)
qed simp

interpretation u16_stream: stream_parser u16_parse
proof
  fix x d r y
  assume "u16_parse x = Some (d, r)"
  then show "u16_parse (x @ y) = Some (d, r @ y)" "length r < length x"
    by (auto simp: u16_parse_Some)
qed

section \<open>The read loop\<close>

fun dispatch_all :: "('p \<Rightarrow> 'd \<Rightarrow> unit global_result \<times> 'd) \<Rightarrow> 'p list \<Rightarrow> 'd \<Rightarrow> unit global_result \<times> 'd" where
  "dispatch_all f [] d = (Inr (), d)"
| "dispatch_all f (p # ps) d =
     (case f p d of (Inl e, d') \<Rightarrow> (Inl e, d') | (Inr _, d') \<Rightarrow> dispatch_all f ps d')"

text \<open>
  What a splitter for a framing promises: it hands the complete frames of the buffer to the
  callback, in order and until it fails, and leaves the incomplete rest in the buffer.
\<close>

definition splits_by :: "(u8 list \<Rightarrow> (u8 list \<times> u8 list) option) \<Rightarrow> ('d, 's) handlers \<Rightarrow> bool" where
  "splits_by parse h \<longleftrightarrow>
     (\<forall>sp buf f d. \<exists>sp' rest'. hd_feed h sp buf f d =
        (fst (dispatch_all f (fst (parse_stream parse (length buf) buf)) d), rest', sp',
         snd (dispatch_all f (fst (parse_stream parse (length buf) buf)) d)) \<and>
        ((\<exists>u. fst (dispatch_all f (fst (parse_stream parse (length buf) buf)) d) = Inr u) \<longrightarrow>
           rest' = snd (parse_stream parse (length buf) buf)))"

definition logs_packets :: "(u8 list list, 's) handlers \<Rightarrow> bool" where
  "logs_packets h \<longleftrightarrow> (\<forall>p a pr d. hd_dispatch h p a pr d = (Inr (), d @ [p]))"

lemma dispatch_all_logs: "dispatch_all (\<lambda>p d. (Inr (), d @ [p])) ps d = (Inr (), d @ ps)"
  by (induction ps arbitrary: d) auto

lemma read_turn_chunk:
  assumes "splits_by parse h" "logs_packets h" "chunk \<noteq> []"
    and "length (bm_bytes (rd_buf r)) + length chunk \<le> MAX_BUF_SIZE"
    and "parse_stream parse (length (bm_bytes (rd_buf r) @ chunk)) (bm_bytes (rd_buf r) @ chunk) = (ps, rest)"
  obtains r' where "read_turn h reserve a (Received (Inr chunk)) r = (None, r')"
    "rd_disp r' = rd_disp r @ ps" "bm_bytes (rd_buf r') = rest"
proof -
  let ?b = "bm_bytes (rd_buf r) @ chunk"
  have disp: "hd_dispatch h pkt a ProtoTCP = (\<lambda>d. (Inr (), d @ [pkt]))" for pkt
    using assms(2) by (auto simp: logs_packets_def)
  obtain sp' rest' where "hd_feed h (rd_splitter r) ?b (\<lambda>pkt. hd_dispatch h pkt a ProtoTCP) (rd_disp r) =
      (Inr (), rest, sp', rd_disp r @ ps)"
  proof -
    from assms(1) [unfolded splits_by_def, rule_format, of "rd_splitter r" ?b "\<lambda>pkt. hd_dispatch h pkt a ProtoTCP" "rd_disp r"]
    obtain sp' rest' where
      "hd_feed h (rd_splitter r) ?b (\<lambda>pkt. hd_dispatch h pkt a ProtoTCP) (rd_disp r) = (Inr (), rest', sp', rd_disp r @ ps)"
      "rest' = rest"
      unfolding assms(5) by (auto simp: disp dispatch_all_logs)
    then show ?thesis using that by blast
  qed
  then show ?thesis
    using assms(3,4)
    by (intro that [of "snd (read_turn h reserve a (Received (Inr chunk)) r)"])
      (auto simp: read_turn_def tcp_stream_read_buf_def ensure_spare_capacity_def Let_def)
qed

lemma read_loop_chunks:
  assumes "splits_by u16_parse h" "logs_packets h"
    and "\<forall>c\<in>set chunks. c \<noteq> [] \<and> length c \<le> 2 ^ 20"
    and "parse_stream u16_parse (length x) x = (ps, bm_bytes (rd_buf r))"
    and "parse_stream u16_parse (length (x @ concat chunks)) (x @ concat chunks) = (qs, rest)"
    and "rd_disp r = ps"
  shows "\<exists>r'. read_loop h reserve a (map (Received \<circ> Inr) chunks) r = (None, r') \<and>
    rd_disp r' = qs \<and> bm_bytes (rd_buf r') = rest"
  using assms(3-)
proof (induction chunks arbitrary: x ps r)
  case Nil
  then show ?case by auto
next
  case (Cons c chunks)
  let ?b = "bm_bytes (rd_buf r) @ c"
  have small: "length (bm_bytes (rd_buf r)) + length c \<le> MAX_BUF_SIZE"
    using u16_parse_None [OF u16_stream.rest_unparsable [OF Cons.prems(2)]] Cons.prems(1)
    by (simp add: MAX_BUF_SIZE_def)
  obtain ps' rest' where st: "parse_stream u16_parse (length ?b) ?b = (ps', rest')" by fastforce
  have "c \<noteq> []" using Cons.prems(1) by simp
  obtain r' where r': "read_turn h reserve a (Received (Inr c)) r = (None, r')"
    "rd_disp r' = rd_disp r @ ps'" "bm_bytes (rd_buf r') = rest'"
    using read_turn_chunk [OF assms(1,2) \<open>c \<noteq> []\<close> small st] .
  from u16_stream.incremental [OF Cons.prems(2) st]
  have "parse_stream u16_parse (length (x @ c)) (x @ c) = (ps @ ps', bm_bytes (rd_buf r'))" by (simp add: r'(3))
  from Cons.IH [OF _ this] Cons.prems r' show ?case by simp
qed

section \<open>A queued connection\<close>

text \<open>The bytes of the packets the write half has written completely.\<close>

definition written_bytes :: "nat \<Rightarrow> ('w, 'd, 's) conn \<Rightarrow> u8 list" where
  "written_bytes q c = concat (map (the \<circ> wire) (take (cn_taken c) (pw_queues (cn_writer c) q)))"

text \<open>The first bytes of the packet after them.\<close>

definition torn_packet :: "nat \<Rightarrow> ('w, 'd, 's) conn \<Rightarrow> u8 list \<Rightarrow> bool" where
  "torn_packet q c torn \<longleftrightarrow> cn_taken c < length (pw_queues (cn_writer c) q) \<and>
     (\<exists>k. torn = take k (the (wire (pw_queues (cn_writer c) q ! cn_taken c))))"

definition conn_registered :: "tcp_writer_registration \<Rightarrow> ('w, 'd, 's) conn \<Rightarrow> bool" where
  "conn_registered g c \<longleftrightarrow> current_registration (wr_remote_addr g) (cn_writer c) = Some g"

definition conn_inv ::
  "('w \<Rightarrow> u8 list) \<Rightarrow> u8 list \<Rightarrow> tcp_writer_registration \<Rightarrow> nat \<Rightarrow> nat \<Rightarrow> ('w, 'd, 's) conn \<Rightarrow> bool" where
  "conn_inv sent before g q t c \<longleftrightarrow>
     registry_inv (cn_writer c) \<and>
     cn_taken c \<le> length (pw_queues (cn_writer c) q) \<and>
     (\<exists>torn. sent (pw_streams (cn_writer c) q) = before @ written_bytes q c @ torn \<and>
       (torn = [] \<or> cn_write c \<noteq> None \<and> torn_packet q c torn)) \<and>
     (cn_write c \<noteq> None \<longrightarrow> t \<in> pw_cancelled (cn_writer c) \<and> \<not> conn_registered g c)"

lemma remove_registered_fields [simp]:
  "pw_streams (remove_registered_tcp_writer g w) = pw_streams w"
  "pw_queues (remove_registered_tcp_writer g w) = pw_queues w"
  "pw_cancelled w \<subseteq> pw_cancelled (remove_registered_tcp_writer g w)"
  by (auto simp: remove_registered_tcp_writer_def remove_tcp_writer_inner_def sink_close_def cancel_token_def Let_def
      split: option.splits)

lemma removed_not_current:
  "registry_inv w \<Longrightarrow> current_registration a (remove_registered_tcp_writer g w) \<noteq> Some g"
  by (rule peers.dropped_gone)

lemma cancel_inv [simp]: "registry_inv (cancel_token t w) \<longleftrightarrow> registry_inv w"
  by (simp add: registry_inv_def)

lemma streams_inv [simp]: "registry_inv (w\<lparr>pw_streams := x\<rparr>) \<longleftrightarrow> registry_inv w"
  using registry_rel_cong [of "w\<lparr>pw_streams := x\<rparr>" w] by (simp add: registry_inv_def)

lemma write_turn_spec:
  assumes "async_write_ok aw sent" "\<And>p. ev = NextPacket p \<Longrightarrow> wire p = Some bytes"
    and "write_turn aw ev s = Some (go_on, s')"
  shows "\<exists>k. sent s' = sent s @ take k bytes" and "(\<And>p. ev \<noteq> NextPacket p) \<Longrightarrow> sent s' = sent s" and "go_on \<Longrightarrow> \<exists>p. ev = NextPacket p \<and> sent s' = sent s @ bytes"
proof -
  have "(\<exists>k. sent s' = sent s @ take k bytes) \<and> (go_on \<longrightarrow> (\<exists>p. ev = NextPacket p \<and> sent s' = sent s @ bytes))"
  proof (cases ev)
    case (NextPacket p)
    from packet_written [OF assms(1) assms(2) [OF NextPacket], of s]
    obtain r s1 where "write_encoded_packet aw p s = Some (r, s1)" "took_all (sent s) bytes r (sent s1)" by blast
    with assms(3) NextPacket show ?thesis
      by (cases r) (auto simp: write_turn_def intro: exI [of _ "length bytes"])
  qed (use assms(3) in \<open>auto simp: write_turn_def intro: exI [of _ 0]\<close>)
  then show "\<exists>k. sent s' = sent s @ take k bytes" and "go_on \<Longrightarrow> \<exists>p. ev = NextPacket p \<and> sent s' = sent s @ bytes"
    by blast+
  show "(\<And>p. ev \<noteq> NextPacket p) \<Longrightarrow> sent s' = sent s" using assms(3) by (cases ev) (auto simp: write_turn_def)
qed

text \<open>Packets in the queue come from an encoder, so they have a wire form.\<close>

definition queue_wired :: "nat \<Rightarrow> ('w, 'd, 's) conn \<Rightarrow> bool" where
  "queue_wired q c \<longleftrightarrow> (\<forall>p\<in>set (pw_queues (cn_writer c) q). wire p \<noteq> None)"

lemma written_bytes_next:
  assumes "cn_taken c < length (pw_queues (cn_writer c) q)" "wire (pw_queues (cn_writer c) q ! cn_taken c) = Some bytes"
  shows "concat (map (the \<circ> wire) (take (Suc (cn_taken c)) (pw_queues (cn_writer c) q))) = written_bytes q c @ bytes"
  using assms by (simp add: written_bytes_def take_Suc_conv_app_nth)

text \<open>The turns that change the writer, one lemma each.\<close>

lemma read_exit_inv:
  assumes inv: "conn_inv sent before g q t c" and run: "cn_read c = None"
    and fin: "read_half_finish h g ex d (cn_writer c) = (res, d', w)"
  shows "conn_inv sent before g q t (c\<lparr>cn_reader := r, cn_writer := w, cn_read := Some res\<rparr>)"
proof (cases ex)
  case (LoopError e)
  then show ?thesis using run fin inv
    by (auto simp: conn_inv_def written_bytes_def conn_registered_def read_half_finish_def torn_packet_def)
next
  case LoopBreak
  have ri: "registry_inv (cn_writer c)" using inv by (simp add: conn_inv_def)
  have w: "w = remove_registered_tcp_writer g (cn_writer c)"
    using fin LoopBreak by (auto simp: read_half_finish_def Let_def split: prod.splits)
  have nr: "current_registration (wr_remote_addr g) w \<noteq> Some g" "registry_inv w"
    using removed_not_current [OF ri] peers.drop_inv [OF ri] by (auto simp: w)
  have f: "pw_streams w = pw_streams (cn_writer c)" "pw_queues w = pw_queues (cn_writer c)"
    "pw_cancelled (cn_writer c) \<subseteq> pw_cancelled w" by (simp_all add: w)
  then show ?thesis using inv LoopBreak nr f
    by (auto simp: conn_inv_def written_bytes_def conn_registered_def torn_packet_def)
qed

text \<open>What the last turn of the write half leaves on the stream: at most the beginning of one packet.\<close>

lemma last_turn_torn:
  assumes "async_write_ok aw sent" "queue_wired q c"
    and ev: "case ev of NextPacket p \<Rightarrow> cn_taken c < length (pw_queues (cn_writer c) q) \<and> p = pw_queues (cn_writer c) q ! cn_taken c
      | QueueEnded \<Rightarrow> cn_taken c = length (pw_queues (cn_writer c) q) | WriteCancelled \<Rightarrow> t \<in> pw_cancelled (cn_writer c)"
    and turn: "write_turn aw ev (pw_streams (cn_writer c) q) = Some (False, s)"
  shows "\<exists>torn. sent s = sent (pw_streams (cn_writer c) q) @ torn \<and> (torn = [] \<or> torn_packet q c torn)"
proof (cases "\<exists>p. ev = NextPacket p")
  case True
  then obtain p where p: "ev = NextPacket p" by blast
  then have wired: "wire p = Some (the (wire p))" using assms(2) ev by (auto simp: queue_wired_def)
  have "\<exists>k. sent s = sent (pw_streams (cn_writer c) q) @ take k (the (wire p))"
    by (rule write_turn_spec(1) [OF assms(1) _ turn]) (use p wired in auto)
  then show ?thesis using p ev by (auto simp: torn_packet_def)
next
  case False
  then have "sent s = sent (pw_streams (cn_writer c) q)" by (intro write_turn_spec(2) [OF assms(1) _ turn]) auto
  then show ?thesis by simp
qed

lemma write_exit_inv:
  assumes inv: "conn_inv sent before g q t c" and run: "cn_write c = None"
    and torn: "\<exists>torn. sent s = sent (pw_streams (cn_writer c) q) @ torn \<and> (torn = [] \<or> torn_packet q c torn)"
    and fin: "write_half_finish t g shutdown ((cn_writer c)\<lparr>pw_streams := (pw_streams (cn_writer c))(q := s)\<rparr>) = (res, w)"
  shows "conn_inv sent before g q t (c\<lparr>cn_writer := w, cn_write := Some res\<rparr>)"
proof -
  let ?w1 = "(cn_writer c)\<lparr>pw_streams := (pw_streams (cn_writer c))(q := s)\<rparr>"
  have w: "w = remove_registered_tcp_writer g (cancel_token t ?w1)"
    using fin by (simp add: write_half_finish_def)
  have ri: "registry_inv (cancel_token t ?w1)" using inv by (simp add: conn_inv_def)
  have nr: "current_registration (wr_remote_addr g) w \<noteq> Some g" "registry_inv w"
    unfolding w by (rule removed_not_current [OF ri], rule peers.drop_inv [OF ri])
  have f: "pw_streams w q = s" "pw_queues w q = pw_queues (cn_writer c) q" "t \<in> pw_cancelled w"
    using remove_registered_fields(3) [of "cancel_token t ?w1" g]
    by (auto simp: w cancel_token_def)
  from inv run have "sent (pw_streams (cn_writer c) q) = before @ written_bytes q c"
    by (auto simp: conn_inv_def)
  then show ?thesis using inv nr f torn
    by (auto simp: conn_inv_def written_bytes_def conn_registered_def torn_packet_def)
qed

lemma conn_step_inv:
  assumes "async_write_ok aw sent" "conn_step h reserve aw g q t c c'" "queue_wired q c" "conn_inv sent before g q t c"
  shows "conn_inv sent before g q t c'"
  using assms(2,4)
proof (cases rule: conn_step.cases)
  case (read_more ev r)
  then show ?thesis using assms(4) by (simp add: conn_inv_def written_bytes_def conn_registered_def torn_packet_def)
next
  case (read_exit ev ex r res d w)
  show ?thesis unfolding read_exit(1) by (rule read_exit_inv [OF assms(4) read_exit(2,5)])
next
  case (write_more s)
  obtain bytes where b: "wire (pw_queues (cn_writer c) q ! cn_taken c) = Some bytes"
    using assms(3) nth_mem [OF write_more(3)] by (auto simp: queue_wired_def)
  have "sent s = sent (pw_streams (cn_writer c) q) @ bytes"
    using write_turn_spec(3) [OF assms(1) _ write_more(4)] b by auto
  then show ?thesis using write_more assms(4) written_bytes_next [OF write_more(3) b]
    by (auto simp: conn_inv_def written_bytes_def conn_registered_def current_registration_def)
next
  case (write_exit ev s shutdown res w)
  show ?thesis unfolding write_exit(1)
    by (rule write_exit_inv [OF assms(4) write_exit(2) last_turn_torn [OF assms(1,3) write_exit(3,4)] write_exit(5)])
next
  case (others w)
  from others(5) obtain ps where "pw_queues w q = pw_queues (cn_writer c) q @ ps" by blast
  moreover have "current_registration (wr_remote_addr g) w = Some g \<Longrightarrow>
      current_registration (wr_remote_addr g) (cn_writer c) = Some g"
    using others(6) by (auto simp: current_registration_def)
  ultimately show ?thesis using others(1-4) assms(4)
    by (auto simp: conn_inv_def written_bytes_def conn_registered_def torn_packet_def nth_append)
qed

lemma conn_step_wired:
  assumes "conn_step h reserve aw g q t c c'" "queue_wired q c"
  shows "queue_wired q c'"
  using assms
  by (cases rule: conn_step.cases)
    (auto simp: queue_wired_def read_half_finish_def write_half_finish_def cancel_token_def Let_def
      split: loop_exit.splits prod.splits)

lemma conn_start_inv:
  assumes "conn_start h a q t d w = Inr (g, c)" "registry_inv w" "pw_queues w q = []"
  shows "conn_inv sent (sent (pw_streams w q)) g q t c \<and> queue_wired q c"
proof -
  from assms(1) obtain w' where w': "insert_tcp_sink a (QueuedSink a q t) w = (Some g, w')"
    and c: "c = \<lparr>cn_writer = w', cn_reader = reader_init h d, cn_taken = 0, cn_read = None, cn_write = None\<rparr>"
    by (auto simp: conn_start_def insert_registered_tcp_writer_def split: prod.splits option.splits)
  have "pw_streams w' = pw_streams w \<and> pw_queues w' = pw_queues w"
    using w' by (auto simp: insert_tcp_sink_def insert_begin_def insert_update_def insert_finish_def sink_close_def
        cancel_token_def Let_def split: if_splits option.splits)
  moreover have "registry_inv w'" using peers.add_inv [OF assms(2), of a "QueuedSink a q t"] w' by simp
  ultimately show ?thesis using assms(3) by (simp add: c conn_inv_def written_bytes_def queue_wired_def)
qed

lemma conn_reachable_inv:
  assumes "async_write_ok aw sent" "(conn_step h reserve aw g q t)\<^sup>*\<^sup>* c0 c"
    and "conn_inv sent before g q t c0 \<and> queue_wired q c0"
  shows "conn_inv sent before g q t c \<and> queue_wired q c"
  using assms(2,3)
  by (induction rule: rtranclp_induct) (auto dest: conn_step_inv [OF assms(1)] conn_step_wired)

section \<open>Telling the dispatcher\<close>

text \<open>An observer of the application's state that counts how often the application was told that \<open>a\<close> is gone: a close for \<open>a\<close> adds one, a packet
  adds none, and feeding the splitter adds none of its own.\<close>

definition counts_close :: "('d \<Rightarrow> nat) \<Rightarrow> ('d, 's) handlers \<Rightarrow> socket_addr \<Rightarrow> bool" where
  "counts_close closes h a \<longleftrightarrow>
     (\<forall>d. closes (snd (hd_close h a ProtoTCP d)) = Suc (closes d)) \<and>
     (\<forall>pkt d. closes (snd (hd_dispatch h pkt a ProtoTCP d)) = closes d) \<and>
     (\<forall>sp buf f d. (\<forall>pkt d. closes (snd (f pkt d)) = closes d) \<longrightarrow> closes (snd (snd (snd (hd_feed h sp buf f d)))) = closes d)"

lemma read_turn_closes:
  assumes "counts_close closes h a" "read_turn h reserve a ev r = (ex, r')"
  shows "closes (rd_disp r') = closes (rd_disp r)"
proof -
  have "closes (snd (snd (snd (hd_feed h sp buf (\<lambda>pkt. hd_dispatch h pkt a ProtoTCP) d)))) = closes d" for sp buf d
    using assms(1) by (simp add: counts_close_def)
  from this [of "rd_splitter r" _ "rd_disp r"] assms(2) show ?thesis
    by (auto simp: read_turn_def Let_def split: read_event.splits prod.splits sum.splits if_splits) (metis snd_conv)+
qed

lemma read_half_finish_closes:
  assumes "counts_close closes h (wr_remote_addr g)" "read_half_finish h g ex d w = (res, d', w')"
  shows "closes d' = (if ex = LoopBreak then Suc (closes d) else closes d)" "res = Inr u \<Longrightarrow> ex = LoopBreak"
  using assms by (auto simp: read_half_finish_def counts_close_def Let_def split: loop_exit.splits prod.splits) (metis snd_conv)

text \<open>\<open>n\<close> is the count before the connection.\<close>

definition closes_inv :: "('d \<Rightarrow> nat) \<Rightarrow> nat \<Rightarrow> ('w, 'd, 's) conn \<Rightarrow> bool" where
  "closes_inv closes n c \<longleftrightarrow>
     closes (rd_disp (cn_reader c)) = n \<and> (\<forall>u. cn_read c \<noteq> Some (Inr u)) \<or>
     closes (rd_disp (cn_reader c)) = Suc n \<and> cn_read c \<noteq> None"

lemma conn_step_closes:
  assumes "counts_close closes h (wr_remote_addr g)" "conn_step h reserve aw g q t c c'" "closes_inv closes n c"
  shows "closes_inv closes n c'"
  using assms(2,3)
proof (cases rule: conn_step.cases)
  case (read_more ev r)
  with read_turn_closes [OF assms(1) read_more(4)] assms(3) show ?thesis by (auto simp: closes_inv_def)
next
  case (read_exit ev ex r res d w)
  with read_turn_closes [OF assms(1) read_exit(4)] read_half_finish_closes [OF assms(1) read_exit(5)] assms(3)
  show ?thesis by (auto simp: closes_inv_def)
qed (auto simp: closes_inv_def)

lemma conn_reachable_closes:
  assumes "(conn_step h reserve aw g q t)\<^sup>*\<^sup>* c0 c" "counts_close closes h (wr_remote_addr g)" "closes_inv closes n c0"
  shows "closes_inv closes n c"
  using assms by (induction rule: rtranclp_induct) (auto dest: conn_step_closes)

lemma conn_start_closes:
  assumes "conn_start h a q t d w = Inr (g, c)"
  shows "wr_remote_addr g = a" "closes_inv closes (closes d) c"
  using assms
  by (auto simp: conn_start_def insert_registered_tcp_writer_def insert_tcp_sink_def insert_begin_def insert_update_def
      insert_finish_def reader_init_def closes_inv_def Let_def split: prod.splits option.splits if_splits)

section \<open>Properties\<close>

text \<open>C26. A queued connection, under every interleaving of its two halves with each other and with
  other tasks: its stream carries the first packets of its queue, whole and in order, and after
  them at most the first bytes of the next, only once the write half has ended. When the write half has
  ended, the connection's token is cancelled and its registration is gone; so when the task
  returns, it has left the registry. The application, which counts the calls that tell it that the peer is gone, is told
  only when the read half ends and never twice, and if the task returns success it was told exactly once.\<close>

theorem queued_connection_cleanup:
  assumes "async_write_ok aw sent" and "registry_inv w" and "pw_queues w q = []"
    and "conn_start h a q t d w = Inr (g, c0)" and "(conn_step h reserve aw g q t)\<^sup>*\<^sup>* c0 c"
    and "counts_close closes h a"
  shows "(\<exists>torn. sent (pw_streams (cn_writer c) q) = sent (pw_streams w q) @ written_bytes q c @ torn \<and>
      (torn = [] \<or> cn_write c \<noteq> None \<and> torn_packet q c torn)) \<and>
    (cn_write c \<noteq> None \<longrightarrow> t \<in> pw_cancelled (cn_writer c) \<and> \<not> conn_registered g c) \<and>
    (conn_result c = Some r \<longrightarrow> t \<in> pw_cancelled (cn_writer c) \<and> \<not> conn_registered g c) \<and>
    (closes (rd_disp (cn_reader c)) = closes d \<or> cn_read c \<noteq> None \<and> closes (rd_disp (cn_reader c)) = closes d + 1) \<and>
    (conn_result c = Some (Inr ()) \<longrightarrow> closes (rd_disp (cn_reader c)) = closes d + 1)"
proof -
  have "conn_inv sent (sent (pw_streams w q)) g q t c"
    using conn_reachable_inv [OF assms(1,5) conn_start_inv [OF assms(4,2,3)]] by blast
  moreover have "closes_inv closes (closes d) c"
    using conn_reachable_closes [OF assms(5)] conn_start_closes [OF assms(4)] assms(6) by auto
  ultimately show ?thesis
    by (auto simp: conn_inv_def closes_inv_def conn_result_def split: option.splits sum.splits)
qed

text \<open>An application that logs length-prefixed packets.\<close>

definition u16_logger :: "(u8 list list, unit) handlers" where
  "u16_logger = \<lparr>hd_dispatch = (\<lambda>p a pr d. (Inr (), d @ [p])), hd_close = (\<lambda>a pr d. (Inr (), d)),
     hd_feed = (\<lambda>sp buf f d. (let (ps, rest) = parse_stream u16_parse (length buf) buf; (r, d') = dispatch_all f ps d in
       (r, rest, sp, d'))), hd_splitter = ()\<rparr>"

definition new_writer :: "u8 list packet_writer" where
  "new_writer = packet_writer_new None default_write_mode (\<lambda>_. [])"

lemma u16_logger_ok: "splits_by u16_parse u16_logger" "logs_packets u16_logger"
  by (auto simp: splits_by_def logs_packets_def u16_logger_def Let_def split: prod.splits)

text \<open>An application that only counts the calls of close.\<close>

definition close_counter :: "(nat, unit) handlers" where
  "close_counter = \<lparr>hd_dispatch = (\<lambda>p a pr d. (Inr (), d)), hd_close = (\<lambda>a pr d. (Inr (), Suc d)),
     hd_feed = (\<lambda>sp buf f d. (let (r, d') = f buf d in (r, [], sp, d'))), hd_splitter = ()\<rparr>"

lemma close_counter_counts: "counts_close (\<lambda>n. n) close_counter a"
  by (auto simp: counts_close_def close_counter_def Let_def split_beta)

theorem queued_connection_cleanup_witness:
  "\<exists>g c. conn_result c = Some (Inr ()) \<and> 5 \<in> pw_cancelled (cn_writer (c :: (u8 list, nat, unit) conn)) \<and>
     \<not> conn_registered g c \<and> wr_remote_addr g = peer1 \<and> rd_disp (cn_reader c) = 1"
proof -
  let ?h = close_counter and ?res = "\<lambda>l c a. l + a :: nat"
  obtain g c0 where st: "conn_start ?h peer1 1 5 0 new_writer = Inr (g, c0)" and g: "wr_remote_addr g = peer1"
    and c0: "cn_write c0 = None" "cn_read c0 = None" "cn_taken c0 = 0" "pw_queues (cn_writer c0) 1 = []"
    by (auto simp: conn_start_def insert_registered_tcp_writer_def insert_tcp_sink_def insert_begin_def insert_update_def
        insert_finish_def new_writer_def packet_writer_new_def Let_def)
  define w1 where "w1 = snd (write_half_finish 5 g (Inr ()) ((cn_writer c0)\<lparr>pw_streams := (pw_streams (cn_writer c0))(1 := pw_streams (cn_writer c0) 1)\<rparr>))"
  define c1 where "c1 = c0\<lparr>cn_writer := w1, cn_write := Some (Inr ())\<rparr>"
  have s1: "conn_step ?h ?res three_at_a_time g 1 5 c0 c1"
    unfolding c1_def
    by (rule conn_step.write_exit [where ev = QueueEnded and s = "pw_streams (cn_writer c0) 1" and shutdown = "Inr ()"])
      (use c0 in \<open>simp_all add: write_turn_def w1_def write_half_finish_def hand_log_def\<close>)
  let ?r = "snd (read_turn ?h ?res (wr_remote_addr g) (Received (Inr [])) (cn_reader c1))"
  let ?f = "read_half_finish ?h g LoopBreak (rd_disp ?r) (cn_writer c1)"
  have f: "fst ?f = Inr ()" by (simp add: read_half_finish_def close_counter_def)
  have s2: "conn_step ?h ?res three_at_a_time g 1 5 c1
      (c1\<lparr>cn_reader := ?r\<lparr>rd_disp := fst (snd ?f)\<rparr>, cn_writer := snd (snd ?f), cn_read := Some (fst ?f)\<rparr>)"
    by (rule conn_step.read_exit [where ev = "Received (Inr [])"])
      (use c0 in \<open>simp_all add: c1_def read_turn_def tcp_stream_read_buf_def Let_def\<close>)
  define c2 where "c2 = c1\<lparr>cn_reader := ?r\<lparr>rd_disp := fst (snd ?f)\<rparr>, cn_writer := snd (snd ?f), cn_read := Some (fst ?f)\<rparr>"
  have reach: "(conn_step ?h ?res three_at_a_time g 1 5)\<^sup>*\<^sup>* c0 c2"
    using s1 s2 unfolding c2_def by (meson converse_rtranclp_into_rtranclp rtranclp.rtrancl_refl)
  have aw: "async_write_ok three_at_a_time (\<lambda>w. w)"
    by (simp add: async_write_ok_def three_at_a_time_def min_def)
  have ri: "registry_inv new_writer" using registry_rel_new by (auto simp: registry_inv_def new_writer_def)
  have q: "pw_queues new_writer 1 = []" by (simp add: new_writer_def packet_writer_new_def)
  have "conn_result c2 = Some (Inr ())" using f by (simp add: conn_result_def c2_def c1_def)
  with queued_connection_cleanup [OF aw ri q st reach close_counter_counts, of "Inr ()"] g show ?thesis by (metis add_0)
qed

lemma read_loop_frames:
  assumes "splits_by u16_parse h" and "logs_packets h"
    and "\<forall>c\<in>set chunks. c \<noteq> [] \<and> length c \<le> 2 ^ 20"
    and "\<forall>d\<in>set (last_one # ds). length d \<le> 65535" and "k < length last_one + 2"
    and "concat chunks = concat (map (the \<circ> u16_frame) ds) @ take k (the (u16_frame last_one))"
  shows "\<exists>r. read_loop h reserve a (map (Received \<circ> Inr) chunks) (reader_init h []) = (None, r) \<and>
    rd_disp r = ds \<and> bm_bytes (rd_buf r) = take k (the (u16_frame last_one))"
proof -
  let ?x = "concat chunks" and ?part = "take k (the (u16_frame last_one))"
  have fr: "u16_frame d = Some (the (u16_frame d)) \<and> 2 \<le> length (the (u16_frame d))" if "d \<in> set (last_one # ds)" for d
    using assms(4) that by (auto simp: u16_frame_eq)
  have all: "list_all2 (\<lambda>d f. u16_frame d = Some f) ds (map (the \<circ> u16_frame) ds)"
    using fr by (simp add: list_all2_conv_all_nth)
  have "length ds \<le> length (concat (map (the \<circ> u16_frame) ds))"
    using assms(4) by (induction ds) (auto simp: u16_frame_eq)
  then have "length ds \<le> length ?x" using assms(6) by simp
  moreover have "k < length (the (u16_frame last_one))" using assms(4,5) by (simp add: u16_frame_eq)
  ultimately have "parse_stream u16_parse (length ?x) ?x = (ds, ?part)"
    using u16.stream_parses [OF all, of last_one "the (u16_frame last_one)" k "length ?x"] fr [of last_one] assms(6) by auto
  then have "parse_stream u16_parse (length ([] @ ?x)) ([] @ ?x) = (ds, ?part)" by simp
  from read_loop_chunks [OF assms(1-3) _ this, of "[]" "reader_init h []" reserve a] show ?thesis
    by (auto simp: reader_init_def)
qed

text \<open>C27. How the read half of a managed connection ends: when the peer closes, sends too much or
  fails, or the connection is cancelled, its registration is removed and the dispatcher is told;
  but when the splitter or the dispatcher reports an error, the task returns that error with the
  writer as it was. In direct mode, where no write half cleans up, the peer then stays registered
  with a sink that is not cancelled although its task has ended.\<close>

theorem read_error_keeps_registration:
  assumes "registry_rel w l" and "\<not> pw_closed w" and "t \<notin> pw_cancelled w" and "peers_at a l = None"
    and "read_loop h reserve a evs (reader_init h d) = (Some ex, r)"
  shows "(ex = LoopBreak \<longrightarrow>
      (\<exists>w'. run_direct_connection h reserve a s t evs d w =
         (Some (fst (hd_close h a ProtoTCP (rd_disp r))), snd (hd_close h a ProtoTCP (rd_disp r)), w') \<and>
       t \<in> pw_cancelled w' \<and> \<not> has_tcp_writer a w')) \<and>
    (\<forall>e. ex = LoopError e \<longrightarrow>
      (\<exists>w'. run_direct_connection h reserve a s t evs d w = (Some (Inl e), rd_disp r, w') \<and>
       pw_tcp_sink a w' = Some (DirectSink a s t) \<and> t \<notin> pw_cancelled w'))"
proof -
  let ?g = "\<lparr>wr_remote_addr = a, wr_writer_id = pw_next_id w\<rparr>"
  let ?r = "\<lparr>rs_registration = ?g, rs_sink = DirectSink a s t\<rparr>"
  let ?w = "snd (insert_tcp_sink a (DirectSink a s t) w)"
  note ins = insert_tcp_sink_rel [OF assms(1,2), of a "DirectSink a s t"]
  have run: "run_direct_connection h reserve a s t evs d w =
      (let (res, d', w') = read_half_finish h ?g ex (rd_disp r) ?w in (Some res, d', w'))"
    using assms(5) ins(1)
    by (cases "insert_tcp_sink a (DirectSink a s t) w")
      (simp add: run_direct_connection_def insert_registered_direct_tcp_writer_def handle_tcp_read_owned_half_def)
  have at: "pw_tcp_writers ?w a = Some ?r"
    using registry_relD(2) [OF ins(2), of a] by (simp add: peers_at_insert)
  have "pw_tcp_writers w a = None" using registry_relD(2) [OF assms(1)] assms(4) by simp
  then have canc: "pw_cancelled ?w = pw_cancelled w"
    using assms(2) by (simp add: insert_tcp_sink_open insert_update_def insert_finish_def Let_def)
  have rem: "t \<in> pw_cancelled (remove_registered_tcp_writer ?g ?w) \<and>
      \<not> has_tcp_writer a (remove_registered_tcp_writer ?g ?w)"
    by (simp add: remove_registered_tcp_writer_def remove_tcp_writer_inner_def at Let_def sink_close_def cancel_token_def
        has_tcp_writer_def)
  show ?thesis
  proof (intro conjI impI allI)
    assume "ex = LoopBreak"
    with rem show "\<exists>w'. run_direct_connection h reserve a s t evs d w =
         (Some (fst (hd_close h a ProtoTCP (rd_disp r))), snd (hd_close h a ProtoTCP (rd_disp r)), w') \<and>
       t \<in> pw_cancelled w' \<and> \<not> has_tcp_writer a w'"
      unfolding run by (simp add: read_half_finish_def Let_def split_beta)
  next
    fix e
    assume "ex = LoopError e"
    with at canc assms(3) show "\<exists>w'. run_direct_connection h reserve a s t evs d w = (Some (Inl e), rd_disp r, w') \<and>
       pw_tcp_sink a w' = Some (DirectSink a s t) \<and> t \<notin> pw_cancelled w'"
      unfolding run by (simp add: read_half_finish_def pw_tcp_sink_def)
  qed
qed

text \<open>An application whose dispatcher refuses every packet.\<close>

definition refusing :: "(u8 list list, unit) handlers" where
  "refusing = u16_logger\<lparr>hd_dispatch := (\<lambda>p a pr d. (Inl (sys_err ''refused''), d))\<rparr>"

theorem read_error_keeps_registration_witness:
  "\<exists>w'. run_direct_connection refusing (\<lambda>l c a. l + a) peer1 1 5 [Received (Inr [0, 1, 9])] [] new_writer =
     (Some (Inl (sys_err ''refused'')), [], w') \<and> pw_tcp_sink peer1 w' = Some (DirectSink peer1 1 5) \<and> 5 \<notin> pw_cancelled w'"
proof -
  have rel: "registry_rel new_writer []" using registry_rel_new by (simp add: new_writer_def)
  have nc: "\<not> pw_closed new_writer" "5 \<notin> pw_cancelled new_writer" "peers_at peer1 [] = None"
    by (simp_all add: new_writer_def packet_writer_new_def peers_at_def)
  obtain r where "read_loop refusing (\<lambda>l c a. l + a) peer1 [Received (Inr [0, 1, 9])] (reader_init refusing []) =
      (Some (LoopError (sys_err ''refused'')), r) \<and> rd_disp r = []"
    by (auto simp: read_turn_def tcp_stream_read_buf_def Let_def refusing_def u16_logger_def reader_init_def
        u16_parse_def ensure_spare_capacity_def MAX_BUF_SIZE_def TCP_READ_BUF_SIZE_def TCP_MIN_READ_SPARE_def sat_simps
        numeral_3_eq_3)
  then show ?thesis using read_error_keeps_registration [OF rel nc, of refusing "\<lambda>l c a. l + a"] by fastforce
qed

end
