(* ===== verification/Wire.thy ===== *)
theory Wire
  imports Tcp_Connection_Inv "HOL-Library.Sublist"
begin

text \<open>
  Two endpoints: what a connection of one (direct or queued, with the length-prefix encoder) puts on its stream is what the read loop of the other hands to its
  dispatcher, however the network cuts the stream and however much of it has arrived.
\<close>

section \<open>Prefixes of a stream of frames\<close>

lemma prefix_of_frames:
  assumes "prefix x (concat (map f ds))" "\<forall>d\<in>set ds. f d \<noteq> []"
  shows "\<exists>m\<le>length ds. \<exists>k. x = concat (map f (take m ds)) @ (if m < length ds then take k (f (ds ! m)) else []) \<and>
    (m < length ds \<longrightarrow> k < length (f (ds ! m)))"
  using assms
proof (induction ds arbitrary: x)
  case (Cons d ds)
  show ?case
  proof (cases "length x < length (f d)")
    case True
    with Cons.prems(1) have "x = take (length x) (f d)"
      by (auto simp: prefix_def) (metis append_eq_conv_conj append_take_drop_id take_append take_all_iff less_imp_le)
    with True show ?thesis by (intro exI [of _ "0::nat"]) (auto intro: exI [of _ "length x"])
  next
    case False
    have "prefix (f d) x"
      by (rule prefix_length_prefix [of _ "f d @ concat (map f ds)"]) (use Cons.prems(1) False in simp_all)
    with Cons.prems(1) obtain y where y: "x = f d @ y" "prefix y (concat (map f ds))" by (auto elim!: prefixE)
    from Cons.IH [OF y(2)] Cons.prems(2) obtain m k where "m \<le> length ds"
      "y = concat (map f (take m ds)) @ (if m < length ds then take k (f (ds ! m)) else [])"
      "m < length ds \<longrightarrow> k < length (f (ds ! m))" by auto
    with y(1) show ?thesis by (intro exI [of _ "Suc m"] conjI exI [of _ k]) auto
  qed
qed simp

lemma take_prefix_mono: "i \<le> j \<Longrightarrow> prefix (take i xs) (take j xs)"
  by (metis le_add_diff_inverse prefixI take_add)

lemma concat_take_mono:
  assumes "i \<le> j"
  shows "prefix (concat (map f (take i ds))) (concat (map f (take j ds)))"
proof -
  from take_prefix_mono [OF assms, of ds] obtain zs where "take j ds = take i ds @ zs" by (auto elim: prefixE)
  then show ?thesis by simp
qed

section \<open>Delivery\<close>

lemma u16_wire:
  assumes "encode_tcp U16BeLengthPrefixEncoder d = Some (Inr p)"
  shows "wire_of U16BeLengthPrefixEncoder d = the (u16_frame d)" "length d \<le> 65535" "the (u16_frame d) \<noteq> []"
proof -
  have e: "u16_be_encode_tcp d = Some (Inr p)" using assms by (simp add: U16BeLengthPrefixEncoder_def)
  then show "wire_of U16BeLengthPrefixEncoder d = the (u16_frame d)" by (simp add: wire_of_def u16_frame_def U16BeLengthPrefixEncoder_def)
  show l: "length d \<le> 65535" using e by (simp add: u16_be_encode_tcp_def split: if_splits)
  show "the (u16_frame d) \<noteq> []" using l by (simp add: u16_frame_eq u16_be_bytes)
qed



lemma read_prefix_of_frames:
  assumes "splits_by u16_parse h" "logs_packets h" "\<forall>c\<in>set chunks. c \<noteq> [] \<and> length c \<le> 2 ^ 20"
    and "prefix (concat chunks) (concat (map (the \<circ> u16_frame) ds))"
    and "\<forall>d\<in>set ds. length d \<le> 65535 \<and> (the \<circ> u16_frame) d \<noteq> []"
  shows "\<exists>r m. read_loop h reserve a (map (Received \<circ> Inr) chunks) (reader_init h []) = (None, r) \<and> rd_disp r = take m ds \<and>
    prefix (concat (map (the \<circ> u16_frame) (take m ds))) (concat chunks) \<and>
    (m < length ds \<longrightarrow> length (concat chunks) < length (concat (map (the \<circ> u16_frame) (take (Suc m) ds))))"
proof -
  let ?f = "the \<circ> u16_frame"
  from prefix_of_frames [OF assms(4)] assms(5) obtain m k where m: "m \<le> length ds"
    and x: "concat chunks = concat (map ?f (take m ds)) @ (if m < length ds then take k (?f (ds ! m)) else [])"
    and k: "m < length ds \<longrightarrow> k < length (?f (ds ! m))" by auto
  let ?last = "if m < length ds then ds ! m else []" and ?k = "if m < length ds then k else 0"
  have len: "\<forall>d\<in>set (?last # take m ds). length d \<le> 65535" using assms(5) by (auto dest: in_set_takeD)
  have "?k < length ?last + 2" using k len by (auto simp: u16_frame_eq)
  moreover have "concat chunks = concat (map ?f (take m ds)) @ take ?k (the (u16_frame ?last))" using x by simp
  ultimately obtain r where "read_loop h reserve a (map (Received \<circ> Inr) chunks) (reader_init h []) = (None, r)" "rd_disp r = take m ds"
    using read_loop_frames [OF assms(1-3) len] by blast
  moreover have "length (concat chunks) < length (concat (map ?f (take (Suc m) ds)))" if "m < length ds"
    using that x k by (simp add: take_Suc_conv_app_nth)
  ultimately show ?thesis using x by (intro exI [of _ r] exI [of _ m]) auto
qed


text \<open>One packet is written; the peer has received its first three bytes.\<close>

lemma u16_written:
  obtains p where "encode_tcp U16BeLengthPrefixEncoder [7, 8] = Some (Inr p)" "wire p = Some [0, 2, 7, 8]"
    "write_encoded_packet three_at_a_time p [] = Some (Inr (), [0, 2, 7, 8])"
proof -
  obtain p where p: "u16_be_encode_tcp [7, 8] = Some (Inr (InlinePrefixed p [7, 8]))" "as_slice p = Some [0, 2]"
    using u16_frame_eq [of "[7, 8]"] by (auto simp: u16_frame_def u16_be_bytes u16_be_encode_tcp_def wire_def split: option.splits sum.splits)
  have "write_all_vectored_2 three_at_a_time [0, 2] [7, 8] [] = (Inr (), [0, 2, 7, 8])"
    by (simp add: write_all_vectored_2.simps write_step_def three_at_a_time_def advance_slices_def)
  with p show thesis
    by (intro that [of "InlinePrefixed p [7, 8]"]) (simp_all add: U16BeLengthPrefixEncoder_def write_encoded_packet_def wire_def)
qed



section \<open>Queued connections\<close>

text \<open>A write to a queued sink returns success exactly when its packet has joined the queue; otherwise the queue is as it was.\<close>

lemma queued_write_accepts:
  assumes "queued_write enc q t d outcome w = Some (r, w')"
  shows "if r = Inr () then \<exists>p. encode_tcp enc d = Some (Inr p) \<and> pw_queues w' q = pw_queues w q @ [p] else pw_queues w' = pw_queues w"
  using assms by (auto simp: queued_write_def push_packet_def cancel_token_def split: if_splits option.splits sum.splits send_outcome.splits)

definition encoded_as :: "packet_encoder \<Rightarrow> u8 list list \<Rightarrow> encoded_packet list \<Rightarrow> bool" where
  "encoded_as enc ds ps \<longleftrightarrow> list_all2 (\<lambda>d p. encode_tcp enc d = Some (Inr p)) ds ps"

lemma encoded_u16:
  assumes "encoded_as U16BeLengthPrefixEncoder ds ps"
  shows "map (the \<circ> wire) ps = map (the \<circ> u16_frame) ds" "\<forall>d\<in>set ds. length d \<le> 65535 \<and> (the \<circ> u16_frame) d \<noteq> []" "length ps = length ds"
proof -
  have each: "the (wire p) = the (u16_frame d) \<and> length d \<le> 65535 \<and> the (u16_frame d) \<noteq> []"
    if "encode_tcp U16BeLengthPrefixEncoder d = Some (Inr p)" for d p
    using u16_wire [OF that] that by (simp add: wire_of_def)
  show "map (the \<circ> wire) ps = map (the \<circ> u16_frame) ds" "length ps = length ds" "\<forall>d\<in>set ds. length d \<le> 65535 \<and> (the \<circ> u16_frame) d \<noteq> []"
    using assms each unfolding encoded_as_def by (induction rule: list_all2_induct) auto
qed

text \<open>The stream of a queued connection lies between the frames it has written and those with the next one.\<close>

lemma queued_stream_frames:
  assumes "conn_inv sent [] g q t c" "encoded_as U16BeLengthPrefixEncoder ds (pw_queues (cn_writer c) q)"
  shows "prefix (concat (map (the \<circ> u16_frame) (take (cn_taken c) ds))) (sent (pw_streams (cn_writer c) q))"
    and "prefix (sent (pw_streams (cn_writer c) q)) (concat (map (the \<circ> u16_frame) (take (Suc (cn_taken c)) ds)))"
proof -
  let ?n = "cn_taken c" and ?q = "pw_queues (cn_writer c) q" and ?f = "the \<circ> u16_frame"
  from assms(1) obtain torn where st: "sent (pw_streams (cn_writer c) q) = written_bytes q c @ torn"
    and torn: "torn = [] \<or> torn_packet q c torn" by (auto simp: conn_inv_def)
  note e = encoded_u16 [OF assms(2)]
  have w: "written_bytes q c = concat (map ?f (take ?n ds))"
    unfolding written_bytes_def take_map [symmetric] e(1) ..
  show "prefix (concat (map ?f (take ?n ds))) (sent (pw_streams (cn_writer c) q))" by (simp add: st w)
  show "prefix (sent (pw_streams (cn_writer c) q)) (concat (map ?f (take (Suc ?n) ds)))"
  proof (cases "torn = []")
    case True
    then show ?thesis unfolding st w by (cases "?n < length ds") (simp_all add: take_Suc_conv_app_nth)
  next
    case False
    with torn obtain k where n: "?n < length ?q" and k: "torn = take k (the (wire (?q ! ?n)))" by (auto simp: torn_packet_def)
    have "the (wire (?q ! ?n)) = ?f (ds ! ?n)" using e(1,3) n by (metis comp_apply nth_map)
    then show ?thesis using n e(3) unfolding st w k by (simp add: take_Suc_conv_app_nth take_is_prefix)
  qed
qed

text \<open>C6. End to end for a queued connection with the length-prefix encoder and a peer that splits by it (the raw encoder puts no boundaries on the
  stream): under every interleaving of the connection's halves with each other and with the writers that fill its queue, a
  peer that has received any beginning of the stream, cut in any way, has handed to its dispatcher a beginning of the payloads the queue accepted, in order and
  at most one beyond those the write half has finished; when the whole stream has arrived, so have all of these.\<close>

theorem queued_delivery:
  assumes "async_write_ok aw sent" "registry_inv w" "pw_queues w q = []" "sent (pw_streams w q) = []"
    and "conn_start h' a' q t d w = Inr (g, c0)" "(conn_step h' reserve' aw g q t)\<^sup>*\<^sup>* c0 c"
    and "encoded_as U16BeLengthPrefixEncoder ds (pw_queues (cn_writer c) q)"
    and "splits_by u16_parse h" "logs_packets h" "\<forall>x\<in>set chunks. x \<noteq> [] \<and> length x \<le> 2 ^ 20"
    and "prefix (concat chunks) (sent (pw_streams (cn_writer c) q))"
  shows "\<exists>r. read_loop h reserve a (map (Received \<circ> Inr) chunks) (reader_init h []) = (None, r) \<and>
    prefix (rd_disp r) (take (Suc (cn_taken c)) ds) \<and>
    (concat chunks = sent (pw_streams (cn_writer c) q) \<longrightarrow> prefix (take (cn_taken c) ds) (rd_disp r))"
proof -
  let ?f = "the \<circ> u16_frame" and ?n = "cn_taken c"
  have "conn_inv sent [] g q t c"
    using conn_reachable_inv [OF assms(1,6)] conn_start_inv [OF assms(5,2,3), of sent] assms(4) by simp
  note s = queued_stream_frames [OF this assms(7)] and e = encoded_u16(2) [OF assms(7)]
  have "prefix (concat chunks) (concat (map ?f (take (Suc ?n) ds)))" using assms(11) s(2) by (rule prefix_order.trans)
  from read_prefix_of_frames [OF assms(8-10) this] e obtain r m where
    r: "read_loop h reserve a (map (Received \<circ> Inr) chunks) (reader_init h []) = (None, r)" "rd_disp r = take m (take (Suc ?n) ds)"
    and m: "m < length (take (Suc ?n) ds) \<longrightarrow> length (concat chunks) < length (concat (map ?f (take (Suc m) (take (Suc ?n) ds))))"
    by (meson in_set_takeD)
  have "prefix (take ?n ds) (rd_disp r)" if all: "concat chunks = sent (pw_streams (cn_writer c) q)"
  proof (cases "m < min ?n (length ds)")
    case True
    then have "m < length (take (Suc ?n) ds)" "take (Suc m) (take (Suc ?n) ds) = take (Suc m) ds" by (simp_all add: min_absorb1)
    with m have "length (concat chunks) < length (concat (map ?f (take (Suc m) ds)))" by simp
    also have "\<dots> \<le> length (concat (map ?f (take ?n ds)))"
      using True by (intro prefix_length_le concat_take_mono) simp
    also have "\<dots> \<le> length (concat chunks)" using prefix_length_le [OF s(1)] all by simp
    finally show ?thesis by simp
  next
    case False
    then show ?thesis unfolding r(2) take_take by (cases "?n \<le> m") (simp_all add: take_prefix_mono)
  qed
  with r show ?thesis by (auto simp: take_prefix_mono)
qed

text \<open>A payload is queued and written; the peer has received the first three bytes of its frame.\<close>

theorem queued_delivery_witness:
  "\<exists>(g :: tcp_writer_registration) (c :: (u8 list, u8 list list, unit) conn) r. cn_taken c = 1 \<and> wr_remote_addr g = peer1 \<and>
     encoded_as U16BeLengthPrefixEncoder [[7, 8]] (pw_queues (cn_writer c) 1) \<and>
     read_loop u16_logger (\<lambda>l c a. l + a) peer1 (map (Received \<circ> Inr) [[0, 2], [7]]) (reader_init u16_logger []) = (None, r) \<and>
     prefix (rd_disp r) [[7, 8]]"
proof -
  let ?h = u16_logger and ?res = "\<lambda>l c a. l + a :: nat"
  obtain g c0 where st: "conn_start ?h peer1 1 5 [] new_writer = Inr (g, c0)" and g: "wr_remote_addr g = peer1"
    and c0: "cn_write c0 = None" "cn_taken c0 = 0" "pw_queues (cn_writer c0) 1 = []" "pw_streams (cn_writer c0) 1 = []"
    by (auto simp: conn_start_def insert_registered_tcp_writer_def insert_tcp_sink_def insert_begin_def insert_update_def
        insert_finish_def new_writer_def packet_writer_new_def Let_def)
  obtain p where p: "encode_tcp U16BeLengthPrefixEncoder [7, 8] = Some (Inr p)" "wire p = Some [0, 2, 7, 8]"
    "write_encoded_packet three_at_a_time p [] = Some (Inr (), [0, 2, 7, 8])" by (rule u16_written)
  define c1 where "c1 = c0\<lparr>cn_writer := push_packet 1 p (cn_writer c0)\<rparr>"
  define c2 where "c2 = c1\<lparr>cn_taken := cn_taken c1 + 1,
    cn_writer := (cn_writer c1)\<lparr>pw_streams := (pw_streams (cn_writer c1))(1 := [0, 2, 7, 8])\<rparr>\<rparr>"
  have inv: "registry_inv (push_packet 1 p w) = registry_inv w" for w :: "u8 list packet_writer"
    using registry_rel_cong [of "push_packet 1 p w" w] by (simp add: registry_inv_def push_packet_def)
  have s1: "conn_step ?h ?res three_at_a_time g 1 5 c0 c1"
    unfolding c1_def by (rule conn_step.others) (use p(2) inv in \<open>auto simp: push_packet_def\<close>)
  have s2: "conn_step ?h ?res three_at_a_time g 1 5 c1 c2"
    unfolding c2_def by (rule conn_step.write_more) (use c0 p(3) in \<open>simp_all add: c1_def push_packet_def write_turn_def\<close>)
  from s1 s2 have reach: "(conn_step ?h ?res three_at_a_time g 1 5)\<^sup>*\<^sup>* c0 c2" by (meson converse_rtranclp_into_rtranclp rtranclp.rtrancl_refl)
  have aw: "async_write_ok three_at_a_time (\<lambda>w. w)" by (simp add: async_write_ok_def three_at_a_time_def min_def)
  have w: "registry_inv new_writer" "pw_queues new_writer 1 = []" "pw_streams new_writer 1 = []"
    using registry_rel_new by (auto simp: registry_inv_def new_writer_def packet_writer_new_def)
  have e: "encoded_as U16BeLengthPrefixEncoder [[7, 8]] (pw_queues (cn_writer c2) 1)" "cn_taken c2 = 1"
    using c0 p(1) by (simp_all add: c2_def c1_def push_packet_def encoded_as_def)
  have ch: "\<forall>x\<in>set [[0, 2], [7 :: u8]]. x \<noteq> [] \<and> length x \<le> 2 ^ 20" "prefix (concat [[0, 2], [7]]) (pw_streams (cn_writer c2) 1)"
    by (simp_all add: c2_def)
  from queued_delivery [OF aw w st reach e(1) u16_logger_ok ch, of ?res peer1] obtain r where
    r: "read_loop ?h ?res peer1 (map (Received \<circ> Inr) [[0, 2], [7]]) (reader_init ?h []) = (None, r)" "prefix (rd_disp r) (take (Suc (cn_taken c2)) [[7, 8]])" by blast
  have "take (Suc (cn_taken c2)) [[7, 8 :: u8]] = [[7, 8]]" by simp
  with r e g show ?thesis by metis
qed

end
