(* ===== verification/Managed_Io.thy ===== *)
theory Managed_Io
  imports Tcp_Connection
begin

text \<open>
  The managed endpoint of \<^verbatim>\<open>base/src/net/rw.rs\<close>: the reports its tasks produce, the accept loop, the
  supervisor of the protocol tasks, actively opened connections, connecting, and closing with a
  complete account of every task.

  What a joined task returned, what the operating system answered and what a \<^verbatim>\<open>select!\<close> resolved to
  are arguments. Counters are natural numbers: the source counts tasks in \<^verbatim>\<open>usize\<close>.
\<close>

section \<open>Reports\<close>

record close_report =
  nr_completed :: nat
  nr_cancelled :: nat
  nr_failed :: nat
  nr_panicked :: nat
  nr_remaining :: nat

definition close_report_default :: close_report where
  "close_report_default = \<lparr>nr_completed = 0, nr_cancelled = 0, nr_failed = 0, nr_panicked = 0, nr_remaining = 0\<rparr>"

definition report_is_complete :: "close_report \<Rightarrow> bool" where
  "report_is_complete r \<longleftrightarrow> nr_failed r = 0 \<and> nr_panicked r = 0 \<and> nr_remaining r = 0"

definition close_report_merge :: "close_report \<Rightarrow> task_report \<Rightarrow> close_report" where
  "close_report_merge r other =
     \<lparr>nr_completed = nr_completed r + tr_completed other, nr_cancelled = nr_cancelled r + tr_cancelled other,
      nr_failed = nr_failed r + tr_failed other, nr_panicked = nr_panicked r + tr_panicked other,
      nr_remaining = nr_remaining r + tr_remaining other\<rparr>"

definition merge_network :: "close_report \<Rightarrow> close_report \<Rightarrow> close_report" where
  "merge_network r other =
     \<lparr>nr_completed = nr_completed r + nr_completed other, nr_cancelled = nr_cancelled r + nr_cancelled other,
      nr_failed = nr_failed r + nr_failed other, nr_panicked = nr_panicked r + nr_panicked other,
      nr_remaining = nr_remaining r + nr_remaining other\<rparr>"

definition task_report_merge :: "task_report \<Rightarrow> task_report \<Rightarrow> task_report" where
  "task_report_merge r other =
     \<lparr>tr_completed = tr_completed r + tr_completed other, tr_cancelled = tr_cancelled r + tr_cancelled other,
      tr_failed = tr_failed r + tr_failed other, tr_panicked = tr_panicked r + tr_panicked other,
      tr_remaining = tr_remaining r + tr_remaining other\<rparr>"

text \<open>What a join handle yields.\<close>

datatype 'a joined = Joined 'a | JoinPanic | JoinCancelled | JoinOther

definition record_join_error :: "'a joined \<Rightarrow> close_report \<Rightarrow> close_report" where
  "record_join_error j r =
     (case j of
        JoinPanic \<Rightarrow> r\<lparr>nr_panicked := nr_panicked r + 1\<rparr>
      | JoinCancelled \<Rightarrow> r\<lparr>nr_cancelled := nr_cancelled r + 1, nr_remaining := nr_remaining r + 1\<rparr>
      | _ \<Rightarrow> r\<lparr>nr_failed := nr_failed r + 1\<rparr>)"

fun record_protocol_join :: "task_report joined \<Rightarrow> task_report \<Rightarrow> task_report" where
  "record_protocol_join (Joined other) r = task_report_merge r other"
| "record_protocol_join JoinPanic r = r\<lparr>tr_panicked := tr_panicked r + 1\<rparr>"
| "record_protocol_join JoinCancelled r = r\<lparr>tr_cancelled := tr_cancelled r + 1, tr_remaining := tr_remaining r + 1\<rparr>"
| "record_protocol_join JoinOther r = r\<lparr>tr_failed := tr_failed r + 1\<rparr>"

fun record_connection_join :: "unit global_result joined \<Rightarrow> task_report \<Rightarrow> task_report" where
  "record_connection_join (Joined (Inr _)) r = r\<lparr>tr_completed := tr_completed r + 1\<rparr>"
| "record_connection_join (Joined (Inl e)) r = r\<lparr>tr_failed := tr_failed r + 1\<rparr>"
| "record_connection_join JoinPanic r = r\<lparr>tr_panicked := tr_panicked r + 1\<rparr>"
| "record_connection_join JoinCancelled r = r\<lparr>tr_cancelled := tr_cancelled r + 1, tr_remaining := tr_remaining r + 1\<rparr>"
| "record_connection_join JoinOther r = r\<lparr>tr_failed := tr_failed r + 1\<rparr>"

text \<open>\<^verbatim>\<open>close_report_result\<close>: success exactly for a complete report; \<open>log_failure\<close> only decides whether
  the message is logged.\<close>

definition close_report_text :: "close_report \<Rightarrow> string" where
  "close_report_text r =
     ''managed network close incomplete: completed='' @ show_nat (nr_completed r) @
     '', cancelled='' @ show_nat (nr_cancelled r) @ '', failed='' @ show_nat (nr_failed r) @
     '', panicked='' @ show_nat (nr_panicked r) @ '', remaining='' @ show_nat (nr_remaining r)"

definition close_report_result :: "close_report \<Rightarrow> bool \<Rightarrow> string option \<times> close_report global_result" where
  "close_report_result r log_failure =
     (if report_is_complete r then (None, Inr r)
      else (let (msg, e) = new_sys_error (close_report_text r) in (if log_failure then Some msg else None, Inl e)))"

section \<open>The accept loop\<close>

text \<open>
  What the loop's \<^verbatim>\<open>select!\<close> resolves to, in the order of its arms. \<open>ListenAccepted a c\<close>: a peer was
  accepted and \<open>c\<close> says whether the token is cancelled by now; \<open>ListenFailed c\<close>: accepting failed
  and \<open>c\<close> says whether the pause was cut short by the cancellation.
\<close>

datatype listen_event =
  ListenCancelled
| ListenJoined "unit global_result joined"
| ListenAccepted socket_addr bool
| ListenFailed bool

record listener =
  ls_report :: task_report
  ls_live :: nat       \<comment> \<open>connection tasks in the join set\<close>
  ls_backoff :: nat
  ls_spawned :: "socket_addr list"

definition listener_init :: listener where
  "listener_init = \<lparr>ls_report = report_default, ls_live = 0, ls_backoff = 0, ls_spawned = []\<rparr>"

definition note_cancelled :: "listener \<Rightarrow> listener" where
  "note_cancelled l = l\<lparr>ls_report := (ls_report l)\<lparr>tr_cancelled := tr_cancelled (ls_report l) + 1\<rparr>\<rparr>"

text \<open>One turn: whether the loop goes on. A join can only happen while there are tasks.\<close>

definition listen_turn :: "listen_event \<Rightarrow> listener \<Rightarrow> (bool \<times> listener) option" where
  "listen_turn ev l =
     (case ev of
        ListenCancelled \<Rightarrow> Some (False, note_cancelled l)
      | ListenJoined j \<Rightarrow>
          (if ls_live l = 0 then None
           else Some (True, l\<lparr>ls_report := record_connection_join j (ls_report l), ls_live := ls_live l - 1\<rparr>))
      | ListenAccepted a cancelled \<Rightarrow>
          (if cancelled then Some (False, l)
           else Some (True, l\<lparr>ls_backoff := 0, ls_live := ls_live l + 1, ls_spawned := ls_spawned l @ [a]\<rparr>))
      | ListenFailed stopped \<Rightarrow>
          (let l' = l\<lparr>ls_backoff := next_accept_error_backoff (ls_backoff l)\<rparr> in
           if stopped then Some (False, note_cancelled l') else Some (True, l')))"

text \<open>After the loop every remaining task is joined: \<open>drain\<close> are their results.\<close>

fun listen_drain :: "unit global_result joined list \<Rightarrow> listener \<Rightarrow> task_report option" where
  "listen_drain [] l = (if ls_live l = 0 then Some (ls_report l) else None)"
| "listen_drain (j # js) l =
     (if ls_live l = 0 then None
      else listen_drain js (l\<lparr>ls_report := record_connection_join j (ls_report l), ls_live := ls_live l - 1\<rparr>))"

text \<open>The whole task: \<open>None\<close> while it is still accepting or draining, or for events that cannot
  happen.\<close>

fun listen_loop :: "listen_event list \<Rightarrow> listener \<Rightarrow> listener option" where
  "listen_loop [] l = None"
| "listen_loop (ev # evs) l =
     (case listen_turn ev l of
        None \<Rightarrow> None
      | Some (True, l') \<Rightarrow> listen_loop evs l'
      | Some (False, l') \<Rightarrow> Some l')"

definition run_tcp_listener ::
  "listen_event list \<Rightarrow> unit global_result joined list \<Rightarrow> (task_report \<times> socket_addr list) option" where
  "run_tcp_listener evs drain =
     (case listen_loop evs listener_init of
        None \<Rightarrow> None
      | Some l \<Rightarrow> map_option (\<lambda>r. (r, ls_spawned l)) (listen_drain drain l))"

text \<open>
  The unmanaged accept loops of \<^verbatim>\<open>spawn_tcp\<close> and \<^verbatim>\<open>spawn_tcp_owned\<close> detach their connections and look at
  the cancellation only when no peer is waiting: the peers accepted, the back-off, and whether the
  loop goes on.
\<close>

datatype accept_event = AcceptOk socket_addr | AcceptFailed bool | AcceptCancelled

fun spawn_tcp_task :: "accept_event list \<Rightarrow> socket_addr list \<times> nat \<Rightarrow> bool \<times> socket_addr list \<times> nat" where
  "spawn_tcp_task [] s = (True, s)"
| "spawn_tcp_task (AcceptOk a # evs) (peers, backoff) = spawn_tcp_task evs (peers @ [a], 0)"
| "spawn_tcp_task (AcceptFailed stopped # evs) (peers, backoff) =
     (if stopped then (False, peers, next_accept_error_backoff backoff)
      else spawn_tcp_task evs (peers, next_accept_error_backoff backoff))"
| "spawn_tcp_task (AcceptCancelled # evs) s = (False, s)"

section \<open>The supervisor of the protocol tasks\<close>

datatype supervise_event = ExternalCancel | ProtocolJoined "task_report joined"

text \<open>State: live protocol tasks, whether the external token is still watched, whether the own token
  is cancelled, and the report. \<open>None\<close> while tasks are running or for events that cannot happen.\<close>

fun supervise :: "supervise_event list \<Rightarrow> nat \<Rightarrow> bool \<Rightarrow> bool \<Rightarrow> task_report \<Rightarrow> (bool \<times> task_report) option" where
  "supervise evs 0 watch cancelled r = Some (cancelled, r)"
| "supervise [] (Suc n) watch cancelled r = None"
| "supervise (ExternalCancel # evs) (Suc n) watch cancelled r =
     (if watch then supervise evs (Suc n) False True r else None)"
| "supervise (ProtocolJoined j # evs) (Suc n) watch cancelled r =
     supervise evs n watch cancelled (record_protocol_join j r)"

definition run_managed_packet_io ::
  "'t option \<Rightarrow> 'u option \<Rightarrow> supervise_event list \<Rightarrow> (bool \<times> task_report) option" where
  "run_managed_packet_io tcp udp evs =
     (let tasks = (if tcp = None then 0 else 1) + (if udp = None then 0 else 1) in
      if tasks = 0 then Some (False, report_default\<lparr>tr_completed := tr_completed report_default + 1\<rparr>)
      else supervise evs tasks True False report_default)"

section \<open>Managed connections and the endpoint\<close>

text \<open>An actively opened connection; \<open>mc_task\<close>: its task has not been joined yet.\<close>

record managed_conn =
  mc_remote_addr :: socket_addr
  mc_local_addr :: socket_addr
  mc_token :: nat
  mc_task :: bool
  mc_report :: close_report
  mc_completed :: bool
  mc_failure_logged :: bool
  mc_owner_registered :: bool

text \<open>The endpoint: the connections it has opened by their identifier, those it still owns in the order
  its map yields them, and the state of its close.\<close>

record 'w endpoint =
  ep_writer :: "'w packet_writer"
  ep_cancelled :: bool
  ep_connecting :: "socket_addr set"
  ep_conns :: "u64 \<rightharpoonup> managed_conn"
  ep_active :: "u64 list"
  ep_done_report :: close_report
  ep_next_id :: u64
  ep_root_task :: bool
  ep_report :: close_report
  ep_writer_closed :: bool
  ep_completed :: bool
  ep_failure_logged :: bool

definition endpoint_new :: "'w packet_writer \<Rightarrow> 'w endpoint" where
  "endpoint_new w =
     \<lparr>ep_writer = w, ep_cancelled = False, ep_connecting = {}, ep_conns = Map.empty, ep_active = [],
      ep_done_report = close_report_default, ep_next_id = 1, ep_root_task = True,
      ep_report = close_report_default, ep_writer_closed = False, ep_completed = False,
      ep_failure_logged = False\<rparr>"

text \<open>\<^verbatim>\<open>finalize_owner\<close>: the first caller hands the report to the owner and leaves its map.\<close>

definition finalize_owner :: "u64 \<Rightarrow> close_report \<Rightarrow> 'w endpoint \<Rightarrow> 'w endpoint" where
  "finalize_owner i report ep =
     (case ep_conns ep i of
        None \<Rightarrow> ep
      | Some c \<Rightarrow>
          if mc_owner_registered c
          then ep\<lparr>ep_conns := (ep_conns ep)(i \<mapsto> c\<lparr>mc_owner_registered := False\<rparr>),
                  ep_done_report := merge_network (ep_done_report ep) report,
                  ep_active := filter (\<lambda>j. j \<noteq> i) (ep_active ep)\<rparr>
          else ep)"

text \<open>What joining the connection's task adds to its report.\<close>

definition record_task_join :: "unit global_result joined \<Rightarrow> close_report \<Rightarrow> close_report" where
  "record_task_join j r =
     (case j of
        Joined (Inr _) \<Rightarrow> r\<lparr>nr_completed := nr_completed r + 1\<rparr>
      | Joined (Inl e) \<Rightarrow> r\<lparr>nr_failed := nr_failed r + 1\<rparr>
      | _ \<Rightarrow> record_join_error j r)"

text \<open>\<^verbatim>\<open>ManagedTcpConnection::close_and_wait\<close>; \<open>j\<close> is what its task yields.\<close>

definition conn_close_and_wait ::
  "u64 \<Rightarrow> unit global_result joined \<Rightarrow> 'w endpoint \<Rightarrow> close_report global_result option \<times> 'w endpoint" where
  "conn_close_and_wait i j ep =
     (case ep_conns ep i of
        None \<Rightarrow> (None, ep)
      | Some c \<Rightarrow>
          if mc_completed c
          then (Some (snd (close_report_result (mc_report c) False)), finalize_owner i (mc_report c) ep)
          else (let report = (if mc_task c then record_task_join j (mc_report c) else mc_report c);
                    log_failure = (\<not> mc_failure_logged c);
                    c' = c\<lparr>mc_task := False, mc_report := report, mc_completed := True,
                           mc_failure_logged := (if report_is_complete report then mc_failure_logged c else True)\<rparr>;
                    ep' = ep\<lparr>ep_writer := cancel_token (mc_token c) (ep_writer ep), ep_conns := (ep_conns ep)(i \<mapsto> c')\<rparr> in
                (Some (snd (close_report_result report log_failure)), finalize_owner i report ep')))"

text \<open>The part before the task is awaited: what is left when the future is dropped while it waits.\<close>

definition conn_close_begin :: "u64 \<Rightarrow> 'w endpoint \<Rightarrow> 'w endpoint" where
  "conn_close_begin i ep =
     (case ep_conns ep i of
        None \<Rightarrow> ep
      | Some c \<Rightarrow> if mc_completed c then ep else ep\<lparr>ep_writer := cancel_token (mc_token c) (ep_writer ep)\<rparr>)"

text \<open>\<open>try_lock\<close> of the connection's close state fails while somebody is closing it (\<open>closing\<close>);
  \<open>finished\<close> are the connections whose task has ended.\<close>

definition task_is_finished :: "u64 set \<Rightarrow> u64 set \<Rightarrow> u64 \<Rightarrow> 'w endpoint \<Rightarrow> bool" where
  "task_is_finished closing finished i ep =
     (case ep_conns ep i of
        None \<Rightarrow> False
      | Some c \<Rightarrow> i \<notin> closing \<and> (mc_completed c \<or> \<not> mc_task c \<or> i \<in> finished))"

fun close_conns :: "(u64 \<Rightarrow> unit global_result joined) \<Rightarrow> u64 list \<Rightarrow> 'w endpoint \<Rightarrow> 'w endpoint" where
  "close_conns joins [] ep = ep"
| "close_conns joins (i # is) ep = close_conns joins is (snd (conn_close_and_wait i (joins i) ep))"

definition reap_finished_connections ::
  "u64 set \<Rightarrow> u64 set \<Rightarrow> (u64 \<Rightarrow> unit global_result joined) \<Rightarrow> 'w endpoint \<Rightarrow> 'w endpoint" where
  "reap_finished_connections closing finished joins ep =
     close_conns joins (filter (\<lambda>i. task_is_finished closing finished i ep) (ep_active ep)) ep"

text \<open>Writing through a connection's handle looks its peer up in the shared writer. Dropping the last handle cancels the connection; dropping the endpoint cancels it and
  the connections it owns, whose tokens are children of its own, and waits for nothing.\<close>

definition conn_write ::
  "packet_encoder \<Rightarrow> 'w async_write \<Rightarrow> (io_error \<Rightarrow> string) \<Rightarrow> 'w sink_env \<Rightarrow> udp_outcome \<Rightarrow> u8 list \<Rightarrow> managed_conn \<Rightarrow>
   'w packet_writer \<Rightarrow> (unit global_result \<times> 'w packet_writer) option" where
  "conn_write enc aw dbg env udp data c w = write_to enc aw dbg env udp data (mc_remote_addr c) ProtoTCP w"

definition conn_drop :: "u64 \<Rightarrow> 'w endpoint \<Rightarrow> 'w endpoint" where
  "conn_drop i ep =
     (case ep_conns ep i of None \<Rightarrow> ep | Some c \<Rightarrow> ep\<lparr>ep_writer := cancel_token (mc_token c) (ep_writer ep)\<rparr>)"

definition endpoint_drop :: "'w endpoint \<Rightarrow> 'w endpoint" where
  "endpoint_drop ep = fold conn_drop (ep_active ep) (ep\<lparr>ep_cancelled := True\<rparr>)"

section \<open>Connecting\<close>

fun sa_is_ipv4 :: "socket_addr \<Rightarrow> bool" where
  "sa_is_ipv4 (SaV4 ip port) = True"
| "sa_is_ipv4 (SaV6 ip port flowinfo scope_id) = False"

record connect_options =
  co_remote_addr :: socket_addr
  co_local_addr :: "socket_addr option"
  co_timeout :: nat

definition managed_tcp_connect_cancelled :: global_error where
  "managed_tcp_connect_cancelled = sys_err ''managed tcp connect cancelled''"

definition reserve_tcp_connect :: "socket_addr \<Rightarrow> 'w endpoint \<Rightarrow> unit global_result \<times> 'w endpoint" where
  "reserve_tcp_connect a ep =
     (if has_tcp_writer a (ep_writer ep) \<or> a \<in> ep_connecting ep
      then (Inl (sys_err ''managed tcp connection already exists''), ep)
      else (Inr (), ep\<lparr>ep_connecting := insert a (ep_connecting ep)\<rparr>))"

definition release_tcp_connect :: "socket_addr \<Rightarrow> 'w endpoint \<Rightarrow> 'w endpoint" where
  "release_tcp_connect a ep = ep\<lparr>ep_connecting := ep_connecting ep - {a}\<rparr>"

text \<open>What happens between the reservation and the registration: a failure of the socket calls or the
  spawn, the cancellation or the timeout while connecting; or a connection whose task became ready
  or not, registering its writer as \<open>ready_writer\<close>.\<close>

datatype 'w connect_outcome =
  SocketError "string \<times> string"
| ConnectCancelled
| ConnectTimedOut
| SpawnError global_error
| ConnectedTo socket_addr nat bool "'w packet_writer"   \<comment> \<open>local address, token, ready, writer then\<close>

definition new_connection :: "connect_options \<Rightarrow> socket_addr \<Rightarrow> nat \<Rightarrow> managed_conn" where
  "new_connection options local_addr t =
     \<lparr>mc_remote_addr = co_remote_addr options, mc_local_addr = local_addr, mc_token = t, mc_task = True,
      mc_report = close_report_default, mc_completed = False, mc_failure_logged = False,
      mc_owner_registered = False\<rparr>"

text \<open>The part after the reservation; \<open>late\<close>: the endpoint was cancelled when the connection was ready
  and the close lock was taken.\<close>

definition connect_reserved ::
  "connect_options \<Rightarrow> 'w connect_outcome \<Rightarrow> bool \<Rightarrow> unit global_result joined \<Rightarrow> 'w endpoint \<Rightarrow>
   u64 global_result \<times> 'w endpoint" where
  "connect_reserved options outcome late j ep =
     (case outcome of
        SocketError e \<Rightarrow> (snd (hand_log (Inl e)), ep)
      | ConnectCancelled \<Rightarrow> (Inl managed_tcp_connect_cancelled, ep)
      | ConnectTimedOut \<Rightarrow> (Inl (sys_err ''managed tcp connect timed out''), ep)
      | SpawnError e \<Rightarrow> (Inl e, ep)
      | ConnectedTo local_addr t ready w \<Rightarrow>
          (let i = ep_next_id ep;
               ep1 = ep\<lparr>ep_next_id := ep_next_id ep + 1, ep_writer := w,
                        ep_conns := (ep_conns ep)(i \<mapsto> new_connection options local_addr t)\<rparr> in
           if \<not> ready then (Inl managed_tcp_connect_cancelled, snd (conn_close_and_wait i j ep1))
           else if late \<or> ep_completed ep1
           then (Inl managed_tcp_connect_cancelled, snd (conn_close_and_wait i j ep1))
           else (Inr i, ep1\<lparr>ep_conns := (ep_conns ep1)(i \<mapsto> (new_connection options local_addr t)\<lparr>mc_owner_registered := True\<rparr>),
                            ep_active := ep_active ep1 @ [i]\<rparr>)))"

definition connect_tcp ::
  "connect_options \<Rightarrow> u64 set \<Rightarrow> u64 set \<Rightarrow> (u64 \<Rightarrow> unit global_result joined) \<Rightarrow> 'w connect_outcome \<Rightarrow> bool \<Rightarrow>
   'w endpoint \<Rightarrow> u64 global_result \<times> 'w endpoint" where
  "connect_tcp options closing finished joins outcome late ep =
     (let a = co_remote_addr options in
      if co_timeout options = 0 then (Inl (sys_err ''managed tcp connect timeout must be greater than zero''), ep)
      else if (case co_local_addr options of Some l \<Rightarrow> sa_is_ipv4 l \<noteq> sa_is_ipv4 a | None \<Rightarrow> False)
      then (Inl (sys_err ''managed tcp local and remote address families differ''), ep)
      else if ep_cancelled ep then (Inl managed_tcp_connect_cancelled, ep)
      else (case reserve_tcp_connect a ep of
        (Inl e, ep') \<Rightarrow> (Inl e, ep')
      | (Inr _, ep') \<Rightarrow>
          (let ep'' = reap_finished_connections closing finished joins ep';
               (res, ep3) = connect_reserved options outcome (late \<or> ep_cancelled ep'') (joins (ep_next_id ep'')) ep'' in
           (res, release_tcp_connect a ep3))))"

section \<open>Closing the endpoint\<close>

text \<open>
  Closing in its parts. The close lock is held throughout, so no connection is added meanwhile;
  \<open>order\<close> and \<open>shut\<close> are the arguments of the writer's close, \<open>joins\<close> and \<open>root\<close> what the tasks yield.
\<close>

definition close_writer_part ::
  "socket_addr list \<Rightarrow> (nat \<Rightarrow> (string \<times> string) + unit) \<Rightarrow> 'w endpoint \<Rightarrow> 'w endpoint" where
  "close_writer_part order shut ep =
     (let ep1 = ep\<lparr>ep_cancelled := True\<rparr> in
      if ep_writer_closed ep1 then ep1
      else (case packet_writer_close order shut (ep_writer ep1) of
        (r, w) \<Rightarrow>
          ep1\<lparr>ep_writer := w, ep_writer_closed := True,
              ep_report := (case r of Inl e \<Rightarrow> (ep_report ep1)\<lparr>nr_failed := nr_failed (ep_report ep1) + 1\<rparr>
                            | Inr _ \<Rightarrow> ep_report ep1)\<rparr>))"

text \<open>The loop over the owned connections; each round closes all that are still owned. The rounds end
  because a close gives up ownership; \<open>fuel\<close> bounds them and one more round than owned connections
  is enough.\<close>

fun close_active_rounds :: "(u64 \<Rightarrow> unit global_result joined) \<Rightarrow> nat \<Rightarrow> 'w endpoint \<Rightarrow> 'w endpoint option" where
  "close_active_rounds joins 0 ep = None"
| "close_active_rounds joins (Suc fuel) ep =
     (if ep_active ep = [] then Some ep
      else close_active_rounds joins fuel (close_conns joins (ep_active ep) ep))"

definition take_done_report :: "'w endpoint \<Rightarrow> 'w endpoint" where
  "take_done_report ep =
     ep\<lparr>ep_done_report := close_report_default, ep_report := merge_network (ep_report ep) (ep_done_report ep)\<rparr>"

definition join_root :: "task_report joined \<Rightarrow> 'w endpoint \<Rightarrow> 'w endpoint" where
  "join_root root ep =
     (if ep_root_task ep
      then ep\<lparr>ep_root_task := False,
              ep_report := (case root of Joined r \<Rightarrow> close_report_merge (ep_report ep) r
                            | _ \<Rightarrow> record_join_error root (ep_report ep))\<rparr>
      else ep)"

definition close_finish :: "'w endpoint \<Rightarrow> close_report global_result \<times> 'w endpoint" where
  "close_finish ep =
     (let log_failure = (\<not> ep_failure_logged ep) in
      (snd (close_report_result (ep_report ep) log_failure),
       ep\<lparr>ep_completed := True,
          ep_failure_logged := (if report_is_complete (ep_report ep) then ep_failure_logged ep else True)\<rparr>))"

text \<open>
  The caller may drop the future at an await: \<open>DroppedAtConn n\<close> while the \<open>n\<close>-th owned connection of the
  first round is being joined, \<open>DroppedAtRoot\<close> while the root task is, \<open>NotDropped\<close> never.
\<close>

datatype drop_point = DroppedAtConn nat | DroppedAtRoot | NotDropped

definition close_and_wait ::
  "drop_point \<Rightarrow> socket_addr list \<Rightarrow> (nat \<Rightarrow> (string \<times> string) + unit) \<Rightarrow> (u64 \<Rightarrow> unit global_result joined) \<Rightarrow>
   task_report joined \<Rightarrow> 'w endpoint \<Rightarrow> (close_report global_result option \<times> 'w endpoint) option" where
  "close_and_wait stop order shut joins root ep =
     (if ep_completed ep then Some (Some (snd (close_report_result (ep_report ep) False)), ep)
      else (let ep1 = close_writer_part order shut ep in
        case stop of
          DroppedAtConn n \<Rightarrow>
            (let ep2 = close_conns joins (take n (ep_active ep1)) ep1 in
             Some (None, case drop n (ep_active ep1) of [] \<Rightarrow> ep2 | i # _ \<Rightarrow> conn_close_begin i ep2))
        | _ \<Rightarrow>
            (case close_active_rounds joins (Suc (Suc (length (ep_active ep1)))) ep1 of
               None \<Rightarrow> None
             | Some ep2 \<Rightarrow>
                 (let ep3 = take_done_report ep2 in
                  if stop = DroppedAtRoot then Some (None, ep3)
                  else (case close_finish (join_root root ep3) of (r, ep4) \<Rightarrow> Some (Some r, ep4))))))"

text \<open>Dropped while the writer's close awaits its \<open>n\<close>-th sink: the writer is not yet marked as closed.\<close>

definition close_dropped_at_writer ::
  "nat \<Rightarrow> socket_addr list \<Rightarrow> (nat \<Rightarrow> (string \<times> string) + unit) \<Rightarrow> 'w endpoint \<Rightarrow> 'w endpoint" where
  "close_dropped_at_writer n order shut ep =
     (if ep_completed ep \<or> ep_writer_closed ep then ep
      else ep\<lparr>ep_cancelled := True, ep_writer := packet_writer_close_dropped n order shut (ep_writer ep)\<rparr>)"

text \<open>What can happen to an endpoint: connecting, closing or dropping a connection, reaping, whatever other tasks do to the shared writer, and
  closing the endpoint with the future dropped somewhere or not at all.\<close>

datatype 'w endpoint_op =
  OpConnect connect_options "u64 set" "u64 set" "u64 \<Rightarrow> unit global_result joined" "'w connect_outcome" bool
| OpReap "u64 set" "u64 set" "u64 \<Rightarrow> unit global_result joined"
| OpConnClose u64 "unit global_result joined"
| OpConnDrop u64
| OpWriter "'w packet_writer"
| OpClose drop_point "socket_addr list" "nat \<Rightarrow> (string \<times> string) + unit" "u64 \<Rightarrow> unit global_result joined" "task_report joined"
| OpCloseDroppedAtWriter nat "socket_addr list" "nat \<Rightarrow> (string \<times> string) + unit"

fun endpoint_step :: "'w endpoint \<Rightarrow> 'w endpoint_op \<Rightarrow> 'w endpoint option" where
  "endpoint_step ep (OpConnect options closing finished joins outcome late) =
     Some (snd (connect_tcp options closing finished joins outcome late ep))"
| "endpoint_step ep (OpReap closing finished joins) = Some (reap_finished_connections closing finished joins ep)"
| "endpoint_step ep (OpConnClose i j) = Some (snd (conn_close_and_wait i j ep))"
| "endpoint_step ep (OpConnDrop i) = Some (conn_drop i ep)"
| "endpoint_step ep (OpWriter w) = Some (ep\<lparr>ep_writer := w\<rparr>)"
| "endpoint_step ep (OpClose stop order shut joins root) = map_option snd (close_and_wait stop order shut joins root ep)"
| "endpoint_step ep (OpCloseDroppedAtWriter n order shut) = Some (close_dropped_at_writer n order shut ep)"

section \<open>Entry points\<close>

text \<open>\<open>prep\<close> gives the operating system's answers for turning the standard sockets into
  asynchronous ones: the listener and the socket, or the first error.\<close>

definition prepare_packet_io ::
  "('t \<Rightarrow> (string \<times> string) + 'l) \<Rightarrow> ('u \<Rightarrow> (string \<times> string) + nat) \<Rightarrow> 't option \<times> 'u option \<Rightarrow> tcp_write_mode \<Rightarrow>
   (nat \<Rightarrow> 'w) \<Rightarrow> ('l option \<times> nat option \<times> 'w packet_writer) global_result" where
  "prepare_packet_io prep_tcp prep_udp tu mode streams =
     (case (case fst tu of None \<Rightarrow> Inr None | Some t \<Rightarrow> map_sum id Some (snd (hand_log (prep_tcp t)))) of
        Inl e \<Rightarrow> Inl e
      | Inr tcp \<Rightarrow>
          (case (case snd tu of None \<Rightarrow> Inr None | Some u \<Rightarrow> map_sum id Some (snd (hand_log (prep_udp u)))) of
             Inl e \<Rightarrow> Inl e
           | Inr udp \<Rightarrow> Inr (tcp, udp, packet_writer_new udp mode streams)))"

text \<open>\<open>spawn\<close> is the runtime's: it refuses when the runtime is shutting down.\<close>

definition managed_rw_with_tcp_write_mode ::
  "('t \<Rightarrow> (string \<times> string) + 'l) \<Rightarrow> ('u \<Rightarrow> (string \<times> string) + nat) \<Rightarrow> unit global_result \<Rightarrow>
   't option \<times> 'u option \<Rightarrow> tcp_write_mode \<Rightarrow> (nat \<Rightarrow> 'w) \<Rightarrow> 'w endpoint global_result" where
  "managed_rw_with_tcp_write_mode prep_tcp prep_udp spawn tu mode streams =
     (case prepare_packet_io prep_tcp prep_udp tu mode streams of
        Inl e \<Rightarrow> Inl e
      | Inr (tcp, udp, w) \<Rightarrow> (case spawn of Inl e \<Rightarrow> Inl e | Inr _ \<Rightarrow> Inr (endpoint_new w)))"

definition managed_rw ::
  "('t \<Rightarrow> (string \<times> string) + 'l) \<Rightarrow> ('u \<Rightarrow> (string \<times> string) + nat) \<Rightarrow> unit global_result \<Rightarrow>
   't option \<times> 'u option \<Rightarrow> (nat \<Rightarrow> 'w) \<Rightarrow> 'w endpoint global_result" where
  "managed_rw prep_tcp prep_udp spawn tu streams =
     managed_rw_with_tcp_write_mode prep_tcp prep_udp spawn tu default_write_mode streams"

definition managed_direct_rw ::
  "('t \<Rightarrow> (string \<times> string) + 'l) \<Rightarrow> ('u \<Rightarrow> (string \<times> string) + nat) \<Rightarrow> unit global_result \<Rightarrow>
   't option \<times> 'u option \<Rightarrow> (nat \<Rightarrow> 'w) \<Rightarrow> 'w endpoint global_result" where
  "managed_direct_rw prep_tcp prep_udp spawn tu streams =
     managed_rw_with_tcp_write_mode prep_tcp prep_udp spawn tu Direct streams"

text \<open>The detached variants: which loops are started, and the writer.\<close>

datatype loop_task = TcpLoop | UdpLoop

definition rw_with_tcp_write_mode ::
  "('t \<Rightarrow> (string \<times> string) + 'l) \<Rightarrow> ('u \<Rightarrow> (string \<times> string) + nat) \<Rightarrow> 't option \<times> 'u option \<Rightarrow>
   tcp_write_mode \<Rightarrow> (nat \<Rightarrow> 'w) \<Rightarrow> (loop_task list \<times> 'w packet_writer) global_result" where
  "rw_with_tcp_write_mode prep_tcp prep_udp tu mode streams =
     (case prepare_packet_io prep_tcp prep_udp tu mode streams of
        Inl e \<Rightarrow> Inl e
      | Inr (tcp, udp, w) \<Rightarrow>
          Inr ((if tcp = None then [] else [TcpLoop]) @ (if udp = None then [] else [UdpLoop]), w))"

text \<open>The readers start their loops one after the other: \<open>spawn_tcp\<close> and \<open>spawn_udp\<close> say how preparing
  each of them ends.\<close>

definition reader ::
  "unit global_result \<Rightarrow> unit global_result \<Rightarrow> 't option \<times> 'u option \<Rightarrow> loop_task list \<times> unit global_result" where
  "reader spawn_tcp spawn_udp tu =
     (let start = (\<lambda>task r. case r of Inl e \<Rightarrow> ([], Inl e) | Inr _ \<Rightarrow> ([task], Inr ())) in
      case tu of
        (Some tcp, None) \<Rightarrow> start TcpLoop spawn_tcp
      | (None, Some udp) \<Rightarrow> start UdpLoop spawn_udp
      | (Some tcp, Some udp) \<Rightarrow>
          (case start TcpLoop spawn_tcp of
             (ts, Inl e) \<Rightarrow> (ts, Inl e)
           | (ts, Inr _) \<Rightarrow> (let (us, r) = start UdpLoop spawn_udp in (ts @ us, r)))
      | (None, None) \<Rightarrow> ([], Inr ()))"

definition rw ::
  "('t \<Rightarrow> (string \<times> string) + 'l) \<Rightarrow> ('u \<Rightarrow> (string \<times> string) + nat) \<Rightarrow> 't option \<times> 'u option \<Rightarrow>
   (nat \<Rightarrow> 'w) \<Rightarrow> (loop_task list \<times> 'w packet_writer) global_result" where
  "rw prep_tcp prep_udp tu streams = rw_with_tcp_write_mode prep_tcp prep_udp tu default_write_mode streams"

definition direct_rw ::
  "('t \<Rightarrow> (string \<times> string) + 'l) \<Rightarrow> ('u \<Rightarrow> (string \<times> string) + nat) \<Rightarrow> 't option \<times> 'u option \<Rightarrow>
   (nat \<Rightarrow> 'w) \<Rightarrow> (loop_task list \<times> 'w packet_writer) global_result" where
  "direct_rw prep_tcp prep_udp tu streams = rw_with_tcp_write_mode prep_tcp prep_udp tu Direct streams"

text \<open>\<^verbatim>\<open>raw_rw\<close> fixes the encoder; the operations of the writer take it as an argument.\<close>

definition raw_rw ::
  "('t \<Rightarrow> (string \<times> string) + 'l) \<Rightarrow> ('u \<Rightarrow> (string \<times> string) + nat) \<Rightarrow> 't option \<times> 'u option \<Rightarrow>
   (nat \<Rightarrow> 'w) \<Rightarrow> (loop_task list \<times> packet_encoder \<times> 'w packet_writer) global_result" where
  "raw_rw prep_tcp prep_udp tu streams =
     (case rw prep_tcp prep_udp tu streams of Inl e \<Rightarrow> Inl e | Inr (tasks, w) \<Rightarrow> Inr (tasks, RawPacketEncoder, w))"

text \<open>Turning a datagram socket of the standard library into an asynchronous one: \<open>nonblocking\<close> and \<open>from_std\<close> are the answers of the two calls.\<close>

definition into_tokio_udp_socket :: "(string \<times> string) + unit \<Rightarrow> (string \<times> string) + nat \<Rightarrow> nat global_result" where
  "into_tokio_udp_socket nonblocking from_std =
     (case snd (hand_log nonblocking) of Inl e \<Rightarrow> Inl e | Inr _ \<Rightarrow> snd (hand_log from_std))"

text \<open>The accept loop of \<^verbatim>\<open>spawn_tcp_owned\<close> and its reader; a loop starts when its socket can be made asynchronous.\<close>

fun spawn_tcp_owned_task :: "accept_event list \<Rightarrow> socket_addr list \<times> nat \<Rightarrow> bool \<times> socket_addr list \<times> nat" where
  "spawn_tcp_owned_task [] s = (True, s)"
| "spawn_tcp_owned_task (ev # evs) (peers, backoff) =
     (case ev of
        AcceptOk a \<Rightarrow> spawn_tcp_owned_task evs (peers @ [a], 0)
      | AcceptFailed stopped \<Rightarrow>
          (let backoff' = next_accept_error_backoff backoff in
           if stopped then (False, peers, backoff') else spawn_tcp_owned_task evs (peers, backoff'))
      | AcceptCancelled \<Rightarrow> (False, peers, backoff))"

definition spawn_owned :: "loop_task \<Rightarrow> (string \<times> string) + 'l \<Rightarrow> loop_task list \<times> unit global_result" where
  "spawn_owned task prepared = (case snd (hand_log prepared) of Inl e \<Rightarrow> ([], Inl e) | Inr _ \<Rightarrow> ([task], Inr ()))"

definition owned_reader ::
  "('t \<Rightarrow> (string \<times> string) + 'l) \<Rightarrow> ('u \<Rightarrow> (string \<times> string) + nat) \<Rightarrow> 't option \<times> 'u option \<Rightarrow>
   loop_task list \<times> unit global_result" where
  "owned_reader prep_tcp prep_udp tu =
     (case tu of
        (Some tcp, None) \<Rightarrow> spawn_owned TcpLoop (prep_tcp tcp)
      | (None, Some udp) \<Rightarrow> spawn_owned UdpLoop (prep_udp udp)
      | (Some tcp, Some udp) \<Rightarrow>
          (case spawn_owned TcpLoop (prep_tcp tcp) of
             (ts, Inl e) \<Rightarrow> (ts, Inl e)
           | (ts, Inr _) \<Rightarrow> (let (us, r) = spawn_owned UdpLoop (prep_udp udp) in (ts @ us, r)))
      | (None, None) \<Rightarrow> ([], Inr ()))"

text \<open>Both loops are the same, and so are both readers.\<close>

lemma spawn_tcp_owned_task_eq: "spawn_tcp_owned_task evs s = spawn_tcp_task evs s"
  by (induction evs s rule: spawn_tcp_task.induct) (auto simp: Let_def)

lemma owned_reader_eq:
  assumes "tcp \<noteq> None \<Longrightarrow> map_sum id (\<lambda>_. ()) (snd (hand_log (prep_tcp (the tcp)))) = spawn_tcp"
    and "udp \<noteq> None \<Longrightarrow> map_sum id (\<lambda>_. ()) (snd (hand_log (prep_udp (the udp)))) = spawn_udp"
  shows "owned_reader prep_tcp prep_udp (tcp, udp) = reader spawn_tcp spawn_udp (tcp, udp)"
  using assms
  by (cases tcp; cases udp) (auto simp: owned_reader_def reader_def spawn_owned_def Let_def split: sum.splits)

text \<open>When the second socket cannot be prepared the managed and detached endpoints start nothing, but a reader that reports the error leaves its first loop running.\<close>

lemma reader_partial_start:
  assumes "snd (hand_log (prep_tcp tcp)) = Inr l" "snd (hand_log (prep_udp udp)) = Inl e"
  shows "owned_reader prep_tcp prep_udp (Some tcp, Some udp) = ([TcpLoop], Inl e)"
    "rw prep_tcp prep_udp (Some tcp, Some udp) streams = Inl e"
  using assms by (simp_all add: owned_reader_def spawn_owned_def rw_def rw_with_tcp_write_mode_def prepare_packet_io_def)

end
