(* ===== verification/Managed_Io_Inv.thy ===== *)
theory Managed_Io_Inv
  imports Managed_Io
begin

text \<open>
  The managed endpoint accounts for every task exactly once: the accept loop for every connection it
  spawned, the supervisor for its protocol tasks in whatever order they end, and the close for
  every connection it owned, also when the closing future was dropped and the close called again.
\<close>

section \<open>Reports form a commutative monoid\<close>

locale report_monoid =
  fixes merge :: "'r \<Rightarrow> 'r \<Rightarrow> 'r"
    and none :: 'r
  assumes merge_assoc: "merge (merge a b) c = merge a (merge b c)"
    and merge_commute: "merge a b = merge b a"
    and merge_none: "merge a none = a"
begin

lemma merge_left_commute: "merge a (merge b c) = merge b (merge a c)"
  by (metis merge_assoc merge_commute)

lemma fold_merge_mset:
  assumes "mset xs = mset ys"
  shows "fold (\<lambda>x r. merge r x) xs r = fold (\<lambda>x r. merge r x) ys r"
proof -
  have "fold (\<lambda>x r. merge r x) xs = fold (\<lambda>x r. merge r x) ys"
    by (rule fold_multiset_equiv [OF _ assms]) (auto simp: fun_eq_iff merge_assoc intro: arg_cong [OF merge_commute])
  then show ?thesis by simp
qed

lemma fold_merge_start: "fold (\<lambda>x r. merge r x) xs (merge r s) = merge r (fold (\<lambda>x r. merge r x) xs s)"
  by (induction xs arbitrary: s) (simp_all add: merge_assoc)

end

interpretation network_report: report_monoid merge_network close_report_default
  by unfold_locales (simp_all add: merge_network_def close_report_default_def ac_simps)

interpretation protocol_report: report_monoid task_report_merge report_default
  by unfold_locales (simp_all add: task_report_merge_def report_default_def ac_simps)

section \<open>The accept loop\<close>

definition report_settled :: "task_report \<Rightarrow> nat" where
  "report_settled r = tr_completed r + tr_failed r + tr_panicked r + tr_remaining r"

lemma record_connection_join_counts:
  "report_settled (record_connection_join j r) = report_settled r + 1"
  "tr_cancelled (record_connection_join j r) + tr_remaining r = tr_cancelled r + tr_remaining (record_connection_join j r)"
  by (cases "(j, r)" rule: record_connection_join.cases; simp add: report_settled_def)+

text \<open>\<open>cancels\<close> counts the cancellations noted by the loop itself.\<close>

definition listener_ok :: "nat \<Rightarrow> listener \<Rightarrow> bool" where
  "listener_ok cancels l \<longleftrightarrow>
     report_settled (ls_report l) + ls_live l = length (ls_spawned l) \<and>
     tr_cancelled (ls_report l) = tr_remaining (ls_report l) + cancels"

lemma listen_turn_ok:
  assumes "listen_turn ev l = Some (go_on, l')" "listener_ok 0 l"
  shows "\<exists>n\<le>1. listener_ok n l' \<and> (go_on \<longrightarrow> n = 0)"
proof (cases ev)
  case (ListenJoined j)
  then show ?thesis using assms record_connection_join_counts [of j "ls_report l"]
    by (auto simp: listen_turn_def listener_ok_def split: if_splits)
qed (use assms in \<open>auto simp: listen_turn_def listener_ok_def note_cancelled_def report_settled_def Let_def split: if_splits\<close>)

lemma listen_loop_ok:
  "listen_loop evs l = Some l' \<Longrightarrow> listener_ok 0 l \<Longrightarrow> \<exists>n\<le>1. listener_ok n l'"
proof (induction evs l rule: listen_loop.induct)
  case (2 ev evs l)
  then show ?case
    using listen_turn_ok [of ev l] by (force split: option.splits bool.splits prod.splits)
qed simp

lemma listen_drain_iff: "(\<exists>r. listen_drain js l = Some r) \<longleftrightarrow> length js = ls_live l"
  by (induction js l rule: listen_drain.induct) auto

lemma listen_drain_ok:
  "listen_drain js l = Some r \<Longrightarrow> listener_ok n l \<Longrightarrow>
     report_settled r = length (ls_spawned l) \<and> tr_cancelled r = tr_remaining r + n"
proof (induction js l rule: listen_drain.induct)
  case (2 j js l)
  let ?l = "l\<lparr>ls_report := record_connection_join j (ls_report l), ls_live := ls_live l - 1\<rparr>"
  have "listener_ok n ?l"
    using 2(2,3) record_connection_join_counts [of j "ls_report l"] by (auto simp: listener_ok_def split: if_splits)
  with 2 show ?case by (auto split: if_splits)
qed (auto simp: listener_ok_def split: if_splits)

section \<open>The supervisor\<close>

lemma supervise_joins:
  "supervise (map ProtocolJoined js) (length js) watch cancelled r = Some (cancelled, fold record_protocol_join js r)"
  by (induction js arbitrary: r) auto

text \<open>What a joined protocol task contributes.\<close>

definition protocol_share :: "task_report joined \<Rightarrow> task_report" where
  "protocol_share j = record_protocol_join j report_default"

lemma record_protocol_join_share: "record_protocol_join j r = task_report_merge r (protocol_share j)"
  by (cases j) (simp_all add: protocol_share_def task_report_merge_def report_default_def)

fun joins_of :: "supervise_event list \<Rightarrow> task_report joined list" where
  "joins_of [] = []"
| "joins_of (ExternalCancel # evs) = joins_of evs"
| "joins_of (ProtocolJoined j # evs) = j # joins_of evs"

lemma supervise_report:
  "supervise evs n watch cancelled r = Some (c, r') \<Longrightarrow>
     r' = fold (\<lambda>x r. task_report_merge r x) (map protocol_share (take n (joins_of evs))) r \<and>
     n \<le> length (joins_of evs)"
  by (induction evs n watch cancelled r rule: supervise.induct)
    (auto simp: record_protocol_join_share split: if_splits)

section \<open>Closing the endpoint\<close>

definition ep_ok :: "'w endpoint \<Rightarrow> bool" where
  "ep_ok ep \<longleftrightarrow> distinct (ep_active ep) \<and>
     (\<forall>i. i \<in> set (ep_active ep) \<longleftrightarrow> (\<exists>c. ep_conns ep i = Some c \<and> mc_owner_registered c))"

text \<open>What a task adds to the report, by how it ended: an abort is both cancelled and remaining.\<close>

fun join_share :: "unit global_result joined \<Rightarrow> close_report" where
  "join_share (Joined (Inr _)) = close_report_default\<lparr>nr_completed := 1\<rparr>"
| "join_share (Joined (Inl _)) = close_report_default\<lparr>nr_failed := 1\<rparr>"
| "join_share JoinPanic = close_report_default\<lparr>nr_panicked := 1\<rparr>"
| "join_share JoinCancelled = close_report_default\<lparr>nr_cancelled := 1, nr_remaining := 1\<rparr>"
| "join_share JoinOther = close_report_default\<lparr>nr_failed := 1\<rparr>"


lemma record_task_join_share: "record_task_join j r = merge_network r (join_share j)"
  by (cases j rule: join_share.cases)
    (simp_all add: record_task_join_def record_join_error_def merge_network_def close_report_default_def)


text \<open>The report a connection ends with.\<close>

definition conn_final_report :: "(u64 \<Rightarrow> unit global_result joined) \<Rightarrow> (u64 \<rightharpoonup> managed_conn) \<Rightarrow> u64 \<Rightarrow> close_report" where
  "conn_final_report joins conns i =
     (case conns i of None \<Rightarrow> close_report_default
      | Some c \<Rightarrow> if \<not> mc_completed c \<and> mc_task c then merge_network (mc_report c) (join_share (joins i)) else mc_report c)"

lemma conn_close_owned:
  fixes j :: "unit global_result joined"
  assumes "ep_ok ep" "ep_active ep = i # is"
  defines "ep' \<equiv> snd (conn_close_and_wait i j ep)"
  shows "ep_ok ep'" "ep_active ep' = is"
    "ep_done_report ep' = merge_network (ep_done_report ep) (conn_final_report (\<lambda>_. j) (ep_conns ep) i)"
    "\<And>k. k \<noteq> i \<Longrightarrow> ep_conns ep' k = ep_conns ep k"
    "ep_report ep' = ep_report ep" "ep_cancelled ep' = ep_cancelled ep" "ep_root_task ep' = ep_root_task ep"
    "ep_writer_closed ep' = ep_writer_closed ep" "ep_completed ep' = ep_completed ep"
    "ep_failure_logged ep' = ep_failure_logged ep"
proof -
  from assms(1,2) obtain c where c: "ep_conns ep i = Some c" "mc_owner_registered c"
    by (auto simp: ep_ok_def)
  have d: "distinct (i # is)" and own: "\<And>k. k \<in> set (i # is) \<longleftrightarrow> (\<exists>c. ep_conns ep k = Some c \<and> mc_owner_registered c)"
    using assms(1,2) by (auto simp: ep_ok_def)
  have "filter (\<lambda>j. j \<noteq> i) is = is" using d by (auto simp: filter_id_conv)
  then show act: "ep_active ep' = is"
    by (simp add: ep'_def conn_close_and_wait_def finalize_owner_def c assms(2) Let_def)
  show conns: "\<And>k. k \<noteq> i \<Longrightarrow> ep_conns ep' k = ep_conns ep k"
    by (simp add: ep'_def conn_close_and_wait_def finalize_owner_def c Let_def)
  have "\<exists>c'. ep_conns ep' i = Some c' \<and> \<not> mc_owner_registered c'"
    by (simp add: ep'_def conn_close_and_wait_def finalize_owner_def c Let_def)
  then show "ep_ok ep'" unfolding ep_ok_def act using d own conns by (metis distinct.simps(2) option.inject set_ConsD list.set_intros(2))
  show "ep_done_report ep' = merge_network (ep_done_report ep) (conn_final_report (\<lambda>_. j) (ep_conns ep) i)"
    by (simp add: ep'_def conn_close_and_wait_def finalize_owner_def conn_final_report_def record_task_join_share c Let_def)
qed (simp_all add: ep'_def conn_close_and_wait_def finalize_owner_def Let_def split: option.split)

definition final_reports :: "(u64 \<Rightarrow> unit global_result joined) \<Rightarrow> 'w endpoint \<Rightarrow> u64 list \<Rightarrow> close_report list" where
  "final_reports joins ep is = map (conn_final_report joins (ep_conns ep)) is"

lemma conn_final_report_join: "conn_final_report (\<lambda>_. joins i) conns i = conn_final_report joins conns i"
  by (simp add: conn_final_report_def split: option.split)

lemma close_conns_owned:
  fixes joins :: "u64 \<Rightarrow> unit global_result joined"
  assumes "ep_ok ep" "ep_active ep = xs @ ys"
  defines "ep' \<equiv> close_conns joins xs ep"
  shows "ep_ok ep' \<and> ep_active ep' = ys \<and>
    ep_done_report ep' = fold (\<lambda>x r. merge_network r x) (final_reports joins ep xs) (ep_done_report ep) \<and>
    (\<forall>k. k \<notin> set xs \<longrightarrow> ep_conns ep' k = ep_conns ep k) \<and>
    ep_report ep' = ep_report ep \<and> ep_cancelled ep' = ep_cancelled ep \<and> ep_root_task ep' = ep_root_task ep \<and>
    ep_writer_closed ep' = ep_writer_closed ep \<and> ep_completed ep' = ep_completed ep \<and>
    ep_failure_logged ep' = ep_failure_logged ep"
  using assms(1,2) unfolding ep'_def
proof (induction xs arbitrary: ep)
  case Nil
  then show ?case by (simp add: final_reports_def)
next
  case (Cons i xs)
  let ?e = "snd (conn_close_and_wait i (joins i) ep)"
  have act: "ep_active ep = i # (xs @ ys)" using Cons.prems by simp
  note C = conn_close_owned [OF Cons.prems(1) act, where j = "joins i"]
  have "i \<notin> set xs" using Cons.prems by (simp add: ep_ok_def)
  then have "ep_conns ?e k = ep_conns ep k" if "k \<in> set xs" for k
    using C(4) [of k] that by blast
  then have fr: "final_reports joins ?e xs = final_reports joins ep xs"
    by (simp add: final_reports_def conn_final_report_def)
  have frc: "final_reports joins ep (i # xs) = conn_final_report joins (ep_conns ep) i # final_reports joins ep xs"
    by (simp add: final_reports_def)
  note IH = Cons.IH [OF C(1,2)]
  have "\<forall>k. k \<notin> set (i # xs) \<longrightarrow> ep_conns (close_conns joins xs ?e) k = ep_conns ep k"
    using IH C(4) by simp
  with IH C(3,5-) show ?case
    unfolding frc fr close_conns.simps by (simp add: conn_final_report_join)
qed

lemma close_active_rounds_done:
  assumes "ep_ok ep"
  shows "close_active_rounds joins (Suc (Suc n)) ep = Some (close_conns joins (ep_active ep) ep)"
  using close_conns_owned [OF assms, of "ep_active ep" "[]"] by simp

text \<open>The endpoint after the writer part and after the owned connections.\<close>

lemma close_writer_part_fields:
  "ep_active (close_writer_part order shut ep) = ep_active ep"
  "ep_conns (close_writer_part order shut ep) = ep_conns ep"
  "ep_done_report (close_writer_part order shut ep) = ep_done_report ep"
  "ep_root_task (close_writer_part order shut ep) = ep_root_task ep"
  "ep_completed (close_writer_part order shut ep) = ep_completed ep"
  "ep_failure_logged (close_writer_part order shut ep) = ep_failure_logged ep"
  "ep_cancelled (close_writer_part order shut ep)" "ep_writer_closed (close_writer_part order shut ep)"
  "ep_next_id (close_writer_part order shut ep) = ep_next_id ep"
  by (auto simp: close_writer_part_def Let_def split: prod.split)

lemma close_writer_part_ok: "ep_ok ep \<Longrightarrow> ep_ok (close_writer_part order shut ep)"
  by (simp add: ep_ok_def close_writer_part_fields)

lemma close_writer_part_again:
  "ep_writer_closed ep \<Longrightarrow> ep_cancelled ep \<Longrightarrow> close_writer_part order shut ep = ep"
  by (simp add: close_writer_part_def Let_def)

lemma close_and_wait_full:
  assumes "ep_ok ep" "\<not> ep_completed ep"
  shows "close_and_wait NotDropped order shut joins root ep =
    (let ep1 = close_writer_part order shut ep;
         ep2 = close_conns joins (ep_active ep) ep1;
         (r, ep4) = close_finish (join_root root (take_done_report ep2)) in Some (Some r, ep4))"
  using assms close_active_rounds_done [OF close_writer_part_ok [OF assms(1)], of joins]
  by (simp add: close_and_wait_def Let_def split_beta close_writer_part_fields del: close_active_rounds.simps)

lemma close_conns_append: "close_conns joins (xs @ ys) ep = close_conns joins ys (close_conns joins xs ep)"
  by (induction xs arbitrary: ep) auto

lemma take_done_twice: "take_done_report (take_done_report ep) = take_done_report ep"
  by (simp add: take_done_report_def network_report.merge_none)

lemma conn_close_begin_fields:
  "ep_ok (conn_close_begin i ep) \<longleftrightarrow> ep_ok ep" "ep_active (conn_close_begin i ep) = ep_active ep"
  "ep_cancelled (conn_close_begin i ep) = ep_cancelled ep" "ep_writer_closed (conn_close_begin i ep) = ep_writer_closed ep"
  "ep_completed (conn_close_begin i ep) = ep_completed ep"
  by (simp_all add: conn_close_begin_def ep_ok_def split: option.split)

text \<open>A close that has begun is taken up where it was left.\<close>

lemma conn_close_begun: "conn_close_and_wait i j (conn_close_begin i ep) = conn_close_and_wait i j ep"
  by (simp add: conn_close_and_wait_def conn_close_begin_def cancel_token_def Let_def split: option.split)

section \<open>Endpoints that can be reached\<close>

text \<open>After \<open>n\<close> operations.\<close>

definition endpoint_inv :: "nat \<Rightarrow> 'w endpoint \<Rightarrow> bool" where
  "endpoint_inv n ep \<longleftrightarrow> ep_ok ep \<and> (\<forall>k c. ep_conns ep k = Some c \<longrightarrow> unat k < unat (ep_next_id ep)) \<and>
     unat (ep_next_id ep) \<le> Suc n \<and> (ep_completed ep \<longleftrightarrow> \<not> ep_root_task ep)"

text \<open>Operations that leave identifiers and ownership alone.\<close>

lemma endpoint_inv_same:
  assumes "endpoint_inv n ep" "ep_active ep' = ep_active ep" "ep_conns ep' = ep_conns ep" "ep_next_id ep' = ep_next_id ep"
    and "ep_completed ep' \<longleftrightarrow> \<not> ep_root_task ep'"
  shows "endpoint_inv n ep'"
  using assms by (simp add: endpoint_inv_def ep_ok_def)

















section \<open>Properties\<close>

text \<open>C29. The accept loop accounts for its connections: when it ends, every connection it spawned has
  been joined and counted exactly once, as completed, failed, panicked or remaining; the
  cancellations it reports are the aborted tasks and at most one for itself. It ends as soon as all
  its tasks have been joined.\<close>

theorem listener_accounts:
  assumes "listen_loop evs listener_init = Some l"
  shows "(run_tcp_listener evs drain \<noteq> None \<longleftrightarrow> length drain = ls_live l) \<and>
    (\<forall>r spawned. run_tcp_listener evs drain = Some (r, spawned) \<longrightarrow>
       report_settled r = length spawned \<and> spawned = ls_spawned l \<and>
       tr_remaining r \<le> tr_cancelled r \<and> tr_cancelled r \<le> tr_remaining r + 1)"
proof -
  have "listener_ok 0 listener_init"
    by (simp add: listener_ok_def listener_init_def report_settled_def report_default_def)
  from listen_loop_ok [OF assms this] obtain n where "n \<le> 1" "listener_ok n l" by blast
  then show ?thesis
    using assms listen_drain_iff [of drain l] listen_drain_ok [of drain l _ n]
    by (auto simp: run_tcp_listener_def)
qed

theorem listener_accounts_witness:
  "\<exists>r. run_tcp_listener [ListenAccepted (SaV4 1 1) False, ListenFailed False, ListenAccepted (SaV4 1 2) False,
       ListenJoined JoinPanic, ListenCancelled] [Joined (Inr ())] = Some (r, [SaV4 1 1, SaV4 1 2]) \<and> report_settled r = 2"
proof -
  let ?evs = "[ListenAccepted (SaV4 1 1) False, ListenFailed False, ListenAccepted (SaV4 1 2) False,
       ListenJoined JoinPanic, ListenCancelled]"
  obtain l where l: "listen_loop ?evs listener_init = Some l" "ls_live l = 1" "ls_spawned l = [SaV4 1 1, SaV4 1 2]"
    by (simp add: listen_turn_def listener_init_def note_cancelled_def Let_def)
  from listener_accounts [OF l(1), of "[Joined (Inr ())]"] l show ?thesis by auto
qed

text \<open>The supervisor's report does not depend on the order in which its protocol tasks end, nor on
  when the external cancellation arrives: it is the sum of what each task contributes, and it is
  delivered as soon as every task has been joined.\<close>

lemma supervisor_order_irrelevant:
  assumes "run_managed_packet_io tcp udp evs = Some (c, r)" and "run_managed_packet_io tcp udp evs' = Some (c', r')"
    and "mset (joins_of evs) = mset (joins_of evs')"
    and "length (joins_of evs) = (if tcp = None then 0 else 1) + (if udp = None then 0 else 1)"
  shows "r = r' \<and> (tcp \<noteq> None \<or> udp \<noteq> None \<longrightarrow>
    run_managed_packet_io tcp udp (map ProtocolJoined (joins_of evs)) = Some (False, r))"
proof -
  let ?n = "length (joins_of evs)"
  have len: "length (joins_of evs') = ?n" using mset_eq_length [OF assms(3)] by simp
  show ?thesis
  proof (cases "?n = 0")
    case True
    with assms len show ?thesis by (auto simp: run_managed_packet_io_def split: if_splits)
  next
    case False
    have s: "supervise evs ?n True False report_default = Some (c, r)"
      "supervise evs' ?n True False report_default = Some (c', r')"
      using assms(1,2,4) False by (auto simp: run_managed_packet_io_def Let_def split: if_splits)
    have "mset (map protocol_share (joins_of evs)) = mset (map protocol_share (joins_of evs'))"
      using assms(3) by simp
    then have "r = r'"
      using supervise_report [OF s(1)] supervise_report [OF s(2)] len protocol_report.fold_merge_mset by fastforce
    moreover have "fold record_protocol_join (joins_of evs) report_default = r"
      using supervise_report [OF s(1)]
      by (simp add: fold_map comp_def record_protocol_join_share [abs_def])
    ultimately show ?thesis using supervise_joins [of "joins_of evs" True False report_default] assms(4) False
      by (auto simp: run_managed_packet_io_def Let_def split: if_splits)
  qed
qed


text \<open>An endpoint that owns one connection.\<close>

definition sample_endpoint :: "u8 list endpoint" where
  "sample_endpoint =
     (let c = new_connection \<lparr>co_remote_addr = SaV4 9 9, co_local_addr = None, co_timeout = 1\<rparr> (SaV4 1 1) 7 in
      (endpoint_new (packet_writer_new None Direct (\<lambda>_. [])))
        \<lparr>ep_next_id := 2, ep_conns := [1 \<mapsto> c\<lparr>mc_owner_registered := True\<rparr>], ep_active := [1]\<rparr>)"


lemma sample_endpoint_ok: "ep_ok sample_endpoint" "\<not> ep_completed sample_endpoint" "ep_root_task sample_endpoint"
  by (auto simp: ep_ok_def sample_endpoint_def endpoint_new_def Let_def)


text \<open>C28. Closing is cancellation-safe: if the closing future is dropped while it waits for one of the
  owned connections or for the root task, calling close again gives the same report and the same
  final state as an undisturbed close; no task is forgotten or counted twice.\<close>

theorem close_and_wait_resumable:
  assumes "ep_ok ep" and "close_and_wait stop order shut joins root ep = Some (None, ep')"
  shows "close_and_wait NotDropped order' shut' joins root ep' = close_and_wait NotDropped order shut joins root ep"
proof -
  let ?e1 = "close_writer_part order shut ep"
  note W = close_writer_part_fields [of order shut ep]
  have ok1: "ep_ok ?e1" by (rule close_writer_part_ok [OF assms(1)])
  have nc: "\<not> ep_completed ep" using assms(2) by (auto simp: close_and_wait_def split: if_splits)
  note full = close_and_wait_full [OF assms(1) nc]
  show ?thesis
  proof (cases stop)
    case (DroppedAtConn n)
    let ?e2 = "close_conns joins (take n (ep_active ep)) ?e1"
    have ep': "ep' = (case drop n (ep_active ep) of [] \<Rightarrow> ?e2 | i # _ \<Rightarrow> conn_close_begin i ?e2)"
      using DroppedAtConn assms(2) nc by (cases "drop n (ep_active ep)") (auto simp: close_and_wait_def Let_def W)
    have C2: "ep_ok ?e2 \<and> ep_active ?e2 = drop n (ep_active ep) \<and> ep_cancelled ?e2 \<and> ep_writer_closed ?e2 \<and> \<not> ep_completed ?e2"
      using close_conns_owned [OF ok1, of "take n (ep_active ep)" "drop n (ep_active ep)", where joins = joins] W nc
      by simp
    have C: "ep_ok ep' \<and> ep_active ep' = drop n (ep_active ep) \<and> ep_cancelled ep' \<and> ep_writer_closed ep' \<and> \<not> ep_completed ep'"
      using ep' C2 by (cases "drop n (ep_active ep)") (auto simp only: conn_close_begin_fields list.case)
    have "close_conns joins (drop n (ep_active ep)) ep' = close_conns joins (drop n (ep_active ep)) ?e2"
      using ep' by (cases "drop n (ep_active ep)") (simp_all only: close_conns.simps conn_close_begun list.case)
    then have "close_conns joins (ep_active ep') (close_writer_part order' shut' ep') = close_conns joins (ep_active ep) ?e1"
      using C close_conns_append [of joins "take n (ep_active ep)" "drop n (ep_active ep)" ?e1]
      by (simp add: close_writer_part_again)
    then show ?thesis using close_and_wait_full [of ep' order' shut' joins root] C full by (simp add: Let_def)
  next
    case DroppedAtRoot
    let ?e2 = "close_conns joins (ep_active ep) ?e1"
    have ep': "ep' = take_done_report ?e2"
      using assms(2) nc DroppedAtRoot close_active_rounds_done [OF ok1, of joins]
      by (simp add: close_and_wait_def Let_def W del: close_active_rounds.simps)
    have "ep_ok ?e2 \<and> ep_active ?e2 = [] \<and> ep_cancelled ?e2 \<and> ep_writer_closed ?e2 \<and> \<not> ep_completed ?e2"
      using close_conns_owned [OF ok1, of "ep_active ep" "[]", where joins = joins] W nc by simp
    then have C: "ep_ok ep' \<and> ep_active ep' = [] \<and> ep_cancelled ep' \<and> ep_writer_closed ep' \<and> \<not> ep_completed ep'"
      by (auto simp: ep' take_done_report_def ep_ok_def)
    then have "close_conns joins (ep_active ep') (close_writer_part order' shut' ep') = ep'"
      by (simp add: close_writer_part_again)
    then show ?thesis using close_and_wait_full [of ep' order' shut' joins root] C full
      by (simp add: Let_def ep' take_done_twice)
  next
    case NotDropped
    then show ?thesis using assms(2) full by (simp add: Let_def split_beta)
  qed
qed

theorem close_and_wait_resumable_witness:
  "\<exists>ep'. close_and_wait (DroppedAtConn 0) [] (\<lambda>_. Inr ()) (\<lambda>_. JoinPanic) JoinOther sample_endpoint = Some (None, ep') \<and>
    close_and_wait NotDropped [] (\<lambda>_. Inr ()) (\<lambda>_. JoinPanic) JoinOther ep' =
    close_and_wait NotDropped [] (\<lambda>_. Inr ()) (\<lambda>_. JoinPanic) JoinOther sample_endpoint"
proof -
  obtain ep' where "close_and_wait (DroppedAtConn 0) [] (\<lambda>_. Inr ()) (\<lambda>_. JoinPanic) JoinOther sample_endpoint = Some (None, ep')"
    using sample_endpoint_ok by (simp add: close_and_wait_def Let_def)
  with close_and_wait_resumable [OF sample_endpoint_ok(1) this] show ?thesis by blast
qed

section \<open>Connecting\<close>

lemma finalize_owner_connecting [simp]: "ep_connecting (finalize_owner i r ep) = ep_connecting ep"
  "ep_next_id (finalize_owner i r ep) = ep_next_id ep" "ep_completed (finalize_owner i r ep) = ep_completed ep"
  by (auto simp: finalize_owner_def split: option.split)

lemma conn_close_connecting [simp]: "ep_connecting (snd (conn_close_and_wait i j ep)) = ep_connecting ep"
  "ep_next_id (snd (conn_close_and_wait i j ep)) = ep_next_id ep"
  "ep_completed (snd (conn_close_and_wait i j ep)) = ep_completed ep"
  by (auto simp: conn_close_and_wait_def Let_def split: option.split)

lemma close_conns_connecting [simp]: "ep_connecting (close_conns joins is ep) = ep_connecting ep"
  "ep_next_id (close_conns joins is ep) = ep_next_id ep"
  "ep_completed (close_conns joins is ep) = ep_completed ep"
  by (induction "is" arbitrary: ep) auto





section \<open>Handles\<close>

lemma conn_drop_fields [simp]:
  "ep_conns (conn_drop i ep) = ep_conns ep" "ep_cancelled (conn_drop i ep) = ep_cancelled ep" "pw_closed (ep_writer (conn_drop i ep)) = pw_closed (ep_writer ep)"
  by (simp_all add: conn_drop_def cancel_token_def split: option.split)

lemma fold_conn_drop:
  "ep_conns (fold conn_drop is ep) = ep_conns ep \<and> ep_cancelled (fold conn_drop is ep) = ep_cancelled ep \<and>
   pw_closed (ep_writer (fold conn_drop is ep)) = pw_closed (ep_writer ep) \<and>
   pw_cancelled (ep_writer (fold conn_drop is ep)) =
     pw_cancelled (ep_writer ep) \<union> {mc_token c |i c. i \<in> set is \<and> ep_conns ep i = Some c}"
  by (induction "is" arbitrary: ep) (auto simp: conn_drop_def cancel_token_def split: option.split)

text \<open>Dropping an endpoint cancels every connection it owns and refuses new ones, but leaves its writer open: clones of it can still send datagrams.\<close>

lemma endpoint_drop_cancels:
  shows "ep_cancelled (endpoint_drop ep)" "pw_closed (ep_writer (endpoint_drop ep)) = pw_closed (ep_writer ep)"
    and "i \<in> set (ep_active ep) \<Longrightarrow> ep_conns ep i = Some c \<Longrightarrow> mc_token c \<in> pw_cancelled (ep_writer (endpoint_drop ep))"
    and "\<exists>e. connect_tcp options closing finished joins outcome late (endpoint_drop ep) = (Inl e, endpoint_drop ep)"
proof -
  show "ep_cancelled (endpoint_drop ep)" "pw_closed (ep_writer (endpoint_drop ep)) = pw_closed (ep_writer ep)"
    by (simp_all add: endpoint_drop_def fold_conn_drop)
  then show "\<exists>e. connect_tcp options closing finished joins outcome late (endpoint_drop ep) = (Inl e, endpoint_drop ep)"
    by (simp add: connect_tcp_def Let_def)
  show "i \<in> set (ep_active ep) \<Longrightarrow> ep_conns ep i = Some c \<Longrightarrow> mc_token c \<in> pw_cancelled (ep_writer (endpoint_drop ep))"
    by (auto simp: endpoint_drop_def fold_conn_drop)
qed

text \<open>A handle names its peer, not its connection: after its connection is closed and the peer is connected again, a write through the old handle, whose own token is
  cancelled, succeeds and joins the queue of the new connection.\<close>

lemma stale_handle_writes_to_successor:
  assumes "ep_conns ep i = Some old" "mc_completed old" "mc_token old \<in> pw_cancelled (ep_writer ep)"
    and "pw_tcp_sink (mc_remote_addr old) (ep_writer ep) = Some (QueuedSink (mc_remote_addr old) q t)" "t \<notin> pw_cancelled (ep_writer ep)"
    and "\<not> pw_closed (ep_writer ep)" "encode_tcp enc data = Some (Inr p)" "se_send env = SendOk"
  shows "conn_write enc aw dbg env udp data old (ep_writer ep) = Some (Inr (), push_packet q p (ep_writer ep))"
  using assms by (simp add: conn_write_def write_to_def ensure_open_def tcp_sink_or_err_def queued_write_def)

end
