(* ===== verification/Runtime.thy ===== *)
theory Runtime
  imports Exceptions "HOL-Library.List_Lexorder" "HOL-Library.Char_ord"
begin

text \<open>
  The runtimes of \<^verbatim>\<open>base/src/utils/rt.rs\<close>: the tasks of a runtime and their accounting, the registry of
  runtimes, and the ordered shutdown of the application within a total time, with the exit signals
  of \<^verbatim>\<open>base/src/daemon/signal.rs\<close>.

  Tokio's runtimes are opaque. Time is what the clock shows, in nanoseconds, as an argument; what
  the tasks do while the shutdown waits is a list of task events.
\<close>

section \<open>Kinds of runtimes\<close>

datatype runtime_type =
  Main | CommonNetwork | HttpApi | WebSocket | RpcService | MessageQueue | CommonIO | FileProcessing
| Database | CacheService | CommonCompute | DataProcessing | ImageProcessing | MachineLearning | Custom string

fun as_thread_name :: "runtime_type \<Rightarrow> string" where
  "as_thread_name Main = ''main''"
| "as_thread_name CommonNetwork = ''common-network''"
| "as_thread_name HttpApi = ''http-api''"
| "as_thread_name WebSocket = ''websocket''"
| "as_thread_name RpcService = ''rpc-service''"
| "as_thread_name MessageQueue = ''message-queue''"
| "as_thread_name CommonIO = ''common-io''"
| "as_thread_name FileProcessing = ''file-processing''"
| "as_thread_name Database = ''database''"
| "as_thread_name CacheService = ''cache-service''"
| "as_thread_name CommonCompute = ''common-compute''"
| "as_thread_name DataProcessing = ''data-processing''"
| "as_thread_name ImageProcessing = ''image-processing''"
| "as_thread_name MachineLearning = ''machine-learning''"
| "as_thread_name (Custom s) = ''custom-'' @ s"

lemma as_thread_name_inj: "as_thread_name a = as_thread_name b \<Longrightarrow> a = b"
  by (cases a; cases b; simp)

text \<open>Runtimes are ordered by their thread names, the key the shutdown sorts by.\<close>

instantiation runtime_type :: linorder
begin

definition less_eq_runtime_type :: "runtime_type \<Rightarrow> runtime_type \<Rightarrow> bool" where
  "less_eq_runtime_type a b \<longleftrightarrow> as_thread_name a \<le> as_thread_name b"

definition less_runtime_type :: "runtime_type \<Rightarrow> runtime_type \<Rightarrow> bool" where
  "less_runtime_type a b \<longleftrightarrow> as_thread_name a < as_thread_name b"

instance
  by standard (auto simp: less_eq_runtime_type_def less_runtime_type_def intro: as_thread_name_inj)

end

section \<open>Exit signals\<close>

datatype exit_signal = Requested | CtrlC | Terminate

fun exit_signal_str :: "exit_signal \<Rightarrow> string" where
  "exit_signal_str Requested = ''requested''"
| "exit_signal_str CtrlC = ''ctrl_c''"
| "exit_signal_str Terminate = ''sigterm''"

text \<open>\<open>wait_exit_signal\<close>: the first event decides, and the global token is cancelled in any case; the
  second component is the token afterwards. \<^verbatim>\<open>wait_for_exit_signal\<close> also watches the registry's own
  request.\<close>

datatype exit_event = TokenCancelled | CtrlCPressed | SigTerm

fun wait_exit_signal :: "exit_event \<Rightarrow> bool \<Rightarrow> exit_signal \<times> bool" where
  "wait_exit_signal TokenCancelled token = (Requested, True)"
| "wait_exit_signal CtrlCPressed token = (CtrlC, True)"
| "wait_exit_signal SigTerm token = (Terminate, True)"

definition wait_for_exit_signal :: "exit_event option \<Rightarrow> bool \<Rightarrow> exit_signal \<times> bool" where
  "wait_for_exit_signal ev token = (case ev of Some e \<Rightarrow> wait_exit_signal e token | None \<Rightarrow> (Requested, token))"

section \<open>Tasks\<close>

text \<open>The tasks of a runtime; \<open>ts_active\<close> holds the live guards with the names of their tasks.\<close>

record task_state =
  ts_accepting :: bool
  ts_next_id :: u64
  ts_active :: "(u64 \<times> string) list"
  ts_completed :: nat
  ts_cancelled :: nat
  ts_panicked :: nat

definition task_state_new :: task_state where
  "task_state_new = \<lparr>ts_accepting = True, ts_next_id = 0, ts_active = [], ts_completed = 0, ts_cancelled = 0, ts_panicked = 0\<rparr>"

definition start_locked :: "string \<Rightarrow> task_state \<Rightarrow> u64 \<times> task_state" where
  "start_locked name s =
     (ts_next_id s, s\<lparr>ts_next_id := ts_next_id s + 1, ts_active := (ts_next_id s, name) # ts_active s\<rparr>)"

definition tasks_close :: "task_state \<Rightarrow> task_state" where
  "tasks_close s = s\<lparr>ts_accepting := False\<rparr>"

definition active_names :: "task_state \<Rightarrow> string list" where
  "active_names s = sort (map snd (ts_active s))"

definition forget_task :: "u64 \<Rightarrow> task_state \<Rightarrow> task_state" where
  "forget_task i s = s\<lparr>ts_active := filter (\<lambda>(j, n). j \<noteq> i) (ts_active s)\<rparr>"

text \<open>The guard of a task: completion, panic, and being dropped unfinished.\<close>

definition guard_complete :: "u64 \<Rightarrow> bool \<Rightarrow> task_state \<Rightarrow> task_state" where
  "guard_complete i cancelled s =
     forget_task i (if cancelled then s\<lparr>ts_cancelled := ts_cancelled s + 1\<rparr> else s\<lparr>ts_completed := ts_completed s + 1\<rparr>)"

definition guard_panic :: "u64 \<Rightarrow> task_state \<Rightarrow> task_state" where
  "guard_panic i s = forget_task i (s\<lparr>ts_panicked := ts_panicked s + 1\<rparr>)"

definition guard_drop :: "u64 \<Rightarrow> bool \<Rightarrow> task_state \<Rightarrow> task_state" where
  "guard_drop i finished s =
     (if finished then s else forget_task i (s\<lparr>ts_cancelled := ts_cancelled s + 1\<rparr>))"

section \<open>The registry\<close>

text \<open>\<open>rg_live\<close> are the keys of the map of runtimes; handles keep referring to an entry after it left the
  map, so the entries themselves are in \<open>rg_entries\<close>.\<close>

record runtime_entry =
  re_cancelled :: bool
  re_tracker_closed :: bool
  re_tasks :: task_state

record registry_state =
  rg_live :: "runtime_type list"
  rg_entries :: "runtime_type \<Rightarrow> runtime_entry"
  rg_shutting_down :: bool
  rg_failed :: bool
  rg_shutdown_requested :: bool

definition runtime_entry_new :: runtime_entry where
  "runtime_entry_new = \<lparr>re_cancelled = False, re_tracker_closed = False, re_tasks = task_state_new\<rparr>"

definition registry_new :: registry_state where
  "registry_new = \<lparr>rg_live = [Main], rg_entries = (\<lambda>_. runtime_entry_new), rg_shutting_down = False,
     rg_failed = False, rg_shutdown_requested = False\<rparr>"

definition registry_register :: "runtime_type \<Rightarrow> registry_state \<Rightarrow> runtime_type global_result \<times> registry_state" where
  "registry_register rt g =
     (if rg_shutting_down g then (Inl (snd (new_sys_error ''application is shutting down'')), g)
      else if rt \<in> set (rg_live g)
      then (Inl (snd (new_sys_error (''runtime already exists: '' @ as_thread_name rt))), g)
      else (Inr rt, g\<lparr>rg_live := rt # rg_live g, rg_entries := (rg_entries g)(rt := runtime_entry_new)\<rparr>))"

definition registry_get :: "runtime_type \<Rightarrow> registry_state \<Rightarrow> runtime_type option" where
  "registry_get rt g = (if rt \<in> set (rg_live g) then Some rt else None)"

definition registry_fail :: "registry_state \<Rightarrow> registry_state" where
  "registry_fail g = g\<lparr>rg_failed := True, rg_shutdown_requested := True\<rparr>"

definition update_tasks :: "runtime_type \<Rightarrow> (task_state \<Rightarrow> task_state) \<Rightarrow> registry_state \<Rightarrow> registry_state" where
  "update_tasks rt f g =
     g\<lparr>rg_entries := (rg_entries g)(rt := (rg_entries g rt)\<lparr>re_tasks := f (re_tasks (rg_entries g rt))\<rparr>)\<rparr>"

text \<open>\<^verbatim>\<open>GlobalRuntime::spawn\<close> and \<^verbatim>\<open>spawn_blocking\<close> through a handle of the runtime: the identifier of the
  task's guard, or a refusal.\<close>

definition spawn :: "runtime_type \<Rightarrow> string \<Rightarrow> registry_state \<Rightarrow> u64 global_result \<times> registry_state" where
  "spawn rt name g =
     (let s = re_tasks (rg_entries g rt) in
      if \<not> ts_accepting s
      then (Inl (snd (new_sys_error (''runtime no longer accepts tasks: runtime_type='' @ as_thread_name rt @ '', task='' @ name))), g)
      else (let (i, s') = start_locked name s in (Inr i, update_tasks rt (\<lambda>_. s') g)))"

text \<open>What a task does at its end: it returns, it panics (which also asks for the shutdown of the
  application), or it is dropped by an aborted runtime.\<close>

datatype task_event = Returned u64 | Panicked u64 | Dropped u64

fun task_event_id :: "task_event \<Rightarrow> u64" where
  "task_event_id (Returned i) = i"
| "task_event_id (Panicked i) = i"
| "task_event_id (Dropped i) = i"

fun task_event_state :: "bool \<Rightarrow> task_event \<Rightarrow> task_state \<Rightarrow> task_state" where
  "task_event_state cancelled (Returned i) s = guard_drop i True (guard_complete i cancelled s)"
| "task_event_state cancelled (Panicked i) s = guard_drop i True (guard_panic i s)"
| "task_event_state cancelled (Dropped i) s = guard_drop i False s"

definition task_ends :: "runtime_type \<Rightarrow> task_event \<Rightarrow> registry_state \<Rightarrow> registry_state" where
  "task_ends rt ev g =
     (let g' = update_tasks rt (task_event_state (re_cancelled (rg_entries g rt)) ev) g in
      case ev of Panicked i \<Rightarrow> registry_fail g' | _ \<Rightarrow> g')"

section \<open>Shutdown\<close>

datatype shutdown_outcome = Graceful | TimedOut | Incomplete

record runtime_report =
  rr_runtime_type :: runtime_type
  rr_outcome :: shutdown_outcome
  rr_elapsed :: nat
  rr_completed_tasks :: nat
  rr_cancelled_tasks :: nat
  rr_panicked_tasks :: nat
  rr_remaining_tasks :: "string list"

definition runtime_types :: "registry_state \<Rightarrow> runtime_type list" where
  "runtime_types g = filter (\<lambda>rt. rt \<noteq> Main) (rg_live g)"

text \<open>The order of the stages: the requested one without repetitions and without the main runtime,
  then the omitted runtimes by name.\<close>

fun push_missing :: "runtime_type list \<Rightarrow> runtime_type list \<Rightarrow> runtime_type list" where
  "push_missing [] ordered = ordered"
| "push_missing (rt # rts) ordered =
     push_missing rts (if rt \<noteq> Main \<and> rt \<notin> set ordered then ordered @ [rt] else ordered)"

definition shutdown_order :: "runtime_type list \<Rightarrow> registry_state \<Rightarrow> runtime_type list" where
  "shutdown_order orders g = push_missing (sort (runtime_types g)) (push_missing orders [])"

text \<open>
  What happens while one runtime shuts down: the task events during the wait, whether the wait ended
  before its timeout, the task events while the runtime itself is shut down, whether that blocking
  call was joined, and the time it took.
\<close>

record stage_env =
  sg_wait_events :: "task_event list"
  sg_wait_ok :: bool
  sg_stop_events :: "task_event list"
  sg_join_ok :: bool
  sg_elapsed :: nat

definition close_tasks :: "runtime_type \<Rightarrow> registry_state \<Rightarrow> registry_state" where
  "close_tasks rt g =
     (let e = rg_entries g rt in
      g\<lparr>rg_entries := (rg_entries g)(rt := e\<lparr>re_tasks := tasks_close (re_tasks e), re_tracker_closed := True,
         re_cancelled := True\<rparr>)\<rparr>)"

definition stage_outcome :: "bool \<Rightarrow> bool \<Rightarrow> string list \<Rightarrow> nat \<Rightarrow> shutdown_outcome" where
  "stage_outcome wait_ok join_ok remaining panicked =
     (if \<not> wait_ok then TimedOut
      else if \<not> join_ok \<or> remaining \<noteq> [] \<or> panicked > 0 then Incomplete else Graceful)"

definition shutdown_runtime ::
  "runtime_type \<Rightarrow> stage_env \<Rightarrow> registry_state \<Rightarrow> runtime_report option \<times> registry_state" where
  "shutdown_runtime rt env g =
     (case registry_get rt g of
        None \<Rightarrow> (None, g)
      | Some _ \<Rightarrow>
          (let g1 = close_tasks rt g;
               g2 = fold (task_ends rt) (sg_wait_events env) g1;
               before = active_names (re_tasks (rg_entries g2 rt));
               g3 = g2\<lparr>rg_live := remove1 rt (rg_live g2)\<rparr>;
               g4 = fold (task_ends rt) (sg_stop_events env) g3;
               tasks = re_tasks (rg_entries g4 rt);
               remaining = active_names tasks;
               outcome = stage_outcome (sg_wait_ok env) (sg_join_ok env) remaining (ts_panicked tasks) in
           (Some \<lparr>rr_runtime_type = rt, rr_outcome = outcome, rr_elapsed = sg_elapsed env,
                  rr_completed_tasks = ts_completed tasks, rr_cancelled_tasks = ts_cancelled tasks,
                  rr_panicked_tasks = ts_panicked tasks,
                  rr_remaining_tasks = (if remaining = [] then filter (\<lambda>_. outcome \<noteq> Graceful) before else remaining)\<rparr>,
            g4)))"

definition prepare_main_shutdown :: "stage_env \<Rightarrow> registry_state \<Rightarrow> runtime_report option \<times> registry_state" where
  "prepare_main_shutdown env g =
     (case registry_get Main g of
        None \<Rightarrow> (None, g)
      | Some _ \<Rightarrow>
          (let g1 = close_tasks Main g;
               g2 = fold (task_ends Main) (sg_wait_events env) g1;
               tasks = re_tasks (rg_entries g2 Main);
               remaining = active_names tasks;
               outcome = (if \<not> sg_wait_ok env then TimedOut
                          else if remaining = [] \<and> ts_panicked tasks = 0 then Graceful else Incomplete) in
           (Some \<lparr>rr_runtime_type = Main, rr_outcome = outcome, rr_elapsed = sg_elapsed env,
                  rr_completed_tasks = ts_completed tasks, rr_cancelled_tasks = ts_cancelled tasks,
                  rr_panicked_tasks = ts_panicked tasks, rr_remaining_tasks = remaining\<rparr>, g2)))"

text \<open>The time a stage may take: an equal share of what is left, counting the main runtime as the last
  stage.\<close>

definition stage_timeout :: "nat \<Rightarrow> nat \<Rightarrow> nat \<Rightarrow> nat" where
  "stage_timeout deadline now stages_left =
     (case checked_div (sat_sub deadline now) stages_left of Some t \<Rightarrow> t | None \<Rightarrow> 0)"

fun shutdown_stages ::
  "(runtime_type \<Rightarrow> stage_env) \<Rightarrow> runtime_type list \<Rightarrow> registry_state \<Rightarrow> runtime_report list \<times> registry_state" where
  "shutdown_stages env [] g = ([], g)"
| "shutdown_stages env (rt # rts) g =
     (let (r, g1) = shutdown_runtime rt (env rt) g; (rs, g2) = shutdown_stages env rts g1 in
      ((case r of None \<Rightarrow> [] | Some x \<Rightarrow> [x]) @ rs, g2))"

definition registry_shutdown ::
  "runtime_type list \<Rightarrow> (runtime_type \<Rightarrow> stage_env) \<Rightarrow> registry_state \<Rightarrow> runtime_report list \<times> registry_state" where
  "registry_shutdown orders env g =
     (let g0 = g\<lparr>rg_shutting_down := True\<rparr>;
          (rs, g1) = shutdown_stages env (shutdown_order orders g0) g0;
          (m, g2) = prepare_main_shutdown (env Main) g1 in
      (rs @ (case m of None \<Rightarrow> [] | Some x \<Rightarrow> [x]), g2))"

definition take_main_runtime :: "registry_state \<Rightarrow> bool \<times> registry_state" where
  "take_main_runtime g = (Main \<in> set (rg_live g), g\<lparr>rg_live := remove1 Main (rg_live g)\<rparr>)"

record shutdown_report =
  sr_signal :: exit_signal
  sr_outcome :: shutdown_outcome
  sr_elapsed :: nat
  sr_runtimes :: "runtime_report list"

definition application_outcome :: "bool \<Rightarrow> runtime_report list \<Rightarrow> shutdown_outcome" where
  "application_outcome failed rs =
     (if failed then Incomplete
      else if list_all (\<lambda>r. rr_outcome r = Graceful) rs then Graceful
      else if list_ex (\<lambda>r. rr_outcome r = TimedOut) rs then TimedOut
      else Incomplete)"

text \<open>\<open>None\<close>: there is no main runtime to block on. \<open>elapsed\<close> is the time since the signal when the report is made.\<close>

definition order_shutdown ::
  "runtime_type list \<Rightarrow> exit_event option \<Rightarrow> (runtime_type \<Rightarrow> stage_env) \<Rightarrow> nat \<Rightarrow> registry_state \<Rightarrow>
   (shutdown_report \<times> registry_state) option" where
  "order_shutdown orders ev env elapsed g =
     (case registry_get Main g of
        None \<Rightarrow> None
      | Some _ \<Rightarrow>
          (let (signal, _) = wait_for_exit_signal ev False;
               (rs, g1) = registry_shutdown orders env g;
               (_, g2) = take_main_runtime g1 in
           Some (\<lparr>sr_signal = signal, sr_outcome = application_outcome (rg_failed g2) rs, sr_elapsed = elapsed, sr_runtimes = rs\<rparr>, g2)))"

definition is_graceful :: "shutdown_report \<Rightarrow> bool" where
  "is_graceful r \<longleftrightarrow> sr_outcome r = Graceful"

section \<open>What is logged\<close>

text \<open>The fields of a log line and its severity; the names of the remaining tasks are printed by \<open>dbg\<close>.\<close>

datatype severity = LogInfo | LogWarn | LogError

definition as_millis :: "nat \<Rightarrow> nat" where
  "as_millis nanos = nanos div 1000000"

definition report_counts :: "string \<Rightarrow> runtime_report \<Rightarrow> string" where
  "report_counts outcome r =
     ''runtime shutdown completed: runtime_type='' @ as_thread_name (rr_runtime_type r) @ '', outcome='' @ outcome @
     '', elapsed_ms='' @ show_nat (as_millis (rr_elapsed r)) @ '', completed_tasks='' @ show_nat (rr_completed_tasks r) @
     '', cancelled_tasks='' @ show_nat (rr_cancelled_tasks r)"

definition report_rest :: "(string list \<Rightarrow> string) \<Rightarrow> runtime_report \<Rightarrow> string" where
  "report_rest dbg r =
     '', panicked_tasks='' @ show_nat (rr_panicked_tasks r) @ '', remaining_tasks='' @ show_nat (length (rr_remaining_tasks r)) @
     '', task_names='' @ dbg (rr_remaining_tasks r)"

definition log_runtime_report :: "(string list \<Rightarrow> string) \<Rightarrow> runtime_report \<Rightarrow> severity \<times> string" where
  "log_runtime_report dbg r =
     (case rr_outcome r of
        Graceful \<Rightarrow> (LogInfo, report_counts ''graceful'' r @ '', panicked_tasks=0, remaining_tasks=0'')
      | TimedOut \<Rightarrow> (LogWarn, report_counts ''timeout'' r @ report_rest dbg r)
      | Incomplete \<Rightarrow> (LogError, report_counts ''incomplete'' r @ report_rest dbg r))"

definition log_shutdown_report :: "shutdown_report \<Rightarrow> severity \<times> string" where
  "log_shutdown_report r =
     (let line = (\<lambda>outcome. ''application shutdown completed: outcome='' @ outcome @ '', elapsed_ms='' @ show_nat (as_millis (sr_elapsed r))) in
      case sr_outcome r of
        Graceful \<Rightarrow> (LogInfo, line ''graceful'')
      | TimedOut \<Rightarrow> (LogWarn, line ''timeout'')
      | Incomplete \<Rightarrow> (LogError, line ''incomplete''))"

end
