(* ===== verification/Runtime_Inv.thy ===== *)
theory Runtime_Inv
  imports Runtime
begin

text \<open>
  Properties of the runtimes: every task is accounted for, the order of the shutdown, what a
  shutdown leaves behind, and how the total time is shared between the stages.
\<close>

section \<open>Task accounting\<close>

definition tasks_ok :: "nat \<Rightarrow> task_state \<Rightarrow> bool" where
  "tasks_ok n s \<longleftrightarrow>
     ts_next_id s = word_of_nat n \<and>
     n = ts_completed s + ts_cancelled s + ts_panicked s + length (ts_active s) \<and>
     distinct (map fst (ts_active s)) \<and> (\<forall>x\<in>set (ts_active s). unat (fst x) < n)"

lemma tasks_ok_new: "tasks_ok 0 task_state_new"
  by (simp add: tasks_ok_def task_state_new_def)

lemma tasks_ok_start:
  assumes "tasks_ok n s" "n < 2 ^ 64"
  shows "tasks_ok (Suc n) (snd (start_locked name s))"
proof -
  have u: "unat (word_of_nat n :: u64) = n" using assms(2) by (simp add: unat_of_nat)
  then have "word_of_nat n \<notin> fst ` set (ts_active s)" using assms(1) by (force simp: tasks_ok_def)
  then show ?thesis using assms u by (auto simp: tasks_ok_def start_locked_def less_SucI)
qed

lemma length_filter_key:
  "distinct (map fst xs) \<Longrightarrow> i \<in> fst ` set xs \<Longrightarrow> Suc (length (filter (\<lambda>(j, n). j \<noteq> i) xs)) = length xs"
proof (induction xs)
  case (Cons x xs)
  show ?case
  proof (cases "fst x = i")
    case True
    with Cons.prems have "\<forall>y\<in>set xs. fst y \<noteq> i" by (metis distinct.simps(2) imageI list.set_map list.simps(9))
    then have "filter (\<lambda>(j, n). j \<noteq> i) xs = xs" by (auto simp: filter_id_conv)
    with True show ?thesis by (cases x) simp
  next
    case False
    with Cons show ?thesis by (cases x) auto
  qed
qed simp

lemma forget_task_active:
  assumes "tasks_ok n s" "i \<in> fst ` set (ts_active s)"
  shows "Suc (length (ts_active (forget_task i s))) = length (ts_active s)"
    and "distinct (map fst (ts_active (forget_task i s)))"
    and "\<forall>x\<in>set (ts_active (forget_task i s)). unat (fst x) < n"
  using assms length_filter_key [of "ts_active s" i]
  by (auto simp: tasks_ok_def forget_task_def distinct_map_filter)

lemma forget_task_fields [simp]:
  "ts_next_id (forget_task i s) = ts_next_id s" "ts_completed (forget_task i s) = ts_completed s"
  "ts_cancelled (forget_task i s) = ts_cancelled s" "ts_panicked (forget_task i s) = ts_panicked s"
  "ts_accepting (forget_task i s) = ts_accepting s"
  "ts_active (forget_task i (s\<lparr>ts_completed := a\<rparr>)) = ts_active (forget_task i s)"
  "ts_active (forget_task i (s\<lparr>ts_cancelled := a\<rparr>)) = ts_active (forget_task i s)"
  "ts_active (forget_task i (s\<lparr>ts_panicked := a\<rparr>)) = ts_active (forget_task i s)"
  by (simp_all add: forget_task_def)

lemma tasks_ok_event:
  assumes "tasks_ok n s" "task_event_id ev \<in> fst ` set (ts_active s)"
  shows "tasks_ok n (task_event_state cancelled ev s)"
proof (cases ev)
  case (Returned i)
  with assms forget_task_active [OF assms(1), of i] show ?thesis
    by (auto simp: tasks_ok_def guard_complete_def guard_drop_def)
next
  case (Panicked i)
  with assms forget_task_active [OF assms(1), of i] show ?thesis
    by (auto simp: tasks_ok_def guard_panic_def guard_drop_def)
next
  case (Dropped i)
  with assms forget_task_active [OF assms(1), of i] show ?thesis
    by (auto simp: tasks_ok_def guard_drop_def)
qed

lemma tasks_ok_close [simp]: "tasks_ok n (tasks_close s) \<longleftrightarrow> tasks_ok n s"
  by (simp add: tasks_ok_def tasks_close_def)

text \<open>
  A history of one runtime: tasks are spawned, end (only those that are live), and the runtime is
  closed; beside the registry the number of accepted tasks.
\<close>

datatype runtime_event = SpawnTask string | EndTask task_event | CloseRuntime

fun runtime_step :: "runtime_type \<Rightarrow> registry_state \<times> nat \<Rightarrow> runtime_event \<Rightarrow> (registry_state \<times> nat) option" where
  "runtime_step rt (g, n) (SpawnTask name) =
     (case spawn rt name g of (Inr i, g') \<Rightarrow> Some (g', Suc n) | (Inl e, g') \<Rightarrow> Some (g', n))"
| "runtime_step rt (g, n) (EndTask ev) =
     (if task_event_id ev \<in> fst ` set (ts_active (re_tasks (rg_entries g rt))) then Some (task_ends rt ev g, n) else None)"
| "runtime_step rt (g, n) CloseRuntime = Some (close_tasks rt g, n)"

definition runtime_inv :: "runtime_type \<Rightarrow> registry_state \<times> nat \<Rightarrow> bool" where
  "runtime_inv rt gn \<longleftrightarrow> tasks_ok (snd gn) (re_tasks (rg_entries (fst gn) rt))"

lemma task_ends_tasks [simp]:
  "re_tasks (rg_entries (task_ends rt ev g) rt) =
     task_event_state (re_cancelled (rg_entries g rt)) ev (re_tasks (rg_entries g rt))"
  by (simp add: task_ends_def update_tasks_def registry_fail_def Let_def split: task_event.split)

lemma runtime_step_inv:
  assumes "runtime_inv rt gn" "snd gn < 2 ^ 64" "runtime_step rt gn ev = Some gn'"
  shows "runtime_inv rt gn' \<and> snd gn' \<le> Suc (snd gn)"
proof (cases ev)
  case (SpawnTask name)
  with assms tasks_ok_start [of "snd gn" "re_tasks (rg_entries (fst gn) rt)" name] show ?thesis
    by (cases gn) (auto simp: runtime_inv_def spawn_def update_tasks_def Let_def split: prod.splits if_splits)
next
  case (EndTask tev)
  obtain g n where gn: "gn = (g, n)" by fastforce
  have "task_event_id tev \<in> fst ` set (ts_active (re_tasks (rg_entries g rt)))" "gn' = (task_ends rt tev g, n)"
    using assms(3) EndTask by (simp_all add: gn split: if_splits)
  with assms(1) tasks_ok_event show ?thesis by (simp add: gn runtime_inv_def)
next
  case CloseRuntime
  with assms show ?thesis by (cases gn) (auto simp: runtime_inv_def close_tasks_def Let_def)
qed

lemma run_runtime_inv:
  "run_steps (runtime_step rt) gn es = Some gn' \<Longrightarrow> runtime_inv rt gn \<Longrightarrow> snd gn + length es < 2 ^ 64 \<Longrightarrow>
     runtime_inv rt gn'"
proof (induction es arbitrary: gn)
  case (Cons e es)
  then obtain g1 where "runtime_step rt gn e = Some g1" "run_steps (runtime_step rt) g1 es = Some gn'"
    by (auto split: bind_splits)
  with Cons runtime_step_inv [of rt gn e g1] show ?case by auto
qed simp

section \<open>The order of the stages\<close>

lemma push_missing_spec:
  "distinct ordered \<Longrightarrow> Main \<notin> set ordered \<Longrightarrow>
     distinct (push_missing rts ordered) \<and> set (push_missing rts ordered) = set ordered \<union> (set rts - {Main}) \<and>
     (\<exists>rest. push_missing rts ordered = ordered @ rest)"
proof (induction rts arbitrary: ordered)
  case (Cons rt rts)
  let ?o = "if rt \<noteq> Main \<and> rt \<notin> set ordered then ordered @ [rt] else ordered"
  have "distinct ?o" "Main \<notin> set ?o" using Cons.prems by auto
  from Cons.IH [OF this] show ?case by (auto split: if_splits)
qed simp

lemma push_missing_distinct:
  "distinct (ordered @ rts) \<Longrightarrow> Main \<notin> set rts \<Longrightarrow> push_missing rts ordered = ordered @ rts"
  by (induction rts arbitrary: ordered) auto

lemma push_missing_sorted:
  "sorted rts \<Longrightarrow> \<exists>rest. push_missing rts ordered = ordered @ rest \<and> sorted rest \<and> set rest \<subseteq> set rts"
proof (induction rts arbitrary: ordered)
  case (Cons rt rts)
  have "sorted rts" using Cons.prems by simp
  from Cons.IH [OF this, of "if rt \<noteq> Main \<and> rt \<notin> set ordered then ordered @ [rt] else ordered"]
  obtain rest where "push_missing rts (if rt \<noteq> Main \<and> rt \<notin> set ordered then ordered @ [rt] else ordered) =
      (if rt \<noteq> Main \<and> rt \<notin> set ordered then ordered @ [rt] else ordered) @ rest" "sorted rest" "set rest \<subseteq> set rts"
    by blast
  with Cons.prems show ?case
    by (intro exI [of _ "(if rt \<noteq> Main \<and> rt \<notin> set ordered then [rt] else []) @ rest"]) (auto split: if_splits)
qed simp

section \<open>One stage\<close>

lemma task_ends_fields:
  "rg_live (task_ends rt ev g) = rg_live g" "rg_shutting_down (task_ends rt ev g) = rg_shutting_down g"
  "rg_entries (task_ends rt ev g) rt' = (if rt' = rt
     then (rg_entries g rt)\<lparr>re_tasks := task_event_state (re_cancelled (rg_entries g rt)) ev (re_tasks (rg_entries g rt))\<rparr>
     else rg_entries g rt')"
  by (auto simp: task_ends_def update_tasks_def registry_fail_def Let_def split: task_event.split)

lemma task_event_accepting [simp]: "ts_accepting (task_event_state c ev s) = ts_accepting s"
  by (cases ev) (simp_all add: guard_drop_def guard_complete_def guard_panic_def)

lemma fold_task_event_accepting [simp]: "ts_accepting (fold (task_event_state c) evs s) = ts_accepting s"
  by (induction evs arbitrary: s) simp_all

lemma fold_task_ends_fields:
  "rg_live (fold (task_ends rt) evs g) = rg_live g \<and> rg_shutting_down (fold (task_ends rt) evs g) = rg_shutting_down g \<and>
   (rt' \<noteq> rt \<longrightarrow> rg_entries (fold (task_ends rt) evs g) rt' = rg_entries g rt') \<and>
   re_cancelled (rg_entries (fold (task_ends rt) evs g) rt) = re_cancelled (rg_entries g rt) \<and>
   ts_accepting (re_tasks (rg_entries (fold (task_ends rt) evs g) rt)) = ts_accepting (re_tasks (rg_entries g rt)) \<and>
   re_tasks (rg_entries (fold (task_ends rt) evs g) rt) =
     fold (task_event_state (re_cancelled (rg_entries g rt))) evs (re_tasks (rg_entries g rt))"
  by (induction evs arbitrary: g) (simp_all add: task_ends_fields)

definition shut_down :: "runtime_type \<Rightarrow> registry_state \<Rightarrow> bool" where
  "shut_down rt g \<longleftrightarrow> re_cancelled (rg_entries g rt) \<and> \<not> ts_accepting (re_tasks (rg_entries g rt))"

lemma close_tasks_fields:
  "rg_live (close_tasks rt g) = rg_live g" "rg_shutting_down (close_tasks rt g) = rg_shutting_down g"
  "rt' \<noteq> rt \<Longrightarrow> rg_entries (close_tasks rt g) rt' = rg_entries g rt'"
  "re_cancelled (rg_entries (close_tasks rt g) rt)"
  "re_tasks (rg_entries (close_tasks rt g) rt) = tasks_close (re_tasks (rg_entries g rt))"
  by (simp_all add: close_tasks_def Let_def)

lemma shutdown_runtime_state:
  assumes "rt \<in> set (rg_live g)" "shutdown_runtime rt env g = (r, g')"
  shows "\<exists>x. r = Some x \<and> rr_runtime_type x = rt" "rg_live g' = remove1 rt (rg_live g)" "shut_down rt g'"
    "\<And>rt'. rt' \<noteq> rt \<Longrightarrow> rg_entries g' rt' = rg_entries g rt'" "rg_shutting_down g' = rg_shutting_down g"
  using assms
  by (auto simp: shutdown_runtime_def registry_get_def Let_def shut_down_def fold_task_ends_fields close_tasks_fields
      tasks_close_def)

lemma shutdown_runtime_absent:
  "rt \<notin> set (rg_live g) \<Longrightarrow> shutdown_runtime rt env g = (None, g)"
  by (simp add: shutdown_runtime_def registry_get_def)

lemma shutdown_stages_state:
  assumes "distinct rts" "shutdown_stages env rts g = (rs, g')" "distinct (rg_live g)"
  shows "map rr_runtime_type rs = filter (\<lambda>rt. rt \<in> set (rg_live g)) rts \<and>
    set (rg_live g') = set (rg_live g) - set rts \<and> distinct (rg_live g') \<and> rg_shutting_down g' = rg_shutting_down g \<and>
    (\<forall>rt. rt \<in> set rts \<longrightarrow> rt \<in> set (rg_live g) \<longrightarrow> shut_down rt g') \<and>
    (\<forall>rt. rt \<notin> set rts \<longrightarrow> rg_entries g' rt = rg_entries g rt)"
  using assms
proof (induction rts arbitrary: g rs)
  case (Cons rt rts)
  obtain r g1 where s1: "shutdown_runtime rt (env rt) g = (r, g1)" by fastforce
  obtain rs2 where s2: "shutdown_stages env rts g1 = (rs2, g')" and rs: "rs = (case r of None \<Rightarrow> [] | Some x \<Rightarrow> [x]) @ rs2"
    using Cons.prems(2) s1 by (auto split: prod.splits)
  have d: "distinct rts" "rt \<notin> set rts" using Cons.prems(1) by auto
  show ?case
  proof (cases "rt \<in> set (rg_live g)")
    case True
    note S = shutdown_runtime_state [OF True s1]
    have "distinct (rg_live g1)" using S(2) Cons.prems(3) by (simp add: distinct_remove1)
    note IH = Cons.IH [OF d(1) s2 this]
    have live1: "set (rg_live g1) = set (rg_live g) - {rt}" using S(2) Cons.prems(3) by simp
    have "map rr_runtime_type rs = filter (\<lambda>rt. rt \<in> set (rg_live g)) (rt # rts)"
      using S(1) rs IH live1 d(2) True by (auto intro: filter_cong)
    moreover have "shut_down rt g'" using S(3) IH d(2) by (simp add: shut_down_def)
    ultimately show ?thesis using IH S(4,5) live1 by auto
  next
    case False
    then have "r = None" "g1 = g" using s1 shutdown_runtime_absent by auto
    with Cons.IH [OF d(1) s2] Cons.prems(3) rs False show ?thesis by auto
  qed
qed simp

text \<open>Task events that only end live tasks.\<close>

fun live_events :: "bool \<Rightarrow> task_event list \<Rightarrow> task_state \<Rightarrow> bool" where
  "live_events c [] s \<longleftrightarrow> True"
| "live_events c (ev # evs) s \<longleftrightarrow>
     task_event_id ev \<in> fst ` set (ts_active s) \<and> live_events c evs (task_event_state c ev s)"

lemma tasks_ok_events: "tasks_ok n s \<Longrightarrow> live_events c evs s \<Longrightarrow> tasks_ok n (fold (task_event_state c) evs s)"
  by (induction evs arbitrary: s) (simp_all add: tasks_ok_event)

lemma active_names_Nil [simp]: "active_names s = [] \<longleftrightarrow> ts_active s = []"
  by (metis active_names_def length_0_conv length_map length_sort)

text \<open>A stage reported as graceful has left no task behind.\<close>

lemma shutdown_runtime_graceful:
  assumes "shutdown_runtime rt env g = (Some x, g')" "rr_outcome x = Graceful"
  shows "ts_active (re_tasks (rg_entries g' rt)) = []"
  using assms by (auto simp: shutdown_runtime_def stage_outcome_def Let_def split: option.splits if_splits)

lemma shutdown_stages_graceful:
  assumes "distinct rts" "shutdown_stages env rts g = (rs, g')" "distinct (rg_live g)"
    and "\<forall>x\<in>set rs. rr_outcome x = Graceful" "rt \<in> set rts" "rt \<in> set (rg_live g)"
  shows "ts_active (re_tasks (rg_entries g' rt)) = []"
  using assms
proof (induction rts arbitrary: g rs)
  case (Cons rt1 rts)
  obtain r g1 rs2 where s1: "shutdown_runtime rt1 (env rt1) g = (r, g1)" and s2: "shutdown_stages env rts g1 = (rs2, g')"
    and rs: "rs = (case r of None \<Rightarrow> [] | Some x \<Rightarrow> [x]) @ rs2"
    using Cons.prems(2) by (auto split: prod.splits)
  have live: "distinct (rg_live g1)" "rt \<noteq> rt1 \<Longrightarrow> rt \<in> set (rg_live g1)"
    using s1 Cons.prems(3,6) shutdown_runtime_state(2) [OF _ s1] shutdown_runtime_absent [of rt1 g "env rt1"]
    by (cases "rt1 \<in> set (rg_live g)"; auto simp: distinct_remove1)+
  show ?case
  proof (cases "rt = rt1")
    case True
    then obtain x where x: "r = Some x" using shutdown_runtime_state(1) [OF _ s1] Cons.prems(6) by auto
    have "rg_entries g' rt = rg_entries g1 rt"
      using shutdown_stages_state [OF _ s2 live(1)] Cons.prems(1) True by auto
    then show ?thesis using shutdown_runtime_graceful [of rt1 "env rt1" g x g1] s1 x True rs Cons.prems(4) by simp
  next
    case False
    then show ?thesis using Cons.IH [OF _ s2 live(1)] live(2) Cons.prems rs by auto
  qed
qed simp

text \<open>The registry after all stages.\<close>

lemma registry_shutdown_state:
  assumes "registry_shutdown orders env g = (rs, g')" and "distinct (rg_live g)" and "Main \<in> set (rg_live g)"
  shows "rg_live g' = [Main]" "rg_shutting_down g'" "\<And>rt. rt \<in> set (rg_live g) \<Longrightarrow> shut_down rt g'"
    "map rr_runtime_type rs = filter (\<lambda>rt. rt \<in> set (rg_live g)) (shutdown_order orders g) @ [Main]"
    "\<And>rt. \<forall>x\<in>set rs. rr_outcome x = Graceful \<Longrightarrow> rt \<in> set (rg_live g) \<Longrightarrow> ts_active (re_tasks (rg_entries g' rt)) = []"
proof -
  let ?g0 = "g\<lparr>rg_shutting_down := True\<rparr>"
  let ?o = "shutdown_order orders ?g0"
  have o: "distinct ?o" "Main \<notin> set ?o" "set (rg_live g) - {Main} \<subseteq> set ?o"
    using push_missing_spec [of "[]" orders] push_missing_spec [of "push_missing orders []" "sort (runtime_types ?g0)"]
    by (auto simp: shutdown_order_def runtime_types_def)
  obtain rs1 g1 where s1: "shutdown_stages env ?o ?g0 = (rs1, g1)" by fastforce
  have S: "map rr_runtime_type rs1 = filter (\<lambda>rt. rt \<in> set (rg_live g)) ?o" "set (rg_live g1) = {Main}" "distinct (rg_live g1)"
    "rg_shutting_down g1" "\<And>rt. rt \<in> set ?o \<Longrightarrow> rt \<in> set (rg_live g) \<Longrightarrow> shut_down rt g1"
    using shutdown_stages_state [OF o(1) s1] assms(2,3) o by auto
  then have live: "rg_live g1 = [Main]" by (cases "rg_live g1"; cases "tl (rg_live g1)") auto
  obtain x where m: "prepare_main_shutdown (env Main) g1 = (Some x, g')" "rr_runtime_type x = Main" "rs = rs1 @ [x]"
    using assms(1) s1 live by (auto simp: registry_shutdown_def prepare_main_shutdown_def registry_get_def Let_def)
  have M: "rg_live g' = [Main]" "rg_shutting_down g'" "shut_down Main g'"
    "\<And>rt. rt \<noteq> Main \<Longrightarrow> rg_entries g' rt = rg_entries g1 rt"
    "rr_outcome x = Graceful \<Longrightarrow> ts_active (re_tasks (rg_entries g' Main)) = []"
    using m(1) live S(4)
    by (auto simp: prepare_main_shutdown_def registry_get_def Let_def shut_down_def fold_task_ends_fields close_tasks_fields
        tasks_close_def split: if_splits)
  show "rg_live g' = [Main]" "rg_shutting_down g'" by (rule M)+
  show "shut_down rt g'" if "rt \<in> set (rg_live g)" for rt
    using that M(3,4) S(5) o(3) by (cases "rt = Main") (auto simp: shut_down_def)
  have "shutdown_order orders ?g0 = shutdown_order orders g" by (simp add: shutdown_order_def runtime_types_def)
  then show "map rr_runtime_type rs = filter (\<lambda>rt. rt \<in> set (rg_live g)) (shutdown_order orders g) @ [Main]"
    using S(1) m(2,3) by simp
  show "ts_active (re_tasks (rg_entries g' rt)) = []"
    if "\<forall>x\<in>set rs. rr_outcome x = Graceful" "rt \<in> set (rg_live g)" for rt
    using that M(4,5) m(3) o(3) shutdown_stages_graceful [OF o(1) s1, of rt] assms(2) by (cases "rt = Main") auto
qed

section \<open>Sharing the time\<close>

lemma stage_timeout_eq: "0 < m \<Longrightarrow> stage_timeout deadline now m = (deadline - now) div m"
  by (simp add: stage_timeout_def checked_div_def sat_simps)

lemma share_step:
  fixes rem :: nat
  assumes "0 < m" "m * budget \<le> k * rem" "rem - rem div m \<le> rem'"
  shows "(m - 1) * budget \<le> k * rem'"
proof -
  have "m * (rem div m) \<le> rem" by simp
  then have "(m - 1) * rem \<le> m * (rem - rem div m)"
    using assms(1) by (simp add: diff_mult_distrib diff_mult_distrib2 diff_le_mono2)
  also have "\<dots> \<le> m * rem'" using assms(3) by simp
  finally have s: "(m - 1) * rem \<le> m * rem'" .
  have "m * ((m - 1) * budget) = (m - 1) * (m * budget)" by simp
  also have "\<dots> \<le> (m - 1) * (k * rem)" using assms(2) by (rule mult_left_mono) simp
  also have "\<dots> = k * ((m - 1) * rem)" by simp
  also have "\<dots> \<le> k * (m * rem')" using s by (rule mult_left_mono) simp
  also have "\<dots> = m * (k * rem')" by simp
  finally show ?thesis using assms(1) by simp
qed

section \<open>Properties\<close>

text \<open>C8. Every task is accounted for: after any history of a runtime (spawns, tasks that return, panic
  or are dropped, and its closing; fewer than \<open>2 ^ 64\<close> events) the tasks it accepted are exactly the
  completed, the cancelled, the panicked and the ones still listed as active, each counted once; and
  a runtime that was closed accepts no further task.\<close>

theorem tasks_accounted:
  assumes "run_steps (runtime_step rt) (registry_new, 0) es = Some (g, n)" and "length es < 2 ^ 64"
  defines "s \<equiv> re_tasks (rg_entries g rt)"
  shows "n = ts_completed s + ts_cancelled s + ts_panicked s + length (active_names s) \<and>
    (\<not> ts_accepting s \<longrightarrow> (\<exists>e. spawn rt name g = (Inl e, g)))"
proof -
  have "runtime_inv rt (registry_new, 0)"
    by (simp add: runtime_inv_def registry_new_def runtime_entry_new_def tasks_ok_new)
  from run_runtime_inv [OF assms(1) this] assms(2) have "tasks_ok n s" by (simp add: runtime_inv_def s_def)
  then show ?thesis by (simp add: tasks_ok_def active_names_def spawn_def s_def Let_def)
qed

theorem tasks_accounted_witness:
  "\<exists>g. run_steps (runtime_step HttpApi) (registry_new, 0)
      [SpawnTask ''a'', SpawnTask ''b'', EndTask (Panicked 0), CloseRuntime, SpawnTask ''c'', EndTask (Returned 1)] = Some (g, 2) \<and>
    ts_completed (re_tasks (rg_entries g HttpApi)) + ts_cancelled (re_tasks (rg_entries g HttpApi)) +
      ts_panicked (re_tasks (rg_entries g HttpApi)) + length (active_names (re_tasks (rg_entries g HttpApi))) = 2"
proof -
  let ?es = "[SpawnTask ''a'', SpawnTask ''b'', EndTask (Panicked 0), CloseRuntime, SpawnTask ''c'', EndTask (Returned 1)]"
  obtain g where g: "run_steps (runtime_step HttpApi) (registry_new, 0) ?es = Some (g, 2)"
    by (simp add: registry_new_def runtime_entry_new_def task_state_new_def spawn_def start_locked_def update_tasks_def
        task_ends_def registry_fail_def guard_panic_def guard_complete_def guard_drop_def forget_task_def close_tasks_def
        tasks_close_def Let_def)
  from tasks_accounted [OF g] g show ?thesis by auto
qed

text \<open>The shutdown order visits every registered runtime exactly once and the main runtime never:
  it starts with the requested order as given, when that has no repetition and does not name the
  main runtime, and appends the omitted runtimes sorted by thread name.\<close>

lemma shutdown_order_spec:
  "distinct (shutdown_order orders g) \<and> Main \<notin> set (shutdown_order orders g) \<and>
   set (shutdown_order orders g) = (set orders \<union> set (rg_live g)) - {Main} \<and>
   (\<exists>omitted. shutdown_order orders g = push_missing orders [] @ omitted \<and> sorted omitted \<and> set omitted \<subseteq> set (rg_live g)) \<and>
   (distinct orders \<and> Main \<notin> set orders \<longrightarrow> push_missing orders [] = orders)"
proof -
  have o: "distinct (push_missing orders []) \<and> set (push_missing orders []) = set orders - {Main}"
    using push_missing_spec [of "[]" orders] by simp
  then have "Main \<notin> set (push_missing orders [])" by simp
  with o have s: "distinct (shutdown_order orders g)"
    "set (shutdown_order orders g) = set orders - {Main} \<union> (set (runtime_types g) - {Main})"
    using push_missing_spec [of "push_missing orders []" "sort (runtime_types g)"] by (simp_all add: shutdown_order_def)
  moreover have "\<exists>omitted. shutdown_order orders g = push_missing orders [] @ omitted \<and> sorted omitted \<and> set omitted \<subseteq> set (rg_live g)"
    using push_missing_sorted [of "sort (runtime_types g)" "push_missing orders []"]
    by (auto simp: shutdown_order_def runtime_types_def)
  moreover have "distinct orders \<and> Main \<notin> set orders \<longrightarrow> push_missing orders [] = orders"
    using push_missing_distinct [of "[]" orders] by simp
  ultimately show ?thesis by (auto simp: runtime_types_def)
qed

text \<open>C7. After the ordered shutdown only the main runtime is registered, every registered runtime has
  been cancelled and refuses tasks, new runtimes are refused, and the reports are those of the
  registered runtimes in the shutdown order with the main runtime last.\<close>

theorem registry_shutdown_final:
  assumes "registry_shutdown orders env g = (rs, g')" and "distinct (rg_live g)" and "Main \<in> set (rg_live g)"
  shows "rg_live g' = [Main] \<and> rg_shutting_down g' \<and> (\<forall>rt. rt \<in> set (rg_live g) \<longrightarrow> shut_down rt g') \<and>
    (\<forall>rt. \<exists>e. registry_register rt g' = (Inl e, g')) \<and>
    map rr_runtime_type rs = filter (\<lambda>rt. rt \<in> set (rg_live g)) (shutdown_order orders g) @ [Main]"
  using registry_shutdown_state(1-4) [OF assms] by (auto simp: registry_register_def)

text \<open>An environment in which every stage ends in time and nothing happens.\<close>

definition quiet_env :: stage_env where
  "quiet_env = \<lparr>sg_wait_events = [], sg_wait_ok = True, sg_stop_events = [], sg_join_ok = True, sg_elapsed = 0\<rparr>"

theorem registry_shutdown_final_witness:
  "\<exists>rs g'. registry_shutdown [HttpApi] (\<lambda>_. quiet_env) (registry_new\<lparr>rg_live := [Database, HttpApi, Main]\<rparr>) = (rs, g') \<and>
    rg_live g' = [Main] \<and> shut_down Database g'"
proof -
  let ?g = "registry_new\<lparr>rg_live := [Database, HttpApi, Main]\<rparr>"
  obtain rs g' where r: "registry_shutdown [HttpApi] (\<lambda>_. quiet_env) ?g = (rs, g')" by fastforce
  from registry_shutdown_final [OF r] r show ?thesis by simp
qed

text \<open>What a report of a stage means: it is graceful exactly when the tasks ended in time, the
  runtime was stopped, no task is left and none panicked; a graceful report accounts for every task
  the runtime accepted as completed or cancelled and lists none as remaining, and a stage whose
  tasks did not end in time is a timeout. The application's outcome is graceful exactly when nothing
  failed and every stage was graceful.\<close>

lemma graceful_report_meaning:
  assumes "rt \<in> set (rg_live g)" and "tasks_ok n (re_tasks (rg_entries g rt))"
    and "live_events True (sg_wait_events env @ sg_stop_events env) (tasks_close (re_tasks (rg_entries g rt)))"
    and "shutdown_runtime rt env g = (Some r, g')"
  shows "(rr_outcome r = Graceful \<longleftrightarrow>
      sg_wait_ok env \<and> sg_join_ok env \<and> rr_panicked_tasks r = 0 \<and> ts_active (re_tasks (rg_entries g' rt)) = []) \<and>
    (rr_outcome r = Graceful \<longrightarrow> rr_completed_tasks r + rr_cancelled_tasks r = n \<and> rr_remaining_tasks r = []) \<and>
    (rr_outcome r = TimedOut \<longleftrightarrow> \<not> sg_wait_ok env) \<and>
    (application_outcome failed rs = Graceful \<longleftrightarrow> \<not> failed \<and> (\<forall>x\<in>set rs. rr_outcome x = Graceful))"
proof -
  let ?t = "fold (task_event_state True) (sg_wait_events env @ sg_stop_events env) (tasks_close (re_tasks (rg_entries g rt)))"
  have ok: "tasks_ok n ?t" using assms(2,3) by (intro tasks_ok_events) simp_all
  have t: "re_tasks (rg_entries g' rt) = ?t" and out: "rr_outcome r = stage_outcome (sg_wait_ok env) (sg_join_ok env) (active_names ?t) (ts_panicked ?t)"
    and counts: "rr_completed_tasks r = ts_completed ?t" "rr_cancelled_tasks r = ts_cancelled ?t" "rr_panicked_tasks r = ts_panicked ?t"
    and left: "rr_outcome r = Graceful \<Longrightarrow> active_names ?t = [] \<Longrightarrow> rr_remaining_tasks r = []"
    using assms(1,4)
    by (auto simp: shutdown_runtime_def registry_get_def Let_def fold_task_ends_fields close_tasks_fields)
  have g: "rr_outcome r = Graceful \<longleftrightarrow> sg_wait_ok env \<and> sg_join_ok env \<and> ts_panicked ?t = 0 \<and> ts_active ?t = []"
    unfolding out by (auto simp: stage_outcome_def)
  moreover have "rr_outcome r = TimedOut \<longleftrightarrow> \<not> sg_wait_ok env" unfolding out by (auto simp: stage_outcome_def)
  moreover have "application_outcome failed rs = Graceful \<longleftrightarrow> \<not> failed \<and> (\<forall>x\<in>set rs. rr_outcome x = Graceful)"
    by (auto simp: application_outcome_def list_all_iff)
  ultimately show ?thesis using ok counts left t by (auto simp: tasks_ok_def)
qed

text \<open>The line for a graceful stage prints zero for the tasks that panicked or remain without looking; the report has no others.\<close>

lemma graceful_line_true:
  assumes "rt \<in> set (rg_live g)" "tasks_ok n (re_tasks (rg_entries g rt))"
    and "live_events True (sg_wait_events env @ sg_stop_events env) (tasks_close (re_tasks (rg_entries g rt)))"
    and "shutdown_runtime rt env g = (Some r, g')" "fst (log_runtime_report dbg r) = LogInfo"
  shows "snd (log_runtime_report dbg r) = report_counts ''graceful'' r @ '', panicked_tasks='' @ show_nat (rr_panicked_tasks r) @
    '', remaining_tasks='' @ show_nat (length (rr_remaining_tasks r))"
proof -
  have "rr_outcome r = Graceful" using assms(5) by (auto simp: log_runtime_report_def split: shutdown_outcome.splits)
  moreover from this have "rr_panicked_tasks r = 0" "rr_remaining_tasks r = []"
    using graceful_report_meaning [OF assms(1-4)] by auto
  moreover have "show_nat 0 = ''0''" by code_simp
  ultimately show ?thesis by (simp add: log_runtime_report_def)
qed

text \<open>The stages share the total time fairly: if every stage returns within the time it was given,
  the main runtime, which comes last, still has at least an equal share of the total, and no stage
  is given more than an equal share of what is left when it starts.\<close>

lemma stage_timeouts_fair:
  assumes "\<forall>i<n. clock (Suc i) \<le> clock i + stage_timeout (clock 0 + budget) (clock i) (n - i + 1)"
    and "i \<le> n"
  shows "(n - i + 1) * budget \<le> (n + 1) * (clock 0 + budget - clock i) \<and>
    (n - i + 1) * stage_timeout (clock 0 + budget) (clock i) (n - i + 1) \<le> clock 0 + budget - clock i"
proof -
  have "(n - i + 1) * budget \<le> (n + 1) * (clock 0 + budget - clock i)" using assms(2)
  proof (induction i)
    case (Suc i)
    let ?rem = "clock 0 + budget - clock i" and ?m = "n - i + 1"
    have "clock (Suc i) \<le> clock i + ?rem div ?m"
      using assms(1) [rule_format, of i] Suc.prems stage_timeout_eq [of ?m "clock 0 + budget" "clock i"] by simp
    then have "?rem - ?rem div ?m \<le> clock 0 + budget - clock (Suc i)" by linarith
    from share_step [OF _ Suc.IH this] Suc.prems
    have "(n - i) * budget \<le> (n + 1) * (clock 0 + budget - clock (Suc i))" by simp
    moreover have "n - Suc i + 1 = n - i" using Suc.prems by simp
    ultimately show ?case by (simp only:)
  qed simp
  moreover have "(n - i + 1) * stage_timeout (clock 0 + budget) (clock i) (n - i + 1) \<le> clock 0 + budget - clock i"
    using stage_timeout_eq [of "n - i + 1" "clock 0 + budget" "clock i"]
      times_div_less_eq_dividend [of "n - i + 1" "clock 0 + budget - clock i"] by simp
  ultimately show ?thesis by blast
qed

end
