(* ===== verification/Application.thy ===== *)
theory Application
  imports Runtime_Inv
begin

text \<open>
  The application's side of \<^verbatim>\<open>base/src/utils/rt.rs\<close> and \<^verbatim>\<open>base/src/daemon/signal.rs\<close>: the functions of \<^verbatim>\<open>GlobalRuntime\<close> that work on the process-wide registry and the process-wide exit
  token \<^verbatim>\<open>SHUTDOWN\<close>. Building a tokio runtime is a parameter: from the thread name and the number of workers to an error or a runtime, or a
  panic (\<open>None\<close>).
\<close>

record app =
  ap_registry :: registry_state
  ap_shutdown :: bool                  \<comment> \<open>the token \<^verbatim>\<open>SHUTDOWN\<close> is cancelled\<close>

definition app_new :: app where
  "app_new = \<lparr>ap_registry = registry_new, ap_shutdown = False\<rparr>"

definition get_cancel :: "app \<Rightarrow> bool" where
  "get_cancel a = ap_shutdown a"

definition signal_request_shutdown :: "app \<Rightarrow> app" where
  "signal_request_shutdown a = a\<lparr>ap_shutdown := True\<rparr>"

type_synonym builder = "string \<Rightarrow> nat option \<Rightarrow> (string + unit) option"

definition create_runtime :: "builder \<Rightarrow> runtime_type \<Rightarrow> nat option \<Rightarrow> unit global_result option" where
  "create_runtime build rt threads =
     (case build (as_thread_name rt) threads of
        None \<Rightarrow> None
      | Some (Inl err) \<Rightarrow>
          Some (Inl (snd (new_sys_error (''create runtime failed: runtime_type='' @ as_thread_name rt @ '', reason='' @ err))))
      | Some (Inr _) \<Rightarrow> Some (Inr ()))"

text \<open>The macro \<^verbatim>\<open>create_default_runtime!\<close> builds the same runtime outside the registry; its \<^verbatim>\<open>unwrap\<close> turns an error into a panic.\<close>

definition create_default_runtime :: "builder \<Rightarrow> runtime_type \<Rightarrow> nat option \<Rightarrow> unit option" where
  "create_default_runtime build rt threads =
     (case build (as_thread_name rt) threads of Some (Inr _) \<Rightarrow> Some () | _ \<Rightarrow> None)"

definition register_runtime :: "runtime_type \<Rightarrow> app \<Rightarrow> runtime_type global_result \<times> app" where
  "register_runtime rt a = (let (r, g) = registry_register rt (ap_registry a) in (r, a\<lparr>ap_registry := g\<rparr>))"

definition register_default :: "builder \<Rightarrow> runtime_type \<Rightarrow> app \<Rightarrow> (runtime_type global_result \<times> app) option" where
  "register_default build rt a =
     (case create_runtime build rt None of
        None \<Rightarrow> None
      | Some (Inl e) \<Rightarrow> Some (Inl e, a)
      | Some (Inr _) \<Rightarrow> Some (register_runtime rt a))"

definition register_threads_default ::
  "builder \<Rightarrow> runtime_type \<Rightarrow> nat \<Rightarrow> app \<Rightarrow> (runtime_type global_result \<times> app) option" where
  "register_threads_default build rt threads a =
     (case create_runtime build rt (Some threads) of
        None \<Rightarrow> None
      | Some (Inl e) \<Rightarrow> Some (Inl e, a)
      | Some (Inr _) \<Rightarrow> Some (register_runtime rt a))"

definition get_main_runtime :: "app \<Rightarrow> runtime_type option" where
  "get_main_runtime a = registry_get Main (ap_registry a)"

definition is_shutting_down :: "app \<Rightarrow> bool" where
  "is_shutting_down a = rg_shutting_down (ap_registry a)"

text \<open>The task of \<^verbatim>\<open>spawn_blocking\<close> runs on the pool for blocking calls; its bookkeeping is that of \<^verbatim>\<open>spawn\<close>.\<close>

definition spawn_blocking :: "runtime_type \<Rightarrow> string \<Rightarrow> registry_state \<Rightarrow> u64 global_result \<times> registry_state" where
  "spawn_blocking rt name g =
     (let s = re_tasks (rg_entries g rt) in
      if \<not> ts_accepting s
      then (Inl (snd (new_sys_error (''runtime no longer accepts tasks: runtime_type='' @ as_thread_name rt @ '', task='' @ name))), g)
      else (let (i, s') = start_locked name s in (Inr i, update_tasks rt (\<lambda>_. s') g)))"

definition request_shutdown :: "app \<Rightarrow> app" where
  "request_shutdown a = signal_request_shutdown a"

definition request_shutdown_with_error :: "app \<Rightarrow> app" where
  "request_shutdown_with_error a = signal_request_shutdown (a\<lparr>ap_registry := registry_fail (ap_registry a)\<rparr>)"

text \<open>What ends the waiting for an exit: a signal of the operating system at any time, the token when it is cancelled, and (\<open>None\<close>) the registry's own
  request.\<close>

definition exit_ready :: "app \<Rightarrow> exit_event option \<Rightarrow> bool" where
  "exit_ready a ev =
     (case ev of
        None \<Rightarrow> rg_shutdown_requested (ap_registry a)
      | Some TokenCancelled \<Rightarrow> ap_shutdown a
      | Some _ \<Rightarrow> True)"

definition app_order_shutdown ::
  "runtime_type list \<Rightarrow> exit_event option \<Rightarrow> (runtime_type \<Rightarrow> stage_env) \<Rightarrow> nat \<Rightarrow> app \<Rightarrow> (shutdown_report \<times> app) option" where
  "app_order_shutdown orders ev env elapsed a =
     (case order_shutdown orders ev env elapsed (ap_registry a) of
        None \<Rightarrow> None
      | Some (r, g) \<Rightarrow> Some (r, \<lparr>ap_registry = g, ap_shutdown = snd (wait_for_exit_signal ev (ap_shutdown a))\<rparr>))"

section \<open>Histories\<close>

datatype app_op =
  RegisterDefault runtime_type
| RegisterThreads runtime_type nat
| AppSpawn runtime_type string
| AppSpawnBlocking runtime_type string
| AppTaskEnds runtime_type task_event
| RequestShutdown
| RequestShutdownWithError

text \<open>\<open>None\<close>: building a runtime panicked, or a task ends that is not live.\<close>

fun app_step :: "builder \<Rightarrow> app \<Rightarrow> app_op \<Rightarrow> app option" where
  "app_step build a (RegisterDefault rt) = map_option snd (register_default build rt a)"
| "app_step build a (RegisterThreads rt n) = map_option snd (register_threads_default build rt n a)"
| "app_step build a (AppSpawn rt name) = Some (a\<lparr>ap_registry := snd (spawn rt name (ap_registry a))\<rparr>)"
| "app_step build a (AppSpawnBlocking rt name) = Some (a\<lparr>ap_registry := snd (spawn_blocking rt name (ap_registry a))\<rparr>)"
| "app_step build a (AppTaskEnds rt ev) =
     (if task_event_id ev \<in> fst ` set (ts_active (re_tasks (rg_entries (ap_registry a) rt)))
      then Some (a\<lparr>ap_registry := task_ends rt ev (ap_registry a)\<rparr>) else None)"
| "app_step build a RequestShutdown = Some (request_shutdown a)"
| "app_step build a RequestShutdownWithError = Some (request_shutdown_with_error a)"

fun failing :: "app_op \<Rightarrow> bool" where
  "failing (AppTaskEnds rt (Panicked i)) = True"
| "failing RequestShutdownWithError = True"
| "failing _ = False"

section \<open>Lemmas\<close>

lemma create_default_runtime_iff:
  "create_default_runtime build rt threads = Some () \<longleftrightarrow> create_runtime build rt threads = Some (Inr ())"
  by (auto simp: create_default_runtime_def create_runtime_def split: option.splits sum.splits)

lemma spawn_blocking_spawn: "spawn_blocking rt name g = spawn rt name g"
  by (simp add: spawn_blocking_def spawn_def)

text \<open>What a step does to the flags.\<close>

lemma spawn_flags:
  "rg_failed (snd (spawn rt name g)) = rg_failed g" "rg_shutdown_requested (snd (spawn rt name g)) = rg_shutdown_requested g"
  "rg_live (snd (spawn rt name g)) = rg_live g"
  by (auto simp: spawn_def update_tasks_def Let_def split: prod.split)

lemma task_ends_flags:
  "rg_failed (task_ends rt ev g) \<longleftrightarrow> rg_failed g \<or> failing (AppTaskEnds rt ev)"
  "rg_shutdown_requested (task_ends rt ev g) \<longleftrightarrow> rg_shutdown_requested g \<or> failing (AppTaskEnds rt ev)"
  by (cases ev; simp add: task_ends_def update_tasks_def registry_fail_def Let_def)+

definition app_inv :: "app \<Rightarrow> bool" where
  "app_inv a \<longleftrightarrow> Main \<in> set (rg_live (ap_registry a)) \<and> (rg_failed (ap_registry a) \<longrightarrow> rg_shutdown_requested (ap_registry a))"

lemma register_flags:
  assumes "register_runtime rt a = (r, a')" "app_inv a"
  shows "app_inv a' \<and> rg_failed (ap_registry a') = rg_failed (ap_registry a)"
  using assms by (auto simp: app_inv_def register_runtime_def registry_register_def Let_def split: if_splits)

lemma app_step_flags:
  assumes "app_step build a op = Some a'" "app_inv a"
  shows "app_inv a' \<and> (rg_failed (ap_registry a') \<longleftrightarrow> rg_failed (ap_registry a) \<or> failing op)"
proof (cases "\<exists>rt n. op = RegisterDefault rt \<or> op = RegisterThreads rt n")
  case True
  with assms show ?thesis
    by (auto simp: register_default_def register_threads_default_def dest: register_flags split: option.splits sum.splits)
next
  case False
  with assms show ?thesis
    by (cases op)
      (auto simp: app_inv_def spawn_flags spawn_blocking_spawn task_ends_fields task_ends_flags request_shutdown_def
        request_shutdown_with_error_def signal_request_shutdown_def registry_fail_def split: if_splits)
qed

lemma app_run_flags:
  assumes "run_steps (app_step build) a ops = Some a'" "app_inv a"
  shows "app_inv a' \<and> (rg_failed (ap_registry a') \<longleftrightarrow> rg_failed (ap_registry a) \<or> (\<exists>op\<in>set ops. failing op))"
  using assms
proof (induction ops arbitrary: a)
  case (Cons op ops)
  then obtain a1 where s: "app_step build a op = Some a1" "run_steps (app_step build) a1 ops = Some a'"
    by (auto split: bind_splits)
  from app_step_flags [OF s(1) Cons.prems(2)] Cons.IH [OF s(2)] show ?case by auto
qed simp

text \<open>A failure is never forgotten by the stages.\<close>

lemma fold_task_ends_failed: "rg_failed g \<Longrightarrow> rg_failed (fold (task_ends rt) evs g)"
  by (induction evs arbitrary: g) (simp_all add: task_ends_flags)

lemma close_tasks_failed [simp]: "rg_failed (close_tasks rt g) = rg_failed g"
  by (simp add: close_tasks_def Let_def)

lemma shutdown_runtime_failed: "rg_failed g \<Longrightarrow> rg_failed (snd (shutdown_runtime rt env g))"
  by (auto simp: shutdown_runtime_def Let_def fold_task_ends_failed split: option.split)

lemma shutdown_stages_failed: "rg_failed g \<Longrightarrow> rg_failed (snd (shutdown_stages env rts g))"
  by (induction rts arbitrary: g) (simp_all add: shutdown_runtime_failed case_prod_beta' Let_def)

lemma prepare_main_failed: "rg_failed g \<Longrightarrow> rg_failed (snd (prepare_main_shutdown env g))"
  by (auto simp: prepare_main_shutdown_def Let_def fold_task_ends_failed split: option.split)

lemma registry_shutdown_failed: "rg_failed g \<Longrightarrow> rg_failed (snd (registry_shutdown orders env g))"
  by (simp add: registry_shutdown_def Let_def case_prod_beta' prepare_main_failed shutdown_stages_failed)

lemma order_shutdown_failed:
  assumes "Main \<in> set (rg_live g)" "rg_failed g"
  shows "\<exists>r g'. order_shutdown orders ev env elapsed g = Some (r, g') \<and> sr_outcome r = Incomplete"
  using assms registry_shutdown_failed [OF assms(2), of orders env]
  by (auto simp: order_shutdown_def registry_get_def take_main_runtime_def application_outcome_def Let_def split: prod.split)

section \<open>Properties\<close>

text \<open>C10. A failure of the application is never lost. After any history the registry is marked as failed exactly when a task has panicked or a shutdown with
  error was requested; then the shutdown begins without any signal, and whatever starts it and however its stages end, it is reported as
  incomplete.\<close>

theorem failure_reported:
  assumes "run_steps (app_step build) app_new ops = Some a"
  shows "(rg_failed (ap_registry a) \<longleftrightarrow> (\<exists>op\<in>set ops. failing op)) \<and>
    ((\<exists>op\<in>set ops. failing op) \<longrightarrow> exit_ready a None \<and>
       (\<forall>orders ev env elapsed. \<exists>r a'. app_order_shutdown orders ev env elapsed a = Some (r, a') \<and> sr_outcome r = Incomplete \<and> \<not> is_graceful r))"
proof -
  have "app_inv app_new" by (simp add: app_inv_def app_new_def registry_new_def)
  from app_run_flags [OF assms this] have inv: "app_inv a"
    and failed: "rg_failed (ap_registry a) \<longleftrightarrow> (\<exists>op\<in>set ops. failing op)"
    by (simp_all add: app_new_def registry_new_def)
  have "\<exists>r a'. app_order_shutdown orders ev env elapsed a = Some (r, a') \<and> sr_outcome r = Incomplete \<and> \<not> is_graceful r"
    if "rg_failed (ap_registry a)" for orders ev env elapsed
    using order_shutdown_failed [OF _ that, of orders ev env elapsed] inv
    by (auto simp: app_order_shutdown_def app_inv_def is_graceful_def)
  with inv failed show ?thesis by (auto simp: app_inv_def exit_ready_def)
qed

text \<open>One task that panics.\<close>

theorem failure_reported_witness:
  "\<exists>a. run_steps (app_step (\<lambda>_ _. Some (Inr ()))) app_new
      [RegisterDefault HttpApi, AppSpawn HttpApi ''job'', AppTaskEnds HttpApi (Panicked 0)] = Some a \<and> exit_ready a None"
proof -
  let ?ops = "[RegisterDefault HttpApi, AppSpawn HttpApi ''job'', AppTaskEnds HttpApi (Panicked 0)]"
  obtain a where a: "run_steps (app_step (\<lambda>_ _. Some (Inr ()))) app_new ?ops = Some a"
    by (simp add: app_new_def registry_new_def register_default_def create_runtime_def register_runtime_def registry_register_def
        spawn_def start_locked_def update_tasks_def runtime_entry_new_def task_state_new_def)
  from failure_reported [OF a] have "exit_ready a None" by simp
  with a show ?thesis by blast
qed

text \<open>A shutdown that a panic started does not cancel the exit token, which is kept for tasks that watch for the end of the program.\<close>

lemma panic_leaves_exit_token:
  assumes "app_order_shutdown orders None env elapsed a = Some (r, a')"
  shows "get_cancel a' = get_cancel a"
  using assms by (auto simp: app_order_shutdown_def wait_for_exit_signal_def get_cancel_def split: option.splits)

end
