(* ===== verification/Service_Net.thy ===== *)
theory Service_Net
  imports Application Managed_Io_Inv
begin

text \<open>
  A service with managed network endpoints: the entry point \<^verbatim>\<open>managed_rw_with_tcp_write_mode\<close> of \<^verbatim>\<open>base/src/net/rw.rs\<close> on the
  runtimes of \<^verbatim>\<open>base/src/utils/rt.rs\<close>. The root task of an endpoint is a task of a runtime and its token a child of the runtime's, so
  the ordered shutdown reaches every endpoint.
\<close>

section \<open>Opening an endpoint on a runtime\<close>

text \<open>The entry point together with the \<^verbatim>\<open>spawn\<close> it calls: the identifier of the root task and the endpoint. The new token is
  cancelled from the start when that of the runtime is.\<close>

definition open_endpoint ::
  "('t \<Rightarrow> (string \<times> string) + 'l) \<Rightarrow> ('u \<Rightarrow> (string \<times> string) + nat) \<Rightarrow> (nat \<Rightarrow> 'w) \<Rightarrow> runtime_type \<Rightarrow> string \<Rightarrow>
   't option \<times> 'u option \<Rightarrow> tcp_write_mode \<Rightarrow> registry_state \<Rightarrow> (u64 \<times> 'w endpoint) global_result \<times> registry_state" where
  "open_endpoint prep_tcp prep_udp streams rt name tu mode g =
     (case prepare_packet_io prep_tcp prep_udp tu mode streams of
        Inl e \<Rightarrow> (Inl e, g)
      | Inr (tcp, udp, w) \<Rightarrow>
          (case spawn rt name g of
             (Inl e, g') \<Rightarrow> (Inl e, g')
           | (Inr i, g') \<Rightarrow> (Inr (i, (endpoint_new w)\<lparr>ep_cancelled := re_cancelled (rg_entries g rt)\<rparr>), g')))"

text \<open>A child token is cancelled by its own cancellation and by that of its parent.\<close>

definition endpoint_stopped :: "registry_state \<Rightarrow> runtime_type \<Rightarrow> 'w endpoint \<Rightarrow> bool" where
  "endpoint_stopped g rt ep \<longleftrightarrow> ep_cancelled ep \<or> re_cancelled (rg_entries g rt)"

section \<open>Histories of a service\<close>

record 'w service =
  sn_app :: app
  sn_endpoints :: "(runtime_type \<times> u64 \<times> 'w endpoint) list"   \<comment> \<open>as they were opened\<close>

definition service_new :: "'w service" where
  "service_new = \<lparr>sn_app = app_new, sn_endpoints = []\<rparr>"

datatype ('t, 'u) service_op = AppOp app_op | OpenEndpoint runtime_type string "'t option \<times> 'u option" tcp_write_mode

text \<open>An endpoint is opened through a handle of a registered runtime; \<open>None\<close> where \<open>app_step\<close> gives it and without a handle.\<close>

fun service_step ::
  "builder \<Rightarrow> ('t \<Rightarrow> (string \<times> string) + 'l) \<Rightarrow> ('u \<Rightarrow> (string \<times> string) + nat) \<Rightarrow> (nat \<Rightarrow> 'w) \<Rightarrow>
   'w service \<Rightarrow> ('t, 'u) service_op \<Rightarrow> 'w service option" where
  "service_step build prep_tcp prep_udp streams s (AppOp op) = map_option (\<lambda>a. s\<lparr>sn_app := a\<rparr>) (app_step build (sn_app s) op)"
| "service_step build prep_tcp prep_udp streams s (OpenEndpoint rt name tu mode) =
     (if registry_get rt (ap_registry (sn_app s)) = None then None
      else (case open_endpoint prep_tcp prep_udp streams rt name tu mode (ap_registry (sn_app s)) of
              (Inl e, g) \<Rightarrow> Some (s\<lparr>sn_app := (sn_app s)\<lparr>ap_registry := g\<rparr>\<rparr>)
            | (Inr (i, ep), g) \<Rightarrow>
                Some (s\<lparr>sn_app := (sn_app s)\<lparr>ap_registry := g\<rparr>, sn_endpoints := sn_endpoints s @ [(rt, i, ep)]\<rparr>)))"

section \<open>Lemmas\<close>

text \<open>On a runtime that has not been cancelled the endpoint is the one the entry point builds from the runtime's answer.\<close>

lemma open_endpoint_managed_rw:
  assumes "\<not> re_cancelled (rg_entries g rt)"
  shows "map_sum id snd (fst (open_endpoint prep_tcp prep_udp streams rt name tu mode g)) =
    managed_rw_with_tcp_write_mode prep_tcp prep_udp (map_sum id (\<lambda>_. ()) (fst (spawn rt name g))) tu mode streams"
  using assms
  by (auto simp: open_endpoint_def managed_rw_with_tcp_write_mode_def endpoint_new_def split: sum.splits prod.splits)

lemma open_endpoint_refused:
  assumes "\<not> ts_accepting (re_tasks (rg_entries g rt))"
  shows "\<exists>e. open_endpoint prep_tcp prep_udp streams rt name tu mode g = (Inl e, g)"
  using assms by (auto simp: open_endpoint_def spawn_def split: sum.splits prod.splits)

lemma open_endpoint_accepted:
  assumes "open_endpoint prep_tcp prep_udp streams rt name tu mode g = (Inr (i, ep), g')"
  shows "(i, name) \<in> set (ts_active (re_tasks (rg_entries g' rt)))" "ep_cancelled ep = re_cancelled (rg_entries g rt)"
  using assms
  by (auto simp: open_endpoint_def spawn_def start_locked_def update_tasks_def Let_def split: sum.splits prod.splits if_splits)

text \<open>Until the shutdown nothing cancels a runtime or takes it out of the registry.\<close>

definition registry_running :: "registry_state \<Rightarrow> bool" where
  "registry_running g \<longleftrightarrow> distinct (rg_live g) \<and> Main \<in> set (rg_live g) \<and> (\<forall>rt. \<not> re_cancelled (rg_entries g rt))"

definition service_inv :: "'w service \<Rightarrow> bool" where
  "service_inv s \<longleftrightarrow> registry_running (ap_registry (sn_app s)) \<and>
     (\<forall>(rt, i, ep)\<in>set (sn_endpoints s). rt \<in> set (rg_live (ap_registry (sn_app s))) \<and> \<not> ep_cancelled ep)"

lemma running_spawn:
  "registry_running (snd (spawn rt name g)) \<longleftrightarrow> registry_running g" "rg_live (snd (spawn rt name g)) = rg_live g"
  by (auto simp: registry_running_def spawn_def start_locked_def update_tasks_def Let_def split: if_splits)

lemma running_task_ends: "registry_running (task_ends rt ev g) \<longleftrightarrow> registry_running g"
  by (auto simp: registry_running_def task_ends_fields split: if_splits)

lemma running_fail: "registry_running (registry_fail g) \<longleftrightarrow> registry_running g" "rg_live (registry_fail g) = rg_live g"
  by (simp_all add: registry_running_def registry_fail_def)

lemma running_register:
  assumes "registry_running g" "registry_register rt g = (r, g')"
  shows "registry_running g' \<and> set (rg_live g) \<subseteq> set (rg_live g')"
  using assms by (auto simp: registry_running_def registry_register_def runtime_entry_new_def split: if_splits)

lemma app_step_running:
  assumes "registry_running (ap_registry a)" "app_step build a op = Some a'"
  shows "registry_running (ap_registry a') \<and> set (rg_live (ap_registry a)) \<subseteq> set (rg_live (ap_registry a'))"
proof (cases "\<exists>rt n. op = RegisterDefault rt \<or> op = RegisterThreads rt n")
  case True
  with assms(2) consider "a' = a" | rt r where "register_runtime rt a = (r, a')"
    by (auto simp: register_default_def register_threads_default_def split: option.splits sum.splits)
  then show ?thesis
    by cases (use assms(1) in \<open>fastforce simp: register_runtime_def Let_def dest: running_register split: prod.splits\<close>)+
next
  case False
  with assms show ?thesis
    by (cases op)
      (auto simp: running_spawn running_task_ends task_ends_fields spawn_blocking_spawn request_shutdown_def
        request_shutdown_with_error_def signal_request_shutdown_def running_fail split: if_splits)
qed

lemma open_endpoint_registry:
  "snd (open_endpoint prep_tcp prep_udp streams rt name tu mode g) \<in> {g, snd (spawn rt name g)}"
  by (auto simp: open_endpoint_def split: sum.split prod.split)

lemma service_step_inv:
  assumes "service_inv s" "service_step build prep_tcp prep_udp streams s op = Some s'"
  shows "service_inv s'"
proof (cases op)
  case (AppOp aop)
  with assms app_step_running [of "sn_app s" build aop] show ?thesis by (fastforce simp: service_inv_def)
next
  case (OpenEndpoint rt name tu mode)
  let ?g = "ap_registry (sn_app s)"
  obtain r g where o: "open_endpoint prep_tcp prep_udp streams rt name tu mode ?g = (r, g)" by fastforce
  have g: "registry_running g" "rg_live g = rg_live ?g"
    using open_endpoint_registry [of prep_tcp prep_udp streams rt name tu mode ?g] assms(1) o running_spawn [of rt name ?g]
    by (auto simp: service_inv_def)
  have live: "rt \<in> set (rg_live ?g)" using assms(2) OpenEndpoint by (auto simp: registry_get_def split: if_splits)
  show ?thesis
  proof (cases r)
    case (Inl e)
    then show ?thesis using assms OpenEndpoint o g live by (auto simp: service_inv_def registry_get_def)
  next
    case (Inr x)
    obtain i ep where x: "x = (i, ep)" by (cases x)
    have "\<not> ep_cancelled ep"
      using open_endpoint_accepted(2) [OF o [unfolded Inr x]] assms(1) by (simp add: service_inv_def registry_running_def)
    then show ?thesis using assms OpenEndpoint o g live Inr x by (auto simp: service_inv_def registry_get_def)
  qed
qed

lemma service_inv_new: "service_inv service_new"
  by (simp add: service_inv_def service_new_def app_new_def registry_running_def registry_new_def runtime_entry_new_def)

lemma service_run_inv:
  assumes "run_steps (service_step build prep_tcp prep_udp streams) s ops = Some s'" "service_inv s"
  shows "service_inv s'"
  using assms by (induction ops arbitrary: s) (auto split: bind_splits dest: service_step_inv)

text \<open>What the ordered shutdown does to the runtimes of a running registry.\<close>

lemma order_shutdown_runtimes:
  assumes "registry_running (ap_registry a)"
  shows "\<exists>r a'. app_order_shutdown orders ev env elapsed a = Some (r, a') \<and>
    (\<forall>rt\<in>set (rg_live (ap_registry a)). shut_down rt (ap_registry a') \<and>
       (is_graceful r \<longrightarrow> ts_active (re_tasks (rg_entries (ap_registry a') rt)) = []))"
proof -
  let ?g = "ap_registry a"
  have live: "distinct (rg_live ?g)" "Main \<in> set (rg_live ?g)" using assms by (simp_all add: registry_running_def)
  obtain rs g1 where s: "registry_shutdown orders env ?g = (rs, g1)" by fastforce
  note S = registry_shutdown_state(3,5) [OF s live]
  have "application_outcome failed rs = Graceful \<Longrightarrow> \<forall>x\<in>set rs. rr_outcome x = Graceful" for failed
    by (auto simp: application_outcome_def list_all_iff split: if_splits)
  with S show ?thesis using live(2) s
    by (auto simp: app_order_shutdown_def order_shutdown_def registry_get_def take_main_runtime_def is_graceful_def shut_down_def
        split: prod.splits)
qed

section \<open>Properties\<close>

text \<open>C11. The shutdown of a service reaches its network endpoints. After any history of registrations, tasks, requests and openings no endpoint has been
  stopped by the runtimes; the ordered shutdown then completes and stops every endpoint, no further endpoint can be opened on any runtime, and
  when the shutdown is reported as graceful no runtime of an endpoint has a task left, so every root task has ended.\<close>

theorem shutdown_stops_endpoints:
  assumes "run_steps (service_step build prep_tcp prep_udp streams) service_new ops = Some s"
  shows "\<exists>r a'. app_order_shutdown orders ev env elapsed (sn_app s) = Some (r, a') \<and>
    (\<forall>(rt, i, ep)\<in>set (sn_endpoints s).
       \<not> endpoint_stopped (ap_registry (sn_app s)) rt ep \<and> endpoint_stopped (ap_registry a') rt ep \<and>
       (is_graceful r \<longrightarrow> ts_active (re_tasks (rg_entries (ap_registry a') rt)) = [])) \<and>
    (\<forall>rt\<in>set (rg_live (ap_registry (sn_app s))). \<forall>name tu mode.
       \<exists>e. open_endpoint prep_tcp prep_udp streams rt name tu mode (ap_registry a') = (Inl e, ap_registry a'))"
proof -
  have inv: "service_inv s" by (rule service_run_inv [OF assms service_inv_new])
  then have run: "registry_running (ap_registry (sn_app s))" by (simp add: service_inv_def)
  from order_shutdown_runtimes [OF this, of orders ev env elapsed] obtain r a' where
    r: "app_order_shutdown orders ev env elapsed (sn_app s) = Some (r, a')"
    and S: "\<forall>rt\<in>set (rg_live (ap_registry (sn_app s))). shut_down rt (ap_registry a') \<and>
       (is_graceful r \<longrightarrow> ts_active (re_tasks (rg_entries (ap_registry a') rt)) = [])" by blast
  have "\<exists>e. open_endpoint prep_tcp prep_udp streams rt name tu mode (ap_registry a') = (Inl e, ap_registry a')"
    if "rt \<in> set (rg_live (ap_registry (sn_app s)))" for rt name tu mode
    using S that by (intro open_endpoint_refused) (simp add: shut_down_def)
  with r S inv run show ?thesis
    by (intro exI [of _ r] exI [of _ a']) (auto simp: service_inv_def registry_running_def endpoint_stopped_def shut_down_def)
qed

text \<open>One UDP endpoint whose root task returns while its runtime stops.\<close>

theorem shutdown_stops_endpoints_witness:
  "\<exists>s i ep r a'. run_steps (service_step (\<lambda>_ _. Some (Inr ())) (\<lambda>_. Inr ()) (\<lambda>_. Inr 5) (\<lambda>_. ())) service_new
      [AppOp (RegisterDefault HttpApi), OpenEndpoint HttpApi ''io'' (None :: unit option, Some ()) Direct] = Some s \<and>
    sn_endpoints s = [(HttpApi, i, ep)] \<and>
    app_order_shutdown [] (Some SigTerm) (\<lambda>_. quiet_env\<lparr>sg_wait_events := [Returned 0]\<rparr>) 0 (sn_app s) = Some (r, a') \<and>
    endpoint_stopped (ap_registry a') HttpApi ep"
proof -
  let ?ops = "[AppOp (RegisterDefault HttpApi), OpenEndpoint HttpApi ''io'' (None :: unit option, Some ()) Direct]"
  obtain s i ep where s: "run_steps (service_step (\<lambda>_ _. Some (Inr ())) (\<lambda>_. Inr ()) (\<lambda>_. Inr 5) (\<lambda>_. ())) service_new ?ops = Some s"
    "sn_endpoints s = [(HttpApi, i, ep)]"
    by (simp add: service_new_def app_new_def registry_new_def register_default_def create_runtime_def register_runtime_def
        registry_register_def registry_get_def open_endpoint_def prepare_packet_io_def hand_log_def spawn_def start_locked_def
        runtime_entry_new_def task_state_new_def Let_def)
  from shutdown_stops_endpoints [OF s(1), of "[]" "Some SigTerm" "\<lambda>_. quiet_env\<lparr>sg_wait_events := [Returned 0]\<rparr>" 0] s show ?thesis
    by auto
qed

end
