(* ===== verification/Delay_Cache.thy ===== *)
theory Delay_Cache
  imports Runtime
begin

text \<open>
  The keyed cache with expiry of \<^verbatim>\<open>base/src/cache/mod.rs\<close>: a concurrent map, a channel of commands, a task that owns the delay queue and the table
  from keys to queue entries, and a worker that runs the callbacks of expired values under a semaphore.

  The delay queue of tokio-util, the channels and the semaphore of tokio are parameters (\<open>delay_env\<close>); what their documentation promises is stated by
  \<open>queue_laws\<close>, \<open>channel_laws\<close> and \<open>semaphore_laws\<close>. A queue operation that panics is \<open>None\<close>. \<open>expire_ttl\<close> is the application's, an argument.
  Inserting and removing are two steps each, the map and the channel, and calls of other threads and turns of the tasks may come between.
\<close>

section \<open>Values\<close>

text \<open>A value behind \<^verbatim>\<open>Arc<dyn Cacheable>\<close> carries the type it was made from.\<close>

datatype ('i, 'v) cached_value = CachedValue 'i 'v

definition from_any :: "'i \<Rightarrow> 'v \<Rightarrow> ('i, 'v) cached_value" where
  "from_any type_id value = CachedValue type_id value"

fun downcast_ref :: "'i \<Rightarrow> ('i, 'v) cached_value \<Rightarrow> 'v option" where
  "downcast_ref wanted (CachedValue type_id value) = (if type_id = wanted then Some value else None)"

section \<open>State\<close>

datatype delay_command =
  CmdInsert string "nat option"
| CmdRemove string
| CmdRefresh string nat

record ('q, 't, 'c, 'v, 'w, 's) delay_env =
  dq_new :: 'q
  dq_insert :: "nat \<Rightarrow> string \<Rightarrow> nat \<Rightarrow> 'q \<Rightarrow> ('t \<times> 'q) option"
  dq_remove :: "'t \<Rightarrow> 'q \<Rightarrow> 'q option"
  dq_reset :: "nat \<Rightarrow> 't \<Rightarrow> nat \<Rightarrow> 'q \<Rightarrow> 'q option"
  dq_next :: "nat \<Rightarrow> 'q \<Rightarrow> (string \<times> 'q) option"
  dq_clear :: "'q \<Rightarrow> 'q"
  cmd_channel :: 'c
  cmd_send :: "delay_command \<Rightarrow> 'c \<Rightarrow> 'c"
  cmd_recv :: "'c \<Rightarrow> (delay_command \<times> 'c) option"
  call_channel :: "nat \<Rightarrow> 'w"
  call_try_send :: "'v \<Rightarrow> 'w \<Rightarrow> 'w option"
  call_recv :: "'w \<Rightarrow> ('v \<times> 'w) option"
  sem_new :: "nat \<Rightarrow> 's"
  sem_acquire :: "'s \<Rightarrow> (string + 's) option"   \<comment> \<open>\<open>None\<close>: waits\<close>
  sem_release :: "'s \<Rightarrow> 's"

text \<open>The second half of a call that another thread is still to run.\<close>

datatype unfinished = SendInsert string "nat option" | TakeValue string

record ('q, 't, 'c, 'v, 'w, 's) delay_cache =
  dc_map :: "string \<rightharpoonup> 'v"
  dc_cmds :: 'c
  dc_queue :: 'q
  dc_keys :: "string \<rightharpoonup> 't"
  dc_running :: bool
  dc_flight :: "unfinished list"
  dc_calls :: 'w
  dc_worker :: bool
  dc_semaphore :: 's
  dc_holding :: "'v option"            \<comment> \<open>received by the worker, waiting for a permit\<close>
  dc_active :: "'v list"               \<comment> \<open>callbacks that hold a permit\<close>

definition CALL_CHANNEL :: nat where "CALL_CHANNEL = 10000"
definition CALLBACKS :: nat where "CALLBACKS = 100"

definition cache_new :: "('q, 't, 'c, 'v, 'w, 's) delay_env \<Rightarrow> ('q, 't, 'c, 'v, 'w, 's) delay_cache" where
  "cache_new io = \<lparr>dc_map = Map.empty, dc_cmds = cmd_channel io, dc_queue = dq_new io, dc_keys = Map.empty, dc_running = True, dc_flight = [],
     dc_calls = call_channel io CALL_CHANNEL, dc_worker = True, dc_semaphore = sem_new io CALLBACKS, dc_holding = None, dc_active = []\<rparr>"

text \<open>\<^verbatim>\<open>Cache::init\<close> spawns both tasks on the main runtime and panics when there is none or it refuses tasks.\<close>

definition cache_init ::
  "('q, 't, 'c, 'v, 'w, 's) delay_env \<Rightarrow> registry_state \<Rightarrow> (('q, 't, 'c, 'v, 'w, 's) delay_cache \<times> registry_state) option" where
  "cache_init io g =
     (if registry_get Main g = None then None
      else case spawn Main ''cache-delay-queue'' g of
        (Inl _, _) \<Rightarrow> None
      | (Inr _, g1) \<Rightarrow>
          (case spawn Main ''cache-expire-callback'' g1 of (Inl _, _) \<Rightarrow> None | (Inr _, g2) \<Rightarrow> Some (cache_new io, g2)))"

section \<open>Calls\<close>

definition dc_contains_key :: "string \<Rightarrow> ('q, 't, 'c, 'v, 'w, 's) delay_cache \<Rightarrow> bool" where
  "dc_contains_key k c \<longleftrightarrow> dc_map c k \<noteq> None"

definition dc_get :: "string \<Rightarrow> ('q, 't, 'c, 'v, 'w, 's) delay_cache \<Rightarrow> 'v option" where
  "dc_get k c = dc_map c k"

text \<open>Sending fails, which is logged, once the task has dropped the receiver.\<close>

definition dc_send ::
  "('q, 't, 'c, 'v, 'w, 's) delay_env \<Rightarrow> delay_command \<Rightarrow> ('q, 't, 'c, 'v, 'w, 's) delay_cache \<Rightarrow> ('q, 't, 'c, 'v, 'w, 's) delay_cache" where
  "dc_send io cmd c = (if dc_running c then c\<lparr>dc_cmds := cmd_send io cmd (dc_cmds c)\<rparr> else c)"

definition insert_begin ::
  "('v \<Rightarrow> nat option) \<Rightarrow> string \<Rightarrow> 'v \<Rightarrow> ('q, 't, 'c, 'v, 'w, 's) delay_cache \<Rightarrow> unfinished \<times> ('q, 't, 'c, 'v, 'w, 's) delay_cache" where
  "insert_begin expire_ttl k v c = (SendInsert k (expire_ttl v), c\<lparr>dc_map := (dc_map c)(k \<mapsto> v)\<rparr>)"

definition remove_begin ::
  "('q, 't, 'c, 'v, 'w, 's) delay_env \<Rightarrow> string \<Rightarrow> ('q, 't, 'c, 'v, 'w, 's) delay_cache \<Rightarrow> unfinished \<times> ('q, 't, 'c, 'v, 'w, 's) delay_cache" where
  "remove_begin io k c = (TakeValue k, dc_send io (CmdRemove k) c)"

fun finish ::
  "('q, 't, 'c, 'v, 'w, 's) delay_env \<Rightarrow> unfinished \<Rightarrow> ('q, 't, 'c, 'v, 'w, 's) delay_cache \<Rightarrow> 'v option \<times> ('q, 't, 'c, 'v, 'w, 's) delay_cache" where
  "finish io (SendInsert k ttl) c = (None, dc_send io (CmdInsert k ttl) c)"
| "finish io (TakeValue k) c = (dc_map c k, c\<lparr>dc_map := (dc_map c)(k := None)\<rparr>)"

text \<open>The whole calls, when nothing comes between their halves.\<close>

definition dc_insert ::
  "('q, 't, 'c, 'v, 'w, 's) delay_env \<Rightarrow> ('v \<Rightarrow> nat option) \<Rightarrow> string \<Rightarrow> 'v \<Rightarrow> ('q, 't, 'c, 'v, 'w, 's) delay_cache \<Rightarrow>
   ('q, 't, 'c, 'v, 'w, 's) delay_cache" where
  "dc_insert io expire_ttl k v c = (case insert_begin expire_ttl k v c of (u, c') \<Rightarrow> snd (finish io u c'))"

definition dc_remove ::
  "('q, 't, 'c, 'v, 'w, 's) delay_env \<Rightarrow> string \<Rightarrow> ('q, 't, 'c, 'v, 'w, 's) delay_cache \<Rightarrow> 'v option \<times> ('q, 't, 'c, 'v, 'w, 's) delay_cache" where
  "dc_remove io k c = (case remove_begin io k c of (u, c') \<Rightarrow> finish io u c')"

text \<open>\<^verbatim>\<open>refresh\<close> sends while it holds its reference into the map.\<close>

definition dc_refresh ::
  "('q, 't, 'c, 'v, 'w, 's) delay_env \<Rightarrow> ('v \<Rightarrow> nat option) \<Rightarrow> string \<Rightarrow> ('q, 't, 'c, 'v, 'w, 's) delay_cache \<Rightarrow>
   ('q, 't, 'c, 'v, 'w, 's) delay_cache" where
  "dc_refresh io expire_ttl k c =
     (case dc_map c k of
        None \<Rightarrow> c
      | Some v \<Rightarrow> (case expire_ttl v of None \<Rightarrow> c | Some ttl \<Rightarrow> dc_send io (CmdRefresh k ttl) c))"

text \<open>\<^verbatim>\<open>CommonCache\<close>: the calls on the process-wide cache, which the first of them makes.\<close>

definition on_common ::
  "('q, 't, 'c, 'v, 'w, 's) delay_env \<Rightarrow> (('q, 't, 'c, 'v, 'w, 's) delay_cache \<Rightarrow> 'r \<times> ('q, 't, 'c, 'v, 'w, 's) delay_cache) \<Rightarrow>
   ('q, 't, 'c, 'v, 'w, 's) delay_cache option \<times> registry_state \<Rightarrow>
   ('r \<times> ('q, 't, 'c, 'v, 'w, 's) delay_cache option \<times> registry_state) option" where
  "on_common io f = (\<lambda>(common, g). do {
     (c, g') \<leftarrow> (case common of Some c \<Rightarrow> Some (c, g) | None \<Rightarrow> cache_init io g);
     case f c of (r, c') \<Rightarrow> Some (r, Some c', g')
   })"

definition common_contains_key where
  "common_contains_key io k = on_common io (\<lambda>c. (dc_contains_key k c, c))"

definition common_insert where
  "common_insert io expire_ttl k v = on_common io (\<lambda>c. ((), dc_insert io expire_ttl k v c))"

definition common_get where
  "common_get io k = on_common io (\<lambda>c. (dc_get k c, c))"

definition common_remove where
  "common_remove io k = on_common io (dc_remove io k)"

definition common_refresh where
  "common_refresh io expire_ttl k = on_common io (\<lambda>c. ((), dc_refresh io expire_ttl k c))"

section \<open>The task of the delay queue\<close>

definition unschedule ::
  "('q, 't, 'c, 'v, 'w, 's) delay_env \<Rightarrow> string \<Rightarrow> ('q, 't, 'c, 'v, 'w, 's) delay_cache \<Rightarrow> ('q, 't, 'c, 'v, 'w, 's) delay_cache option" where
  "unschedule io k c =
     (case dc_keys c k of
        None \<Rightarrow> Some c
      | Some t \<Rightarrow> map_option (\<lambda>q. c\<lparr>dc_keys := (dc_keys c)(k := None), dc_queue := q\<rparr>) (dq_remove io t (dc_queue c)))"

definition reschedule ::
  "('q, 't, 'c, 'v, 'w, 's) delay_env \<Rightarrow> nat \<Rightarrow> 't \<Rightarrow> nat \<Rightarrow> ('q, 't, 'c, 'v, 'w, 's) delay_cache \<Rightarrow>
   ('q, 't, 'c, 'v, 'w, 's) delay_cache option" where
  "reschedule io now t ttl c = map_option (\<lambda>q. c\<lparr>dc_queue := q\<rparr>) (dq_reset io now t ttl (dc_queue c))"

fun dc_command ::
  "('q, 't, 'c, 'v, 'w, 's) delay_env \<Rightarrow> nat \<Rightarrow> delay_command \<Rightarrow> ('q, 't, 'c, 'v, 'w, 's) delay_cache \<Rightarrow>
   ('q, 't, 'c, 'v, 'w, 's) delay_cache option" where
  "dc_command io now (CmdInsert k None) c = unschedule io k c"
| "dc_command io now (CmdInsert k (Some ttl)) c =
     (case dc_keys c k of
        Some t \<Rightarrow> reschedule io now t ttl c
      | None \<Rightarrow> map_option (\<lambda>(t, q). c\<lparr>dc_queue := q, dc_keys := (dc_keys c)(k \<mapsto> t)\<rparr>) (dq_insert io now k ttl (dc_queue c)))"
| "dc_command io now (CmdRemove k) c = unschedule io k c"
| "dc_command io now (CmdRefresh k ttl) c =
     (case dc_keys c k of Some t \<Rightarrow> reschedule io now t ttl c | None \<Rightarrow> Some c)"

text \<open>An entry that the queue yields leaves the table and the map; its value, if any, goes to the worker unless its channel is full or gone. The
  answer is the value the channel took.\<close>

definition hand_over ::
  "('q, 't, 'c, 'v, 'w, 's) delay_env \<Rightarrow> 'v \<Rightarrow> ('q, 't, 'c, 'v, 'w, 's) delay_cache \<Rightarrow> 'v option \<times> ('q, 't, 'c, 'v, 'w, 's) delay_cache" where
  "hand_over io v c =
     (if \<not> dc_worker c then (None, c)
      else case call_try_send io v (dc_calls c) of None \<Rightarrow> (None, c) | Some w \<Rightarrow> (Some v, c\<lparr>dc_calls := w\<rparr>))"

definition dc_expire ::
  "('q, 't, 'c, 'v, 'w, 's) delay_env \<Rightarrow> nat \<Rightarrow> ('q, 't, 'c, 'v, 'w, 's) delay_cache \<Rightarrow> 'v option \<times> ('q, 't, 'c, 'v, 'w, 's) delay_cache" where
  "dc_expire io now c =
     (case dq_next io now (dc_queue c) of
        None \<Rightarrow> (None, c)
      | Some (k, q) \<Rightarrow>
          (let c1 = c\<lparr>dc_queue := q, dc_keys := (dc_keys c)(k := None)\<rparr> in
           case dc_map c1 k of
             None \<Rightarrow> (None, c1)
           | Some v \<Rightarrow> hand_over io v (c1\<lparr>dc_map := (dc_map c1)(k := None)\<rparr>)))"

text \<open>The end of the task: it clears everything and drops the receiver of the commands.\<close>

definition dc_stop ::
  "('q, 't, 'c, 'v, 'w, 's) delay_env \<Rightarrow> ('q, 't, 'c, 'v, 'w, 's) delay_cache \<Rightarrow> ('q, 't, 'c, 'v, 'w, 's) delay_cache" where
  "dc_stop io c = c\<lparr>dc_keys := Map.empty, dc_map := Map.empty, dc_queue := dq_clear io (dc_queue c), dc_running := False\<rparr>"

section \<open>The callback worker\<close>

definition worker_recv ::
  "('q, 't, 'c, 'v, 'w, 's) delay_env \<Rightarrow> ('q, 't, 'c, 'v, 'w, 's) delay_cache \<Rightarrow> ('q, 't, 'c, 'v, 'w, 's) delay_cache" where
  "worker_recv io c =
     (if dc_worker c \<and> dc_holding c = None
      then case call_recv io (dc_calls c) of None \<Rightarrow> c | Some (v, w) \<Rightarrow> c\<lparr>dc_calls := w, dc_holding := Some v\<rparr>
      else c)"

text \<open>The worker gets a permit and starts the callback, which it answers; a closed semaphore loses the value.\<close>

definition worker_permit ::
  "('q, 't, 'c, 'v, 'w, 's) delay_env \<Rightarrow> ('q, 't, 'c, 'v, 'w, 's) delay_cache \<Rightarrow> 'v option \<times> ('q, 't, 'c, 'v, 'w, 's) delay_cache" where
  "worker_permit io c =
     (case dc_holding c of
        None \<Rightarrow> (None, c)
      | Some v \<Rightarrow>
          (case sem_acquire io (dc_semaphore c) of
             None \<Rightarrow> (None, c)
           | Some (Inl e) \<Rightarrow> (None, c\<lparr>dc_holding := None\<rparr>)
           | Some (Inr s) \<Rightarrow> (Some v, c\<lparr>dc_semaphore := s, dc_holding := None, dc_active := dc_active c @ [v]\<rparr>)))"

text \<open>A callback returns or panics: either way its permit is dropped.\<close>

definition callback_ends ::
  "('q, 't, 'c, 'v, 'w, 's) delay_env \<Rightarrow> nat \<Rightarrow> ('q, 't, 'c, 'v, 'w, 's) delay_cache \<Rightarrow> ('q, 't, 'c, 'v, 'w, 's) delay_cache" where
  "callback_ends io i c =
     (if i < length (dc_active c)
      then c\<lparr>dc_active := take i (dc_active c) @ drop (Suc i) (dc_active c), dc_semaphore := sem_release io (dc_semaphore c)\<rparr>
      else c)"

text \<open>The worker sees the cancellation only where it selects, not while it waits for a permit.\<close>

definition worker_stop :: "('q, 't, 'c, 'v, 'w, 's) delay_cache \<Rightarrow> ('q, 't, 'c, 'v, 'w, 's) delay_cache" where
  "worker_stop c = (if dc_holding c = None then c\<lparr>dc_worker := False\<rparr> else c)"

section \<open>Histories\<close>

datatype 'v delay_event =
  AppInsert string 'v | AppRemove string | AppRefresh string | AppFinish nat
| TaskCommand nat | TaskExpire nat | TaskCancelled
| WorkerRecv | WorkerPermit | CallbackEnds nat | WorkerCancelled

text \<open>Beside the cache: the values the worker's channel took, the callbacks started, and the keys for which two calls overlapped.\<close>

record 'v delay_log =
  dl_expired :: "'v list"
  dl_called :: "'v list"
  dl_raced :: "string set"

definition delay_log_new :: "'v delay_log" where
  "delay_log_new = \<lparr>dl_expired = [], dl_called = [], dl_raced = {}\<rparr>"

fun unfinished_key :: "unfinished \<Rightarrow> string" where
  "unfinished_key (SendInsert k _) = k"
| "unfinished_key (TakeValue k) = k"

definition begin_call ::
  "unfinished \<times> ('q, 't, 'c, 'v, 'w, 's) delay_cache \<Rightarrow> 'v delay_log \<Rightarrow> ('q, 't, 'c, 'v, 'w, 's) delay_cache \<times> 'v delay_log" where
  "begin_call uc lg =
     (case uc of (u, c) \<Rightarrow>
       (c\<lparr>dc_flight := dc_flight c @ [u]\<rparr>,
        if unfinished_key u \<in> unfinished_key ` set (dc_flight c) then lg\<lparr>dl_raced := insert (unfinished_key u) (dl_raced lg)\<rparr> else lg))"

fun dc_step ::
  "('q, 't, 'c, 'v, 'w, 's) delay_env \<Rightarrow> ('v \<Rightarrow> nat option) \<Rightarrow> ('q, 't, 'c, 'v, 'w, 's) delay_cache \<times> 'v delay_log \<Rightarrow> 'v delay_event \<Rightarrow>
   (('q, 't, 'c, 'v, 'w, 's) delay_cache \<times> 'v delay_log) option" where
  "dc_step io ttl (c, lg) (AppInsert k v) = Some (begin_call (insert_begin ttl k v c) lg)"
| "dc_step io ttl (c, lg) (AppRemove k) = Some (begin_call (remove_begin io k c) lg)"
| "dc_step io ttl (c, lg) (AppRefresh k) = Some (dc_refresh io ttl k c, lg)"
| "dc_step io ttl (c, lg) (AppFinish i) =
     (if i < length (dc_flight c)
      then Some (snd (finish io (dc_flight c ! i) (c\<lparr>dc_flight := take i (dc_flight c) @ drop (Suc i) (dc_flight c)\<rparr>)), lg)
      else Some (c, lg))"
| "dc_step io ttl (c, lg) (TaskCommand now) =
     (if \<not> dc_running c then Some (c, lg)
      else case cmd_recv io (dc_cmds c) of
        None \<Rightarrow> Some (c, lg)
      | Some (cmd, cmds) \<Rightarrow> map_option (\<lambda>c'. (c', lg)) (dc_command io now cmd (c\<lparr>dc_cmds := cmds\<rparr>)))"
| "dc_step io ttl (c, lg) (TaskExpire now) =
     (if \<not> dc_running c then Some (c, lg)
      else case dc_expire io now c of
        (None, c') \<Rightarrow> Some (c', lg)
      | (Some v, c') \<Rightarrow> Some (c', lg\<lparr>dl_expired := dl_expired lg @ [v]\<rparr>))"
| "dc_step io ttl (c, lg) TaskCancelled = Some (if dc_running c then dc_stop io c else c, lg)"
| "dc_step io ttl (c, lg) WorkerRecv = Some (worker_recv io c, lg)"
| "dc_step io ttl (c, lg) WorkerPermit =
     (case worker_permit io c of
        (None, c') \<Rightarrow> Some (c', lg)
      | (Some v, c') \<Rightarrow> Some (c', lg\<lparr>dl_called := dl_called lg @ [v]\<rparr>))"
| "dc_step io ttl (c, lg) (CallbackEnds i) = Some (callback_ends io i c, lg)"
| "dc_step io ttl (c, lg) WorkerCancelled = Some (worker_stop c, lg)"

section \<open>What the libraries promise\<close>

text \<open>\<open>view\<close>: the entries of the delay queue. A time to live beyond \<open>limit\<close> is refused with a panic.\<close>

definition queue_laws :: "('q, 't, 'c, 'v, 'w, 's) delay_env \<Rightarrow> nat \<Rightarrow> ('q \<Rightarrow> 't \<rightharpoonup> string \<times> nat) \<Rightarrow> bool" where
  "queue_laws io limit view \<longleftrightarrow>
     view (dq_new io) = Map.empty \<and>
     (\<forall>now k ttl q. ttl \<le> limit \<longrightarrow>
        (\<exists>t q'. dq_insert io now k ttl q = Some (t, q') \<and> view q t = None \<and> view q' = (view q)(t \<mapsto> (k, now + ttl)))) \<and>
     (\<forall>t q. view q t \<noteq> None \<longrightarrow> (\<exists>q'. dq_remove io t q = Some q' \<and> view q' = (view q)(t := None))) \<and>
     (\<forall>now t ttl q k d. ttl \<le> limit \<longrightarrow> view q t = Some (k, d) \<longrightarrow>
        (\<exists>q'. dq_reset io now t ttl q = Some q' \<and> view q' = (view q)(t \<mapsto> (k, now + ttl)))) \<and>
     (\<forall>now q k q'. dq_next io now q = Some (k, q') \<longrightarrow> (\<exists>t d. view q t = Some (k, d) \<and> d \<le> now \<and> view q' = (view q)(t := None))) \<and>
     (\<forall>q. view (dq_clear io q) = Map.empty)"

text \<open>\<open>cmds\<close> and \<open>calls\<close>: what was sent and not yet received, in order.\<close>

definition channel_laws :: "('q, 't, 'c, 'v, 'w, 's) delay_env \<Rightarrow> ('c \<Rightarrow> delay_command list) \<Rightarrow> ('w \<Rightarrow> 'v list) \<Rightarrow> bool" where
  "channel_laws io cmds calls \<longleftrightarrow>
     cmds (cmd_channel io) = [] \<and> calls (call_channel io CALL_CHANNEL) = [] \<and>
     (\<forall>x ch. cmds (cmd_send io x ch) = cmds ch @ [x]) \<and>
     (\<forall>x ch ch'. cmd_recv io ch = Some (x, ch') \<longrightarrow> cmds ch = x # cmds ch') \<and>
     (\<forall>v ch ch'. call_try_send io v ch = Some ch' \<longrightarrow> calls ch' = calls ch @ [v]) \<and>
     (\<forall>v ch ch'. call_recv io ch = Some (v, ch') \<longrightarrow> calls ch = v # calls ch')"

text \<open>\<open>permits\<close>: how many are free. Waiting fails only on a closed semaphore, and nothing closes this one.\<close>

definition semaphore_laws :: "('q, 't, 'c, 'v, 'w, 's) delay_env \<Rightarrow> ('s \<Rightarrow> nat) \<Rightarrow> bool" where
  "semaphore_laws io permits \<longleftrightarrow>
     permits (sem_new io CALLBACKS) = CALLBACKS \<and>
     (\<forall>s r. sem_acquire io s = Some r \<longrightarrow> (\<exists>s'. r = Inr s' \<and> permits s = Suc (permits s'))) \<and>
     (\<forall>s. 0 < permits s \<longrightarrow> sem_acquire io s \<noteq> None) \<and>
     (\<forall>s. permits (sem_release io s) = Suc (permits s))"

end
