(* ===== verification/Delay_Cache_Inv.thy ===== *)
theory Delay_Cache_Inv
  imports Delay_Cache
begin

text \<open>
  The keyed cache in every interleaving of its calls, the task of the delay queue, the worker and the callbacks: the queue and the table of keys
  agree, so no queue operation panics; a value is scheduled exactly when it has a time to live, unless calls on its key overlapped; callbacks
  run in the order of expiry, at most a hundred at once. And two races the code leaves open.
\<close>

section \<open>Laws\<close>

lemma queue_lawsD:
  assumes "queue_laws io limit view"
  shows queue_new: "view (dq_new io) = Map.empty"
    and queue_insert: "ttl \<le> limit \<Longrightarrow>
      \<exists>t q'. dq_insert io now k ttl q = Some (t, q') \<and> view q t = None \<and> view q' = (view q)(t \<mapsto> (k, now + ttl))"
    and queue_remove: "view q t \<noteq> None \<Longrightarrow> \<exists>q'. dq_remove io t q = Some q' \<and> view q' = (view q)(t := None)"
    and queue_reset: "ttl \<le> limit \<Longrightarrow> view q t = Some (k, d) \<Longrightarrow>
      \<exists>q'. dq_reset io now t ttl q = Some q' \<and> view q' = (view q)(t \<mapsto> (k, now + ttl))"
    and queue_next: "dq_next io now q = Some (k, q') \<Longrightarrow> \<exists>t d. view q t = Some (k, d) \<and> d \<le> now \<and> view q' = (view q)(t := None)"
    and queue_clear: "view (dq_clear io q) = Map.empty"
  using assms unfolding queue_laws_def by blast+

lemma channel_lawsD:
  assumes "channel_laws io cmds calls"
  shows channel_new: "cmds (cmd_channel io) = []" "calls (call_channel io CALL_CHANNEL) = []"
    and channel_send: "cmds (cmd_send io x ch) = cmds ch @ [x]"
    and channel_recv: "cmd_recv io ch = Some (x, ch') \<Longrightarrow> cmds ch = x # cmds ch'"
    and channel_try_send: "call_try_send io v w = Some w' \<Longrightarrow> calls w' = calls w @ [v]"
    and channel_call_recv: "call_recv io w = Some (v, w') \<Longrightarrow> calls w = v # calls w'"
  using assms unfolding channel_laws_def by blast+

lemma semaphore_lawsD:
  assumes "semaphore_laws io permits"
  shows semaphore_new: "permits (sem_new io CALLBACKS) = CALLBACKS"
    and semaphore_acquire: "sem_acquire io s = Some r \<Longrightarrow> \<exists>s'. r = Inr s' \<and> permits s = Suc (permits s')"
    and semaphore_free: "0 < permits s \<Longrightarrow> sem_acquire io s \<noteq> None"
    and semaphore_release: "permits (sem_release io s) = Suc (permits s)"
  using assms unfolding semaphore_laws_def by blast+

section \<open>The schedule\<close>

text \<open>The table of keys and the entries of the queue are inverse to each other.\<close>

definition sched_ok :: "('t \<rightharpoonup> string \<times> nat) \<Rightarrow> (string \<rightharpoonup> 't) \<Rightarrow> bool" where
  "sched_ok entries keys \<longleftrightarrow> (\<forall>k t. keys k = Some t \<longleftrightarrow> (\<exists>d. entries t = Some (k, d)))"

lemma sched_okD:
  assumes "sched_ok entries keys"
  shows "keys k = Some t \<Longrightarrow> \<exists>d. entries t = Some (k, d)" and "entries t = Some (k, d) \<Longrightarrow> keys k = Some t"
  using assms unfolding sched_ok_def by blast+

lemma sched_ok_empty: "sched_ok Map.empty Map.empty"
  by (simp add: sched_ok_def)

lemma sched_ok_drop:
  assumes "sched_ok entries keys" "entries t = Some (k, d)"
  shows "sched_ok (entries(t := None)) (keys(k := None))"
proof -
  have k: "keys k = Some t" using sched_okD(2) [OF assms] .
  have "(keys(k := None)) k' = Some t' \<longleftrightarrow> (\<exists>d. (entries(t := None)) t' = Some (k', d))" for k' t'
    using assms sched_okD(2) [OF assms(1), of t' k'] k sched_okD(1) [OF assms(1), of k' t'] by (cases "k' = k"; cases "t' = t") auto
  then show ?thesis by (simp add: sched_ok_def)
qed

lemma sched_ok_move:
  assumes "sched_ok entries keys" "entries t = Some (k, d)"
  shows "sched_ok (entries(t \<mapsto> (k, d'))) keys"
proof -
  have "keys k' = Some t' \<longleftrightarrow> (\<exists>d. (entries(t \<mapsto> (k, d'))) t' = Some (k', d))" for k' t'
    using assms sched_okD(2) [OF assms(1), of t' k'] sched_okD(1) [OF assms(1), of k' t'] by (cases "t' = t") auto
  then show ?thesis by (simp add: sched_ok_def)
qed

lemma sched_ok_add:
  assumes "sched_ok entries keys" "entries t = None" "keys k = None"
  shows "sched_ok (entries(t \<mapsto> (k, d))) (keys(k \<mapsto> t))"
proof -
  have "(keys(k \<mapsto> t)) k' = Some t' \<longleftrightarrow> (\<exists>d'. (entries(t \<mapsto> (k, d))) t' = Some (k', d'))" for k' t'
    using assms(2,3) sched_okD(2) [OF assms(1), of t' k'] sched_okD(1) [OF assms(1), of k' t'] by (cases "k' = k"; cases "t' = t") auto
  then show ?thesis by (simp add: sched_ok_def)
qed

text \<open>Whether a key is scheduled once the given commands have been handled.\<close>

fun sched_key :: "string \<Rightarrow> delay_command \<Rightarrow> bool \<Rightarrow> bool" where
  "sched_key k (CmdInsert k' ttl) b = (if k' = k then ttl \<noteq> None else b)"
| "sched_key k (CmdRemove k') b = (k' \<noteq> k \<and> b)"
| "sched_key k (CmdRefresh k' ttl) b = b"

definition sched_after :: "string \<Rightarrow> delay_command list \<Rightarrow> bool \<Rightarrow> bool" where
  "sched_after k cmds b = fold (sched_key k) cmds b"

lemma sched_after_simps [simp]:
  "sched_after k [] b = b"
  "sched_after k (cmd # cmds) b = sched_after k cmds (sched_key k cmd b)"
  "sched_after k (xs @ ys) b = sched_after k ys (sched_after k xs b)"
  by (simp_all add: sched_after_def)

text \<open>The times to live the queue accepts.\<close>

fun cmd_bounded :: "nat \<Rightarrow> delay_command \<Rightarrow> bool" where
  "cmd_bounded limit (CmdInsert k ttl) = (case ttl of None \<Rightarrow> True | Some d \<Rightarrow> d \<le> limit)"
| "cmd_bounded limit (CmdRemove k) = True"
| "cmd_bounded limit (CmdRefresh k d) = (d \<le> limit)"

lemma unschedule_ok:
  assumes "queue_laws io limit view" "sched_ok (view (dc_queue c)) (dc_keys c)"
  shows "\<exists>q. unschedule io k c = Some (c\<lparr>dc_queue := q, dc_keys := (dc_keys c)(k := None)\<rparr>) \<and> sched_ok (view q) ((dc_keys c)(k := None))"
proof (cases "dc_keys c k")
  case None
  then have "(dc_keys c)(k := None) = dc_keys c" by (simp add: fun_upd_idem_iff)
  with None assms(2) show ?thesis by (intro exI [of _ "dc_queue c"]) (simp add: unschedule_def)
next
  case (Some t)
  then obtain d where d: "view (dc_queue c) t = Some (k, d)" using sched_okD(1) [OF assms(2)] by blast
  with queue_remove [OF assms(1), of "dc_queue c" t] obtain q where
    "dq_remove io t (dc_queue c) = Some q" "view q = (view (dc_queue c))(t := None)" by auto
  with Some sched_ok_drop [OF assms(2) d] show ?thesis by (intro exI [of _ q]) (simp add: unschedule_def)
qed

lemma reschedule_ok:
  assumes "queue_laws io limit view" "sched_ok (view (dc_queue c)) (dc_keys c)" "dc_keys c k = Some t" "ttl \<le> limit"
  shows "\<exists>q. reschedule io now t ttl c = Some (c\<lparr>dc_queue := q\<rparr>) \<and> sched_ok (view q) (dc_keys c)"
proof -
  obtain d where d: "view (dc_queue c) t = Some (k, d)" using sched_okD(1) [OF assms(2,3)] by blast
  with queue_reset [OF assms(1,4) d, of now] sched_ok_move [OF assms(2) d] show ?thesis by (auto simp: reschedule_def)
qed

lemma dc_command_ok:
  assumes "queue_laws io limit view" "sched_ok (view (dc_queue c)) (dc_keys c)" "cmd_bounded limit cmd"
  shows "\<exists>q keys. dc_command io now cmd c = Some (c\<lparr>dc_queue := q, dc_keys := keys\<rparr>) \<and> sched_ok (view q) keys \<and>
    (\<forall>k. keys k \<noteq> None \<longleftrightarrow> sched_key k cmd (dc_keys c k \<noteq> None))"
proof -
  note un = unschedule_ok [OF assms(1,2)] and re = reschedule_ok [OF assms(1,2)]
  consider k where "cmd = CmdInsert k None \<or> cmd = CmdRemove k" | k ttl where "cmd = CmdInsert k (Some ttl)" | k ttl where "cmd = CmdRefresh k ttl"
    by (cases cmd) (auto intro: option.exhaust)
  then show ?thesis
  proof cases
    case (1 k)
    from un [of k] obtain q where q: "unschedule io k c = Some (c\<lparr>dc_queue := q, dc_keys := (dc_keys c)(k := None)\<rparr>)"
      "sched_ok (view q) ((dc_keys c)(k := None))" by blast
    with 1 show ?thesis by (intro exI [of _ q] exI [of _ "(dc_keys c)(k := None)"]) auto
  next
    case (2 k ttl)
    show ?thesis
    proof (cases "dc_keys c k")
      case None
      obtain t q where q: "dq_insert io now k ttl (dc_queue c) = Some (t, q)" "view (dc_queue c) t = None"
        "view q = (view (dc_queue c))(t \<mapsto> (k, now + ttl))" using queue_insert [OF assms(1)] assms(3) 2 by fastforce
      with sched_ok_add [OF assms(2) q(2) None] have "sched_ok (view q) ((dc_keys c)(k \<mapsto> t))" by simp
      with None 2 q(1) show ?thesis by (intro exI [of _ q] exI [of _ "(dc_keys c)(k \<mapsto> t)"]) simp
    next
      case (Some t)
      with re [OF Some, of ttl now] assms(3) 2 obtain q where "reschedule io now t ttl c = Some (c\<lparr>dc_queue := q\<rparr>)" "sched_ok (view q) (dc_keys c)" by auto
      with Some 2 show ?thesis by (intro exI [of _ q] exI [of _ "dc_keys c"]) auto
    qed
  next
    case (3 k ttl)
    show ?thesis
    proof (cases "dc_keys c k")
      case None
      with 3 assms(2) show ?thesis by (intro exI [of _ "dc_queue c"] exI [of _ "dc_keys c"]) simp
    next
      case (Some t)
      with re [OF Some, of ttl now] assms(3) 3 obtain q where "reschedule io now t ttl c = Some (c\<lparr>dc_queue := q\<rparr>)" "sched_ok (view q) (dc_keys c)" by auto
      with Some 3 show ?thesis by (intro exI [of _ q] exI [of _ "dc_keys c"]) auto
    qed
  qed
qed

section \<open>The invariant\<close>

text \<open>Every time to live on its way to the queue is within its limit.\<close>

definition sched_inv where
  "sched_inv limit view cmds c \<longleftrightarrow>
     sched_ok (view (dc_queue c)) (dc_keys c) \<and> list_all (cmd_bounded limit) (cmds (dc_cmds c)) \<and>
     (\<forall>k d. SendInsert k (Some d) \<in> set (dc_flight c) \<longrightarrow> d \<le> limit)"

text \<open>A key without overlapping calls: at rest its value is scheduled, once the pending commands are handled, exactly when it has a time to live.\<close>

definition key_ok where
  "key_ok ttl cmds c k \<longleftrightarrow>
     (case filter (\<lambda>u. unfinished_key u = k) (dc_flight c) of
        [] \<Rightarrow> dc_running c \<longrightarrow>
          (\<forall>v. dc_map c k = Some v \<longrightarrow> (sched_after k (cmds (dc_cmds c)) (dc_keys c k \<noteq> None) \<longleftrightarrow> ttl v \<noteq> None))
      | [SendInsert _ due] \<Rightarrow> (\<forall>v. dc_map c k = Some v \<longrightarrow> due = ttl v)
      | [TakeValue _] \<Rightarrow> True
      | _ \<Rightarrow> False)"

definition worker_inv where
  "worker_inv calls permits c lg \<longleftrightarrow>
     dl_expired lg = dl_called lg @ (case dc_holding c of None \<Rightarrow> [] | Some v \<Rightarrow> [v]) @ calls (dc_calls c) \<and>
     permits (dc_semaphore c) + length (dc_active c) = CALLBACKS"

definition delay_inv where
  "delay_inv limit view cmds calls permits ttl cl \<longleftrightarrow>
     (case cl of (c, lg) \<Rightarrow>
        sched_inv limit view cmds c \<and> (\<forall>k. k \<notin> dl_raced lg \<longrightarrow> key_ok ttl cmds c k) \<and> worker_inv calls permits c lg)"

text \<open>The parts of the state each group of conditions reads.\<close>

lemma sched_inv_cong:
  "dc_queue c' = dc_queue c \<Longrightarrow> dc_keys c' = dc_keys c \<Longrightarrow> dc_cmds c' = dc_cmds c \<Longrightarrow> dc_flight c' = dc_flight c \<Longrightarrow>
     sched_inv limit view cmds c' = sched_inv limit view cmds c"
  by (simp add: sched_inv_def)

lemma key_ok_cong:
  "filter (\<lambda>u. unfinished_key u = k) (dc_flight c') = filter (\<lambda>u. unfinished_key u = k) (dc_flight c) \<Longrightarrow> dc_running c' = dc_running c \<Longrightarrow>
   dc_map c' k = dc_map c k \<Longrightarrow>
   sched_after k (cmds (dc_cmds c')) (dc_keys c' k \<noteq> None) = sched_after k (cmds (dc_cmds c)) (dc_keys c k \<noteq> None) \<Longrightarrow>
     key_ok ttl cmds c' k = key_ok ttl cmds c k"
  by (simp only: key_ok_def)

lemma key_ok_absent: "key_ok ttl cmds c k \<Longrightarrow> dc_flight c' = dc_flight c \<Longrightarrow> dc_map c' k = None \<Longrightarrow> key_ok ttl cmds c' k"
  by (auto simp: key_ok_def split: list.splits unfinished.splits)

lemma worker_inv_cong:
  "dc_holding c' = dc_holding c \<Longrightarrow> dc_calls c' = dc_calls c \<Longrightarrow> dc_semaphore c' = dc_semaphore c \<Longrightarrow> dc_active c' = dc_active c \<Longrightarrow>
   dl_expired lg' = dl_expired lg \<Longrightarrow> dl_called lg' = dl_called lg \<Longrightarrow>
     worker_inv calls permits c' lg' = worker_inv calls permits c lg"
  by (simp add: worker_inv_def)

lemma dc_send_fields [simp]:
  "dc_map (dc_send io cmd c) = dc_map c" "dc_queue (dc_send io cmd c) = dc_queue c" "dc_keys (dc_send io cmd c) = dc_keys c"
  "dc_running (dc_send io cmd c) = dc_running c" "dc_flight (dc_send io cmd c) = dc_flight c" "dc_holding (dc_send io cmd c) = dc_holding c"
  "dc_calls (dc_send io cmd c) = dc_calls c" "dc_semaphore (dc_send io cmd c) = dc_semaphore c" "dc_active (dc_send io cmd c) = dc_active c"
  by (simp_all add: dc_send_def)

lemma dc_send_cmds:
  "channel_laws io cmds calls \<Longrightarrow> cmds (dc_cmds (dc_send io cmd c)) = cmds (dc_cmds c) @ (if dc_running c then [cmd] else [])"
  by (simp add: dc_send_def channel_send)

lemma sched_inv_send:
  assumes "channel_laws io cmds calls" "sched_inv limit view cmds c" "cmd_bounded limit cmd"
  shows "sched_inv limit view cmds (dc_send io cmd c)"
  using assms by (simp add: sched_inv_def dc_send_cmds)

lemma key_ok_send:
  assumes "channel_laws io cmds calls" "key_ok ttl cmds c k" "\<And>b. sched_key k cmd b = b"
  shows "key_ok ttl cmds (dc_send io cmd c) k"
  using assms(2) by (subst key_ok_cong [of k _ c]) (simp_all add: dc_send_cmds [OF assms(1)] assms(3))

section \<open>Steps of the callers\<close>

lemma begin_call_inv:
  assumes "sched_inv limit view cmds c" "worker_inv calls permits c lg" "\<forall>k d. u = SendInsert k (Some d) \<longrightarrow> d \<le> limit"
    and key: "\<And>k. k \<notin> dl_raced lg \<Longrightarrow> unfinished_key u \<noteq> k \<Longrightarrow> key_ok ttl cmds c k"
    and mine: "\<And>k due v. u = SendInsert k due \<Longrightarrow> dc_map c k = Some v \<Longrightarrow> due = ttl v"
  shows "delay_inv limit view cmds calls permits ttl (begin_call (u, c) lg)"
proof -
  obtain c' lg' where b: "begin_call (u, c) lg = (c', lg')" by fastforce
  then have c': "c' = c\<lparr>dc_flight := dc_flight c @ [u]\<rparr>"
    and lg': "dl_expired lg' = dl_expired lg" "dl_called lg' = dl_called lg"
      "dl_raced lg' = (if unfinished_key u \<in> unfinished_key ` set (dc_flight c) then insert (unfinished_key u) (dl_raced lg) else dl_raced lg)"
    by (auto simp: begin_call_def)
  have "sched_inv limit view cmds c'" using assms(1,3) unfolding c' sched_inv_def by auto
  moreover have "worker_inv calls permits c' lg'" using assms(2) c' lg' by (subst worker_inv_cong [of _ c _ lg]) auto
  moreover have "key_ok ttl cmds c' k" if "k \<notin> dl_raced lg'" for k
  proof (cases "unfinished_key u = k")
    case True
    with that lg'(3) have "k \<notin> unfinished_key ` set (dc_flight c)" by (auto split: if_splits)
    then have "\<forall>x\<in>set (dc_flight c). unfinished_key x \<noteq> k" by (metis imageI)
    then have "filter (\<lambda>x. unfinished_key x = k) (dc_flight c') = [u]" using True c' by (simp add: filter_empty_conv)
    with True mine show ?thesis by (cases u) (simp_all add: key_ok_def c')
  next
    case False
    have "key_ok ttl cmds c' k = key_ok ttl cmds c k" by (rule key_ok_cong) (simp_all add: c' False)
    with key [OF _ False] that lg'(3) show ?thesis by (auto split: if_splits)
  qed
  ultimately show ?thesis by (simp add: b delay_inv_def)
qed

lemma app_insert_inv:
  assumes "delay_inv limit view cmds calls permits ttl (c, lg)" "\<forall>v d. ttl v = Some d \<longrightarrow> d \<le> limit"
  shows "delay_inv limit view cmds calls permits ttl (begin_call (insert_begin ttl k v c) lg)"
proof -
  let ?c = "c\<lparr>dc_map := (dc_map c)(k \<mapsto> v)\<rparr>"
  have "key_ok ttl cmds ?c k'" if "k' \<notin> dl_raced lg" "k \<noteq> k'" for k'
    using assms(1) that by (subst key_ok_cong [of k' _ c]) (auto simp: delay_inv_def)
  moreover have "sched_inv limit view cmds ?c" "worker_inv calls permits ?c lg"
    using assms(1) sched_inv_cong [of ?c c limit view cmds] worker_inv_cong [of ?c c lg lg calls permits] by (simp_all add: delay_inv_def)
  ultimately show ?thesis unfolding insert_begin_def using assms(2) by (intro begin_call_inv) auto
qed

lemma app_remove_inv:
  assumes "delay_inv limit view cmds calls permits ttl (c, lg)" "channel_laws io cmds calls"
  shows "delay_inv limit view cmds calls permits ttl (begin_call (remove_begin io k c) lg)"
proof -
  let ?c = "dc_send io (CmdRemove k) c"
  have "key_ok ttl cmds ?c k'" if "k' \<notin> dl_raced lg" "k \<noteq> k'" for k'
    using assms that by (intro key_ok_send [OF assms(2)]) (auto simp: delay_inv_def)
  moreover have "sched_inv limit view cmds ?c" "worker_inv calls permits ?c lg"
    using assms sched_inv_send [OF assms(2), of limit view c] worker_inv_cong [of ?c c lg lg calls permits] by (simp_all add: delay_inv_def)
  ultimately show ?thesis unfolding remove_begin_def by (intro begin_call_inv) auto
qed

lemma app_refresh_inv:
  assumes "delay_inv limit view cmds calls permits ttl (c, lg)" "channel_laws io cmds calls" "\<forall>v d. ttl v = Some d \<longrightarrow> d \<le> limit"
  shows "delay_inv limit view cmds calls permits ttl (dc_refresh io ttl k c, lg)"
proof -
  consider "dc_refresh io ttl k c = c" | d where "dc_refresh io ttl k c = dc_send io (CmdRefresh k d) c" "d \<le> limit"
    using assms(3) by (cases "dc_map c k"; cases "ttl (the (dc_map c k))") (auto simp: dc_refresh_def)
  then show ?thesis
  proof cases
    case (2 d)
    let ?c = "dc_send io (CmdRefresh k d) c"
    have "key_ok ttl cmds ?c k'" if "k' \<notin> dl_raced lg" for k'
      using assms(1) that by (intro key_ok_send [OF assms(2)]) (auto simp: delay_inv_def)
    moreover have "sched_inv limit view cmds ?c" "worker_inv calls permits ?c lg"
      using assms(1) 2 sched_inv_send [OF assms(2), of limit view c] worker_inv_cong [of ?c c lg lg calls permits] by (simp_all add: delay_inv_def)
    ultimately show ?thesis using 2(1) by (simp add: delay_inv_def)
  qed (use assms in simp)
qed

lemma filter_drop_nth:
  assumes "i < length xs"
  shows "\<not> P (xs ! i) \<Longrightarrow> filter P (take i xs @ drop (Suc i) xs) = filter P xs"
    and "P (xs ! i) \<Longrightarrow> filter P xs = [x] \<Longrightarrow> x = xs ! i \<and> filter P (take i xs @ drop (Suc i) xs) = []"
proof -
  have xs: "filter P xs = filter P (take i xs) @ filter P [xs ! i] @ filter P (drop (Suc i) xs)"
    by (metis append_Cons append_Nil assms filter_append id_take_nth_drop)
  show "\<not> P (xs ! i) \<Longrightarrow> filter P (take i xs @ drop (Suc i) xs) = filter P xs" by (simp add: xs)
  show "P (xs ! i) \<Longrightarrow> filter P xs = [x] \<Longrightarrow> x = xs ! i \<and> filter P (take i xs @ drop (Suc i) xs) = []"
    unfolding xs by (auto simp: append_eq_Cons_conv)
qed

lemma key_ok_single: "key_ok ttl cmds c k \<Longrightarrow> filter (\<lambda>u. unfinished_key u = k) (dc_flight c) \<noteq> [] \<Longrightarrow>
    \<exists>u. filter (\<lambda>u. unfinished_key u = k) (dc_flight c) = [u]"
  by (auto simp: key_ok_def split: list.splits unfinished.splits)

lemma sched_inv_shorter:
  "sched_inv limit view cmds c \<Longrightarrow> set fs \<subseteq> set (dc_flight c) \<Longrightarrow> sched_inv limit view cmds (c\<lparr>dc_flight := fs\<rparr>)"
  by (auto simp: sched_inv_def)

lemma app_finish_inv:
  assumes "delay_inv limit view cmds calls permits ttl (c, lg)" "channel_laws io cmds calls" "i < length (dc_flight c)"
  shows "delay_inv limit view cmds calls permits ttl
    (snd (finish io (dc_flight c ! i) (c\<lparr>dc_flight := take i (dc_flight c) @ drop (Suc i) (dc_flight c)\<rparr>)), lg)"
proof -
  let ?u = "dc_flight c ! i" and ?c = "c\<lparr>dc_flight := take i (dc_flight c) @ drop (Suc i) (dc_flight c)\<rparr>"
  let ?r = "snd (finish io ?u ?c)"
  note inv = assms(1) [unfolded delay_inv_def, simplified]
  have fields: "dc_holding ?r = dc_holding c \<and> dc_calls ?r = dc_calls c \<and> dc_semaphore ?r = dc_semaphore c \<and> dc_active ?r = dc_active c \<and>
      dc_running ?r = dc_running c \<and> dc_keys ?r = dc_keys c \<and> dc_flight ?r = dc_flight ?c"
    by (cases ?u) simp_all
  have "set (dc_flight ?c) \<subseteq> set (dc_flight c)" using set_take_subset [of i] set_drop_subset [of "Suc i"] by fastforce
  then have "sched_inv limit view cmds ?c" using inv by (intro sched_inv_shorter) simp_all
  moreover have "\<forall>k d. ?u = SendInsert k (Some d) \<longrightarrow> d \<le> limit" using inv nth_mem [OF assms(3)] by (metis sched_inv_def)
  ultimately have "sched_inv limit view cmds ?r"
    using sched_inv_send [OF assms(2), of limit view ?c] sched_inv_cong [of ?r ?c limit view cmds]
    by (cases ?u) (auto split: option.splits)
  moreover have "worker_inv calls permits ?r lg" using inv fields worker_inv_cong [of ?r c lg lg calls permits] by simp
  moreover have "key_ok ttl cmds ?r k" if "k \<notin> dl_raced lg" for k
  proof (cases "unfinished_key ?u = k")
    case True
    then have "filter (\<lambda>u. unfinished_key u = k) (dc_flight c) \<noteq> []" using nth_mem [OF assms(3)] by (auto simp: filter_empty_conv)
    with inv that key_ok_single obtain u where u: "filter (\<lambda>u. unfinished_key u = k) (dc_flight c) = [u]" by blast
    from filter_drop_nth(2) [where P = "\<lambda>u. unfinished_key u = k", OF assms(3) True u]
    have f: "u = ?u" "filter (\<lambda>u. unfinished_key u = k) (dc_flight ?r) = []" using fields by simp_all
    have "key_ok ttl cmds c k" using inv that by blast
    with u f fields True show ?thesis by (cases ?u) (auto simp: key_ok_def dc_send_cmds [OF assms(2)])
  next
    case False
    have "key_ok ttl cmds ?r k = key_ok ttl cmds c k"
    proof (rule key_ok_cong)
      show "filter (\<lambda>u. unfinished_key u = k) (dc_flight ?r) = filter (\<lambda>u. unfinished_key u = k) (dc_flight c)"
        using fields filter_drop_nth(1) [where P = "\<lambda>u. unfinished_key u = k", OF assms(3) False] by simp
    qed (use fields False in \<open>cases ?u; simp add: dc_send_cmds [OF assms(2)]\<close>)+
    with inv that show ?thesis by blast
  qed
  ultimately show ?thesis by (simp add: delay_inv_def)
qed

section \<open>Steps of the tasks\<close>

lemma task_command_inv:
  assumes "delay_inv limit view cmds calls permits ttl (c, lg)" "queue_laws io limit view" "channel_laws io cmds calls"
    and "dc_running c" "cmd_recv io (dc_cmds c) = Some (cmd, ch)"
  shows "\<exists>c'. dc_command io now cmd (c\<lparr>dc_cmds := ch\<rparr>) = Some c' \<and> delay_inv limit view cmds calls permits ttl (c', lg)"
proof -
  note inv = assms(1) [unfolded delay_inv_def, simplified]
  have l: "cmds (dc_cmds c) = cmd # cmds ch" using channel_recv [OF assms(3,5)] .
  have s: "sched_ok (view (dc_queue (c\<lparr>dc_cmds := ch\<rparr>))) (dc_keys (c\<lparr>dc_cmds := ch\<rparr>))" "cmd_bounded limit cmd" "list_all (cmd_bounded limit) (cmds ch)"
    using inv l by (auto simp: sched_inv_def)
  from dc_command_ok [OF assms(2) s(1,2), of now] obtain q keys where
    c': "dc_command io now cmd (c\<lparr>dc_cmds := ch\<rparr>) = Some (c\<lparr>dc_cmds := ch, dc_queue := q, dc_keys := keys\<rparr>)" "sched_ok (view q) keys"
    and keys: "\<And>k. keys k \<noteq> None \<longleftrightarrow> sched_key k cmd (dc_keys c k \<noteq> None)" by auto
  let ?c = "c\<lparr>dc_cmds := ch, dc_queue := q, dc_keys := keys\<rparr>"
  have "sched_inv limit view cmds ?c" using inv s(3) c'(2) by (simp add: sched_inv_def)
  moreover have "worker_inv calls permits ?c lg" using inv worker_inv_cong [of ?c c lg lg calls permits] by simp
  moreover have "key_ok ttl cmds ?c k = key_ok ttl cmds c k" for k
  proof (rule key_ok_cong)
    have "sched_after k (cmds (dc_cmds ?c)) (dc_keys ?c k \<noteq> None) = sched_after k (cmds ch) (keys k \<noteq> None)" by simp
    also have "\<dots> = sched_after k (cmds (dc_cmds c)) (dc_keys c k \<noteq> None)" unfolding keys l sched_after_simps by (rule refl)
    finally show "sched_after k (cmds (dc_cmds ?c)) (dc_keys ?c k \<noteq> None) = sched_after k (cmds (dc_cmds c)) (dc_keys c k \<noteq> None)" .
  qed simp_all
  ultimately show ?thesis using c'(1) inv by (auto simp: delay_inv_def)
qed

text \<open>What an expiry does: either nothing has expired, or one entry whose deadline has come leaves the queue, the table and the map together, its value goes to
  the worker or is dropped, and no other key is touched.\<close>

lemma dc_expire_cases:
  assumes "queue_laws io limit view" "channel_laws io cmds calls" "sched_ok (view (dc_queue c)) (dc_keys c)"
  obtains (idle) "dq_next io now (dc_queue c) = None" "dc_expire io now c = (None, c)"
  | (expired) k d q w r where "dq_next io now (dc_queue c) = Some (k, q)" "view (dc_queue c) (the (dc_keys c k)) = Some (k, d)" "d \<le> now"
      "dc_expire io now c = (r, c\<lparr>dc_queue := q, dc_keys := (dc_keys c)(k := None), dc_map := (dc_map c)(k := None), dc_calls := w\<rparr>)"
      "sched_ok (view q) ((dc_keys c)(k := None))" "calls w = calls (dc_calls c) @ (case r of None \<Rightarrow> [] | Some v \<Rightarrow> [v])"
      "r = None \<or> r = dc_map c k"
proof (cases "dq_next io now (dc_queue c)")
  case None
  then show ?thesis by (intro idle) (simp_all add: dc_expire_def)
next
  case (Some kq)
  obtain k q where kq: "kq = (k, q)" by fastforce
  with queue_next [OF assms(1)] Some obtain t d where td: "view (dc_queue c) t = Some (k, d)" "d \<le> now" "view q = (view (dc_queue c))(t := None)" by blast
  have t: "dc_keys c k = Some t" using sched_okD(2) [OF assms(3) td(1)] .
  let ?c = "c\<lparr>dc_queue := q, dc_keys := (dc_keys c)(k := None), dc_map := (dc_map c)(k := None)\<rparr>"
  have "\<exists>w r. dc_expire io now c = (r, ?c\<lparr>dc_calls := w\<rparr>) \<and> calls w = calls (dc_calls c) @ (case r of None \<Rightarrow> [] | Some v \<Rightarrow> [v]) \<and> (r = None \<or> r = dc_map c k)"
  proof (cases "dc_map c k")
    case None
    then have "(dc_map c)(k := None) = dc_map c" by (simp add: fun_upd_idem_iff)
    with Some kq None show ?thesis by (intro exI [of _ "dc_calls c"] exI [of _ None]) (simp add: dc_expire_def)
  next
    case v: (Some v)
    then have e: "dc_expire io now c = hand_over io v ?c" using Some kq by (simp add: dc_expire_def)
    show ?thesis
    proof (cases "dc_worker c \<and> call_try_send io v (dc_calls c) \<noteq> None")
      case True
      then obtain w where "call_try_send io v (dc_calls c) = Some w" by blast
      with True v channel_try_send [OF assms(2) this] show ?thesis unfolding e by (intro exI [of _ w] exI [of _ "Some v"]) (simp add: hand_over_def)
    next
      case False
      then show ?thesis unfolding e by (intro exI [of _ "dc_calls c"] exI [of _ None]) (auto simp: hand_over_def)
    qed
  qed
  then obtain w r where e: "dc_expire io now c = (r, ?c\<lparr>dc_calls := w\<rparr>)" "calls w = calls (dc_calls c) @ (case r of None \<Rightarrow> [] | Some v \<Rightarrow> [v])"
    "r = None \<or> r = dc_map c k" by blast
  have "dq_next io now (dc_queue c) = Some (k, q)" "view (dc_queue c) (the (dc_keys c k)) = Some (k, d)"
    "sched_ok (view q) ((dc_keys c)(k := None))" using Some kq td t sched_ok_drop [OF assms(3) td(1)] by simp_all
  from expired [OF this(1,2) td(2) e(1) this(3) e(2,3)] show ?thesis .
qed

lemma dc_expire_inv:
  assumes "delay_inv limit view cmds calls permits ttl (c, lg)" "queue_laws io limit view" "channel_laws io cmds calls"
    and "dc_expire io now c = (r, c')"
  shows "delay_inv limit view cmds calls permits ttl (c', case r of None \<Rightarrow> lg | Some v \<Rightarrow> lg\<lparr>dl_expired := dl_expired lg @ [v]\<rparr>)"
proof -
  note inv = assms(1) [unfolded delay_inv_def, simplified]
  then have "sched_ok (view (dc_queue c)) (dc_keys c)" by (simp add: sched_inv_def)
  from assms(2,3) this show ?thesis
  proof (cases rule: dc_expire_cases [of io limit view cmds calls c now])
    case (expired k d q w r')
    with assms(4) have c': "r' = r" "c' = c\<lparr>dc_queue := q, dc_keys := (dc_keys c)(k := None), dc_map := (dc_map c)(k := None), dc_calls := w\<rparr>" by simp_all
    have "key_ok ttl cmds c' k'" if "k' \<notin> dl_raced lg" for k'
    proof (cases "k' = k")
      case True
      have "key_ok ttl cmds c k'" using inv that by blast
      then show ?thesis by (rule key_ok_absent) (simp_all add: c' True)
    next
      case False
      have "key_ok ttl cmds c' k' = key_ok ttl cmds c k'" by (rule key_ok_cong) (simp_all add: c' False)
      with inv that show ?thesis by blast
    qed
    moreover have "sched_inv limit view cmds c'" using inv expired(5) by (simp add: c' sched_inv_def)
    ultimately show ?thesis using inv expired(6) by (cases r) (simp_all add: c' delay_inv_def worker_inv_def)
  qed (use assms in simp)
qed

lemma dc_stop_inv:
  assumes "delay_inv limit view cmds calls permits ttl (c, lg)" "queue_laws io limit view"
  shows "delay_inv limit view cmds calls permits ttl (dc_stop io c, lg)"
proof -
  note inv = assms(1) [unfolded delay_inv_def, simplified]
  have "key_ok ttl cmds (dc_stop io c) k" if "k \<notin> dl_raced lg" for k
    using inv that by (intro key_ok_absent [of ttl cmds c k "dc_stop io c"]) (simp_all add: dc_stop_def)
  moreover have "worker_inv calls permits (dc_stop io c) lg"
    using inv worker_inv_cong [of "dc_stop io c" c lg lg calls permits] by (simp add: dc_stop_def)
  moreover have "sched_inv limit view cmds (dc_stop io c)"
    using inv queue_clear [OF assms(2)] sched_ok_empty by (simp add: sched_inv_def dc_stop_def)
  ultimately show ?thesis by (simp add: delay_inv_def)
qed

text \<open>The worker and the callbacks leave the map, the queue and the commands alone.\<close>

lemma worker_step_inv:
  assumes "delay_inv limit view cmds calls permits ttl (c, lg)" "worker_inv calls permits c' lg'"
    and "\<exists>w h s a r. c' = c\<lparr>dc_calls := w, dc_holding := h, dc_semaphore := s, dc_active := a, dc_worker := r\<rparr>" "dl_raced lg' = dl_raced lg"
  shows "delay_inv limit view cmds calls permits ttl (c', lg')"
proof -
  obtain w h s a r where c': "c' = c\<lparr>dc_calls := w, dc_holding := h, dc_semaphore := s, dc_active := a, dc_worker := r\<rparr>" using assms(3) by blast
  have "key_ok ttl cmds c' k = key_ok ttl cmds c k" for k by (rule key_ok_cong) (simp_all add: c')
  moreover have "sched_inv limit view cmds c' = sched_inv limit view cmds c" by (rule sched_inv_cong) (simp_all add: c')
  ultimately show ?thesis using assms(1,2,4) by (simp add: delay_inv_def)
qed

lemma worker_recv_inv:
  assumes "worker_inv calls permits c lg" "channel_laws io cmds calls"
  shows "worker_inv calls permits (worker_recv io c) lg"
  using assms(1) channel_call_recv [OF assms(2)] by (auto simp: worker_recv_def worker_inv_def split: option.split)

lemma worker_permit_inv:
  assumes "worker_inv calls permits c lg" "semaphore_laws io permits" "worker_permit io c = (r, c')"
  shows "worker_inv calls permits c' (case r of None \<Rightarrow> lg | Some v \<Rightarrow> lg\<lparr>dl_called := dl_called lg @ [v]\<rparr>)"
proof (cases "dc_holding c = None \<or> sem_acquire io (dc_semaphore c) = None")
  case True
  then have "r = None \<and> c' = c" using assms(3) by (auto simp: worker_permit_def split: option.splits)
  with assms(1) show ?thesis by simp
next
  case False
  then obtain v x where v: "dc_holding c = Some v" and x: "sem_acquire io (dc_semaphore c) = Some x" by auto
  with semaphore_acquire [OF assms(2) x] obtain s where "x = Inr s" "permits (dc_semaphore c) = Suc (permits s)" by blast
  moreover from this v x assms(3) have "r = Some v" "c' = c\<lparr>dc_semaphore := s, dc_holding := None, dc_active := dc_active c @ [v]\<rparr>"
    by (simp_all add: worker_permit_def)
  ultimately show ?thesis using v assms(1) by (simp add: worker_inv_def)
qed

lemma callback_ends_inv:
  assumes "worker_inv calls permits c lg" "semaphore_laws io permits"
  shows "worker_inv calls permits (callback_ends io i c) lg"
  using assms(1) by (auto simp: callback_ends_def worker_inv_def semaphore_release [OF assms(2)])

lemma worker_fields:
  "\<exists>w h s a r. worker_recv io c = c\<lparr>dc_calls := w, dc_holding := h, dc_semaphore := s, dc_active := a, dc_worker := r\<rparr>"
  "\<exists>w h s a r. snd (worker_permit io c) = c\<lparr>dc_calls := w, dc_holding := h, dc_semaphore := s, dc_active := a, dc_worker := r\<rparr>"
  "\<exists>w h s a r. callback_ends io i c = c\<lparr>dc_calls := w, dc_holding := h, dc_semaphore := s, dc_active := a, dc_worker := r\<rparr>"
  "\<exists>w h s a r. worker_stop c = c\<lparr>dc_calls := w, dc_holding := h, dc_semaphore := s, dc_active := a, dc_worker := r\<rparr>"
  by ((cases c, force simp: worker_recv_def worker_permit_def callback_ends_def worker_stop_def split: option.splits sum.splits)+)

lemma dc_step_inv:
  assumes "queue_laws io limit view" "channel_laws io cmds calls" "semaphore_laws io permits" "\<forall>v d. ttl v = Some d \<longrightarrow> d \<le> limit"
    and "delay_inv limit view cmds calls permits ttl (c, lg)"
  shows "\<exists>cl. dc_step io ttl (c, lg) ev = Some cl \<and> delay_inv limit view cmds calls permits ttl cl"
proof -
  have w: "worker_inv calls permits c lg" using assms(5) by (simp add: delay_inv_def)
  show ?thesis
  proof (cases ev)
    case (TaskCommand now)
    show ?thesis
    proof (cases "dc_running c \<and> cmd_recv io (dc_cmds c) \<noteq> None")
      case True
      then obtain cmd ch where "cmd_recv io (dc_cmds c) = Some (cmd, ch)" by auto
      with True TaskCommand task_command_inv [OF assms(5,1,2) _ this, of now] show ?thesis by auto
    qed (use assms(5) TaskCommand in \<open>cases "cmd_recv io (dc_cmds c)"; simp\<close>)
  next
    case (TaskExpire now)
    obtain r c' where "dc_expire io now c = (r, c')" by fastforce
    with dc_expire_inv [OF assms(5,1,2) this] TaskExpire assms(5) show ?thesis by (cases r) auto
  next
    case WorkerPermit
    obtain r c' where p: "worker_permit io c = (r, c')" by fastforce
    from worker_step_inv [OF assms(5) worker_permit_inv [OF w assms(3) p]] worker_fields(2) [of io c] p WorkerPermit
    show ?thesis by (cases r) auto
  next
    case WorkerRecv
    with worker_step_inv [OF assms(5) worker_recv_inv [OF w assms(2)] worker_fields(1) refl] show ?thesis by simp
  next
    case (CallbackEnds i)
    with worker_step_inv [OF assms(5) callback_ends_inv [OF w assms(3)] worker_fields(3) refl] show ?thesis by simp
  next
    case WorkerCancelled
    have "worker_inv calls permits (worker_stop c) lg" using w by (simp add: worker_inv_def worker_stop_def)
    with worker_step_inv [OF assms(5) this worker_fields(4) refl] WorkerCancelled show ?thesis by simp
  qed (use assms app_insert_inv [OF assms(5,4)] app_remove_inv [OF assms(5,2)] app_refresh_inv [OF assms(5,2,4)] app_finish_inv [OF assms(5,2)]
        dc_stop_inv [OF assms(5,1)] in simp_all)
qed

interpretation delay_run: safe_machine "dc_step io ttl" "\<lambda>_. True"
  "\<lambda>cl. queue_laws io limit view \<and> channel_laws io cmds calls \<and> semaphore_laws io permits \<and> (\<forall>v d. ttl v = Some d \<longrightarrow> d \<le> limit) \<and>
     delay_inv limit view cmds calls permits ttl cl"
  for io :: "('q, 't, 'c, 'v, 'w, 's) delay_env" and ttl limit view cmds calls permits
  by unfold_locales (metis dc_step_inv surj_pair)

lemma cache_new_inv:
  assumes "queue_laws io limit view" "channel_laws io cmds calls" "semaphore_laws io permits"
  shows "delay_inv limit view cmds calls permits ttl (cache_new io, delay_log_new)"
  using queue_new [OF assms(1)] channel_new [OF assms(2)] semaphore_new [OF assms(3)] sched_ok_empty
  by (simp add: delay_inv_def sched_inv_def key_ok_def worker_inv_def cache_new_def delay_log_new_def)

lemma cache_init_new:
  assumes "cache_init io g = Some (c, g')"
  shows "c = cache_new io"
  using assms by (auto simp: cache_init_def split: if_splits prod.splits sum.splits)

lemma delay_history_inv:
  assumes "queue_laws io limit view" "channel_laws io cmds calls" "semaphore_laws io permits" "\<forall>v d. ttl v = Some d \<longrightarrow> d \<le> limit"
    and "cache_init io g = Some (c, g')"
  shows "\<exists>cl. run_steps (dc_step io ttl) (c, delay_log_new) evs = Some cl \<and> delay_inv limit view cmds calls permits ttl cl"
  using delay_run.run_safe [of io limit view cmds calls permits ttl "(c, delay_log_new)" evs] cache_new_inv [OF assms(1-3), of ttl]
    cache_init_new [OF assms(5)] assms(1-4) by (auto simp: list_all_iff)

section \<open>Properties\<close>

text \<open>C19. As long as no value's time to live exceeds what the delay queue accepts (\<open>limit\<close>; beyond it the task panics, \<open>long_ttl_panics\<close>), the cache never panics and
  forgets no value. Along every history of calls, task turns, expiries, callbacks and cancellations, no operation of the delay queue hits a missing entry, and the table
  of keys and the queue describe the same schedule. A value at rest is, once the pending commands have been handled, scheduled for expiry exactly when it has a time to
  live, as long as no two calls on its key overlapped.\<close>

theorem delay_cache_safe:
  assumes "queue_laws io limit view" "channel_laws io cmds calls" "semaphore_laws io permits" "\<forall>v d. ttl v = Some d \<longrightarrow> d \<le> limit"
    and "cache_init io g = Some (c0, g')"
  shows "\<exists>c lg. run_steps (dc_step io ttl) (c0, delay_log_new) evs = Some (c, lg) \<and>
    (\<forall>k t. dc_keys c k = Some t \<longleftrightarrow> (\<exists>d. view (dc_queue c) t = Some (k, d))) \<and>
    (\<forall>k v. dc_running c \<and> dc_get k c = Some v \<and> k \<notin> dl_raced lg \<and> k \<notin> unfinished_key ` set (dc_flight c) \<longrightarrow>
       (sched_after k (cmds (dc_cmds c)) (dc_keys c k \<noteq> None) \<longleftrightarrow> ttl v \<noteq> None))"
proof -
  obtain c lg where run: "run_steps (dc_step io ttl) (c0, delay_log_new) evs = Some (c, lg)"
    and inv: "sched_inv limit view cmds c" "\<And>k. k \<notin> dl_raced lg \<Longrightarrow> key_ok ttl cmds c k"
    using delay_history_inv [OF assms, of evs] by (auto simp: delay_inv_def)
  have "sched_after k (cmds (dc_cmds c)) (dc_keys c k \<noteq> None) \<longleftrightarrow> ttl v \<noteq> None"
    if "dc_running c" "dc_get k c = Some v" "k \<notin> dl_raced lg" "k \<notin> unfinished_key ` set (dc_flight c)" for k v
  proof -
    have "\<forall>u\<in>set (dc_flight c). unfinished_key u \<noteq> k" using that(4) by (metis imageI)
    then have f: "filter (\<lambda>u. unfinished_key u = k) (dc_flight c) = []" by (simp add: filter_empty_conv)
    show ?thesis using inv(2) [OF that(3)] that(1,2) unfolding key_ok_def f dc_get_def by simp
  qed
  then show ?thesis using run inv(1) by (auto simp: sched_inv_def sched_ok_def)
qed

text \<open>A delay queue, channels and a semaphore for the instances below.\<close>

definition list_env :: "((nat \<rightharpoonup> string \<times> nat) \<times> nat, nat, delay_command list, 'v, 'v list, nat) delay_env" where
  "list_env = \<lparr>
     dq_new = (Map.empty, 0),
     dq_insert = (\<lambda>now k ttl (m, n). Some (n, (m(n \<mapsto> (k, now + ttl)), Suc n))),
     dq_remove = (\<lambda>t (m, n). if t < n \<and> m t \<noteq> None then Some (m(t := None), n) else None),
     dq_reset = (\<lambda>now t ttl (m, n). if t < n then map_option (\<lambda>(k, _). (m(t \<mapsto> (k, now + ttl)), n)) (m t) else None),
     dq_next = (\<lambda>now (m, n). map_option (\<lambda>t. (fst (the (m t)), (m(t := None), n)))
       (List.find (\<lambda>t. case m t of None \<Rightarrow> False | Some (_, d) \<Rightarrow> d \<le> now) [0..<n])),
     dq_clear = (\<lambda>(m, n). (Map.empty, n)),
     cmd_channel = [], cmd_send = (\<lambda>x ch. ch @ [x]), cmd_recv = (\<lambda>ch. case ch of [] \<Rightarrow> None | x # xs \<Rightarrow> Some (x, xs)),
     call_channel = (\<lambda>_. []), call_try_send = (\<lambda>v ch. if length ch < CALL_CHANNEL then Some (ch @ [v]) else None),
     call_recv = (\<lambda>ch. case ch of [] \<Rightarrow> None | x # xs \<Rightarrow> Some (x, xs)),
     sem_new = (\<lambda>n. n), sem_acquire = (\<lambda>n. if n = 0 then None else Some (Inr (n - 1))), sem_release = Suc\<rparr>"

definition list_view :: "(nat \<rightharpoonup> string \<times> nat) \<times> nat \<Rightarrow> nat \<rightharpoonup> string \<times> nat" where
  "list_view q t = (if t < snd q then fst q t else None)"

lemma list_view_simps:
  "list_view (m(n \<mapsto> x), Suc n) = (list_view (m, n))(n \<mapsto> x)"
  "t < n \<Longrightarrow> list_view (m(t := y), n) = (list_view (m, n))(t := y)"
  "list_view (Map.empty, n) = Map.empty"
  "list_view (m, n) n = None"
  by (auto simp: list_view_def fun_eq_iff)

lemma list_env_queue: "queue_laws list_env limit list_view"
proof -
  have "\<exists>t d. list_view q t = Some (k, d) \<and> d \<le> now \<and> list_view q' = (list_view q)(t := None)"
    if "dq_next list_env now q = Some (k, q')" for now q k q'
  proof -
    obtain m n where q: "q = (m, n)" by fastforce
    with that obtain t where t: "List.find (\<lambda>t. case m t of None \<Rightarrow> False | Some (_, d) \<Rightarrow> d \<le> now) [0..<n] = Some t" "q' = (m(t := None), n)" "k = fst (the (m t))"
      by (auto simp: list_env_def)
    then have t_n: "t < n" "case m t of None \<Rightarrow> False | Some (_, d) \<Rightarrow> d \<le> now" by (auto simp: find_Some_iff)
    then obtain d where "m t = Some (k, d)" "d \<le> now" using t(3) by (auto split: option.splits)
    then show ?thesis using q t(2) t_n(1) by (rule_tac x = t in exI, rule_tac x = d in exI) (simp add: list_view_def list_view_simps(2))
  qed
  moreover have "list_view q t \<noteq> None \<Longrightarrow> \<exists>q'. dq_remove list_env t q = Some q' \<and> list_view q' = (list_view q)(t := None)" for t q
    by (cases q) (auto simp: list_env_def list_view_simps(2), auto simp: list_view_def split: if_splits)
  moreover have "list_view q t = Some (k, d) \<Longrightarrow>
      \<exists>q'. dq_reset list_env now t ttl q = Some q' \<and> list_view q' = (list_view q)(t \<mapsto> (k, now + ttl))" for now t ttl q k d
    by (cases q) (auto simp: list_env_def list_view_simps(2), auto simp: list_view_def split: if_splits)
  moreover have "\<exists>t q'. dq_insert list_env now k ttl q = Some (t, q') \<and> list_view q t = None \<and> list_view q' = (list_view q)(t \<mapsto> (k, now + ttl))" for now k ttl q
    by (cases q) (simp add: list_env_def list_view_simps)
  moreover have "list_view (dq_new list_env) = Map.empty" "list_view (dq_clear list_env q) = Map.empty" for q
    by (cases q; simp add: list_env_def list_view_simps)+
  ultimately show ?thesis unfolding queue_laws_def by blast
qed

lemma list_env_rest: "channel_laws list_env (\<lambda>ch. ch) (\<lambda>ch. ch)" "semaphore_laws list_env (\<lambda>n. n)"
  by (auto simp: list_env_def channel_laws_def semaphore_laws_def split: list.splits if_splits)

lemma list_env_init: "\<exists>g'. cache_init list_env registry_new = Some (cache_new list_env, g')"
  by (simp_all add: cache_init_def registry_get_def registry_new_def spawn_def runtime_entry_new_def task_state_new_def start_locked_def
      update_tasks_def Let_def)

theorem delay_cache_safe_witness:
  "\<exists>c lg. run_steps (dc_step list_env (\<lambda>v::nat. if v = 0 then None else Some 5)) (cache_new list_env, delay_log_new)
      [AppInsert ''a'' 7, AppFinish 0, AppInsert ''b'' 0, TaskCommand 2] = Some (c, lg) \<and>
    dc_get ''a'' c = Some 7 \<and> sched_after ''a'' (dc_cmds c) (dc_keys c ''a'' \<noteq> None)"
proof -
  let ?ttl = "\<lambda>v::nat. if v = 0 then None else Some (5::nat)" and ?evs = "[AppInsert ''a'' 7, AppFinish 0, AppInsert ''b'' 0, TaskCommand 2]"
  obtain g' where g': "cache_init list_env registry_new = Some (cache_new (list_env :: (_, _, _, nat, _, _) delay_env), g')" using list_env_init by blast
  have ttl: "\<forall>v d. ?ttl v = Some d \<longrightarrow> d \<le> 5" by simp
  from delay_cache_safe [OF list_env_queue list_env_rest ttl g', of ?evs] obtain c lg where
    run: "run_steps (dc_step list_env ?ttl) (cache_new list_env, delay_log_new) ?evs = Some (c, lg)"
    and at_rest: "\<forall>k v. dc_running c \<and> dc_get k c = Some v \<and> k \<notin> dl_raced lg \<and> k \<notin> unfinished_key ` set (dc_flight c) \<longrightarrow>
       (sched_after k (dc_cmds c) (dc_keys c k \<noteq> None) \<longleftrightarrow> ?ttl v \<noteq> None)" by (elim exE conjE) (rule that)
  from run have "dc_running c" "dc_get ''a'' c = Some 7" "dl_raced lg = {}" "dc_flight c = [SendInsert ''b'' None]"
    by (auto simp: list_env_def cache_new_def delay_log_new_def insert_begin_def begin_call_def dc_send_def dc_get_def)
  with at_rest [rule_format, of "''a''" 7] run show ?thesis by auto
qed

text \<open>C20. Callbacks: along every history the values whose expiry the worker accepted are, in that order, those whose callback was started, then the one
  waiting for a permit, then those in its channel: no callback is started twice or out of order. At most a hundred callbacks run at once, and as long
  as there are fewer, a value that waits for a permit gets it, even after the cancellation.\<close>

theorem delay_cache_callbacks:
  assumes "queue_laws io limit view" "channel_laws io cmds calls" "semaphore_laws io permits" "\<forall>v d. ttl v = Some d \<longrightarrow> d \<le> limit"
    and "cache_init io g = Some (c0, g')"
  shows "\<exists>c lg. run_steps (dc_step io ttl) (c0, delay_log_new) evs = Some (c, lg) \<and>
    dl_expired lg = dl_called lg @ (case dc_holding c of None \<Rightarrow> [] | Some v \<Rightarrow> [v]) @ calls (dc_calls c) \<and>
    length (dc_active c) \<le> 100 \<and>
    (\<forall>v. dc_holding c = Some v \<and> length (dc_active c) < 100 \<longrightarrow>
       (\<exists>c'. dc_step io ttl (c, lg) WorkerPermit = Some (c', lg\<lparr>dl_called := dl_called lg @ [v]\<rparr>) \<and> dc_active c' = dc_active c @ [v]))"
proof -
  obtain c lg where run: "run_steps (dc_step io ttl) (c0, delay_log_new) evs = Some (c, lg)" and inv: "worker_inv calls permits c lg"
    using delay_history_inv [OF assms, of evs] by (auto simp: delay_inv_def)
  have "\<exists>c'. dc_step io ttl (c, lg) WorkerPermit = Some (c', lg\<lparr>dl_called := dl_called lg @ [v]\<rparr>) \<and> dc_active c' = dc_active c @ [v]"
    if "dc_holding c = Some v" "length (dc_active c) < 100" for v
  proof -
    have "0 < permits (dc_semaphore c)" using inv that(2) by (simp add: worker_inv_def CALLBACKS_def)
    with semaphore_free [OF assms(3)] semaphore_acquire [OF assms(3)] obtain s where "sem_acquire io (dc_semaphore c) = Some (Inr s)" by blast
    with that(1) show ?thesis by (simp add: worker_permit_def)
  qed
  with run inv show ?thesis by (auto simp: worker_inv_def CALLBACKS_def)
qed

theorem delay_cache_callbacks_witness:
  "\<exists>c lg. run_steps (dc_step list_env (\<lambda>v::nat. Some 5)) (cache_new list_env, delay_log_new)
      [AppInsert ''a'' 7, AppFinish 0, TaskCommand 2, TaskExpire 6, TaskExpire 7, WorkerRecv, TaskCancelled, WorkerCancelled, WorkerPermit] = Some (c, lg) \<and>
    dl_called lg = [7] \<and> length (dc_active c) \<le> 100"
proof -
  let ?ttl = "\<lambda>v::nat. Some (5::nat)"
    and ?evs = "[AppInsert ''a'' 7, AppFinish 0, TaskCommand 2, TaskExpire 6, TaskExpire 7, WorkerRecv, TaskCancelled, WorkerCancelled, WorkerPermit]"
  obtain g' where g': "cache_init list_env registry_new = Some (cache_new (list_env :: (_, _, _, nat, _, _) delay_env), g')" using list_env_init by blast
  have ttl: "\<forall>v d. ?ttl v = Some d \<longrightarrow> d \<le> 5" by simp
  from delay_cache_callbacks [OF list_env_queue list_env_rest ttl g', of ?evs] obtain c lg where
    run: "run_steps (dc_step list_env ?ttl) (cache_new list_env, delay_log_new) ?evs = Some (c, lg)"
    and l: "dl_expired lg = dl_called lg @ (case dc_holding c of None \<Rightarrow> [] | Some v \<Rightarrow> [v]) @ dc_calls c" "length (dc_active c) \<le> 100" by blast
  from run have "dl_expired lg = [7]" "dc_holding c = None" "dc_calls c = []"
    by (auto simp: list_env_def cache_new_def delay_log_new_def insert_begin_def begin_call_def dc_send_def dc_expire_def hand_over_def worker_recv_def
        worker_permit_def worker_stop_def dc_stop_def CALL_CHANNEL_def CALLBACKS_def)
  with run l show ?thesis by auto
qed

section \<open>What the code leaves open\<close>

text \<open>Replacing a value races with the expiry of the value it replaces: if the old deadline has passed when the new value is inserted and the task turns to the queue
  before the command, it is the new value that is removed and handed to the callback.\<close>

lemma stale_expiry_removes_new_value:
  assumes "dc_running c" "dc_worker c" "dq_next io now (dc_queue c) = Some (k, q)" "call_try_send io v (dc_calls c) = Some w"
  shows "\<exists>c'. run_steps (dc_step io ttl) (c, lg) [AppInsert k v, TaskExpire now] =
      Some (c', (snd (begin_call (insert_begin ttl k v c) lg))\<lparr>dl_expired := dl_expired lg @ [v]\<rparr>) \<and> dc_get k c' = None"
  using assms by (simp add: insert_begin_def begin_call_def dc_expire_def hand_over_def dc_get_def)

text \<open>Two inserts of one key whose commands are sent in the other order than their values reach the map: the value that stays has a time to live and is never
  scheduled.\<close>

lemma overlapping_inserts_leak:
  assumes "channel_laws io cmds calls" "dc_running c" "dc_flight c = []" "ttl v = None" "ttl v' = Some d"
  shows "\<exists>c' lg'. run_steps (dc_step io ttl) (c, lg) [AppInsert k v, AppInsert k v', AppFinish 1, AppFinish 0] = Some (c', lg') \<and>
    dc_get k c' = Some v' \<and> \<not> sched_after k (cmds (dc_cmds c')) (dc_keys c' k \<noteq> None)"
  using assms(2-5) by (simp add: insert_begin_def begin_call_def dc_send_def dc_get_def channel_send [OF assms(1)])

text \<open>A time to live that the queue refuses ends the task with a panic when its command is handled.\<close>

lemma long_ttl_panics:
  assumes "dc_keys c k = None" "dq_insert io now k d (dc_queue c) = None"
  shows "dc_command io now (CmdInsert k (Some d)) c = None"
  using assms by simp

text \<open>Typed access: a value that no call or expiry touched in between comes back with its type, and as no other type.\<close>

lemma common_insert_get:
  assumes "common_insert io ttl k (from_any i x) (common, g) = Some ((), common', g')"
  shows "\<exists>c. common' = Some c \<and> common_get io k (common', g') = Some (Some (from_any i x), common', g') \<and>
    downcast_ref j (from_any i x) = (if j = i then Some x else None)"
  using assms
  by (auto simp: common_insert_def common_get_def on_common_def dc_insert_def insert_begin_def dc_get_def from_any_def
      split: option.splits bind_splits prod.splits)

end
