(* ===== verification/Dig62.thy ===== *)
theory Dig62
  imports Exceptions
begin

text \<open>
  \<^verbatim>\<open>base/src/utils/dig62.rs\<close>: packing a decimal string into letters and digits and back. Every decimal
  digit is four bits, the bits are cut into groups of nine, and a group becomes a letter, with a
  digit before it for the multiples of 52. The binary strings of the source are lists of bits, most
  significant first. \<open>None\<close> is a panic.
\<close>

section \<open>Model\<close>

definition D_DIC :: string where
  "D_DIC = ''0123456789''"

definition A_DIC :: string where
  "A_DIC = ''qazwsxedcrfvtgbyhnujmikolpQAZWSXEDCRFVTGBYHNUJMIKOLP''"

text \<open>Binary digits: \<^verbatim>\<open>format!("{:0w$b}")\<close> pads to at least \<open>w\<close> digits; \<^verbatim>\<open>from_str_radix(_, 2)\<close>.\<close>

fun binary_digits :: "nat \<Rightarrow> bool list" where
  "binary_digits n = (if n < 2 then [n = 1] else binary_digits (n div 2) @ [odd n])"

declare binary_digits.simps [simp del]

definition format_bits :: "nat \<Rightarrow> nat \<Rightarrow> bool list" where
  "format_bits w n = replicate (w - length (binary_digits n)) False @ binary_digits n"

definition from_bits :: "bool list \<Rightarrow> nat" where
  "from_bits bs = foldl (\<lambda>n b. 2 * n + (if b then 1 else 0)) 0 bs"

function chunks :: "nat \<Rightarrow> 'a list \<Rightarrow> 'a list list" where
  "chunks n xs = (if n = 0 \<or> xs = [] then [] else take n xs # chunks n (drop n xs))"
  by pat_completeness auto
termination by (relation "measure (\<lambda>(n, xs). length xs)") auto

declare chunks.simps [simp del]

text \<open>Encoding.\<close>

fun digits_to_bits :: "string \<Rightarrow> bool list global_result" where
  "digits_to_bits [] = Inr []"
| "digits_to_bits (c # cs) =
     (case parse_digit c of
        None \<Rightarrow> Inl (snd (new_sys_error ''Invalid digit_str''))
      | Some d \<Rightarrow> (case digits_to_bits cs of Inl e \<Rightarrow> Inl e | Inr bs \<Rightarrow> Inr (format_bits 4 d @ bs)))"

definition group_chars :: "nat \<Rightarrow> string" where
  "group_chars val = (if val div 52 > 0 then [D_DIC ! (val div 52)] else []) @ [A_DIC ! (val mod 52)]"

definition en :: "string \<Rightarrow> string global_result" where
  "en digit_str =
     (case digits_to_bits digit_str of
        Inl e \<Rightarrow> Inl e
      | Inr bits \<Rightarrow>
          (let remainder = length bits mod 9;
               pad_len = 9 - remainder;
               padded = (if remainder \<noteq> 0 then replicate pad_len False @ bits else bits);
               header = (if remainder \<noteq> 0 then A_DIC ! pad_len else A_DIC ! 0) in
           Inr (header # concat (map (\<lambda>chunk. group_chars (from_bits chunk)) (chunks 9 padded)))))"

text \<open>Decoding: the loop over the characters after the header.\<close>

definition is_ascii_digit :: "char \<Rightarrow> bool" where
  "is_ascii_digit c \<longleftrightarrow> parse_digit c \<noteq> None"

fun de_groups :: "string \<Rightarrow> bool list global_result" where
  "de_groups [] = Inr []"
| "de_groups (c # cs) =
     (if is_ascii_digit c
      then (case position c D_DIC of
              None \<Rightarrow> Inl (snd (new_sys_error ''Illegal digit character''))
            | Some circle \<Rightarrow>
                (case cs of
                   [] \<Rightarrow> Inl (snd (new_sys_error ''Digit num cannot be at the end''))
                 | a_ch # rest \<Rightarrow>
                     (case position a_ch A_DIC of
                        None \<Rightarrow> Inl (snd (new_sys_error ''Illegal alphabet character''))
                      | Some index \<Rightarrow>
                          (case de_groups rest of Inl e \<Rightarrow> Inl e | Inr bs \<Rightarrow> Inr (format_bits 9 (circle * 52 + index) @ bs)))))
      else (case position c A_DIC of
              None \<Rightarrow> Inl (snd (new_sys_error ''Illegal alphabet character''))
            | Some index \<Rightarrow>
                (case de_groups cs of Inl e \<Rightarrow> Inl e | Inr bs \<Rightarrow> Inr (format_bits 9 index @ bs))))"

text \<open>\<^verbatim>\<open>from_digit(num, 10).expect(..)\<close> panics above nine.\<close>

fun bits_to_digits :: "bool list list \<Rightarrow> string option" where
  "bits_to_digits [] = Some []"
| "bits_to_digits (chunk # rest) =
     (if from_bits chunk < 10 then map_option (\<lambda>s. char_of (48 + from_bits chunk) # s) (bits_to_digits rest) else None)"

definition de :: "string \<Rightarrow> string global_result option" where
  "de num62 =
     (case num62 of
        [] \<Rightarrow> Some (Inl (snd (new_sys_error ''Too short to miss header'')))
      | header # cs \<Rightarrow>
          (case position header A_DIC of
             None \<Rightarrow> Some (Inl (snd (new_sys_error ''Illegal alphabet character by header'')))
           | Some pad_len \<Rightarrow>
               (case de_groups cs of
                  Inl e \<Rightarrow> Some (Inl e)
                | Inr bits \<Rightarrow> map_option Inr (bits_to_digits (chunks 4 (drop pad_len bits))))))"

section \<open>Bits\<close>

lemma from_bits_snoc: "from_bits (bs @ [b]) = 2 * from_bits bs + (if b then 1 else 0)"
  by (simp add: from_bits_def)

lemma from_bits_less: "from_bits bs < 2 ^ length bs"
  by (induction bs rule: rev_induct) (auto simp: from_bits_snoc, auto simp: from_bits_def)

lemma from_bits_replicate: "from_bits (replicate n False @ bs) = from_bits bs"
  by (induction n) (simp_all add: from_bits_def)

lemma binary_digits_length: "n < 2 ^ w \<Longrightarrow> 0 < w \<Longrightarrow> length (binary_digits n) \<le> w"
proof (induction n arbitrary: w rule: binary_digits.induct)
  case (1 n)
  show ?case
  proof (cases "n < 2")
    case False
    with 1 obtain w' where w: "w = Suc w'" "0 < w'" by (cases w; cases "w - 1") auto
    with 1 False have "length (binary_digits (n div 2)) \<le> w'" by (intro "1.IH") auto
    with False w show ?thesis by (subst binary_digits.simps) simp
  qed (use 1 in \<open>simp add: binary_digits.simps\<close>)
qed

lemma from_bits_binary: "from_bits (binary_digits n) = n"
proof (induction n rule: binary_digits.induct)
  case (1 n)
  show ?case
  proof (cases "n < 2")
    case False
    with 1 show ?thesis by (subst binary_digits.simps) (auto simp: from_bits_snoc)
  qed (auto simp: binary_digits.simps from_bits_def less_2_cases_iff)
qed

lemma format_bits_spec:
  assumes "n < 2 ^ w" "0 < w"
  shows "length (format_bits w n) = w" "from_bits (format_bits w n) = n"
  using binary_digits_length [OF assms] by (simp_all add: format_bits_def from_bits_replicate from_bits_binary)

lemma from_bits_inj: "length xs = length ys \<Longrightarrow> from_bits xs = from_bits ys \<Longrightarrow> xs = ys"
proof (induction xs arbitrary: ys rule: rev_induct)
  case (snoc x xs)
  then obtain y ys' where ys: "ys = ys' @ [y]" by (cases ys rule: rev_cases) auto
  have "2 * from_bits xs + (if x then 1 else 0) = 2 * from_bits ys' + (if y then 1 else 0 :: nat)"
    using snoc.prems by (simp add: ys from_bits_snoc)
  then have "x = y \<and> from_bits xs = from_bits ys'" by (cases x; cases y) (auto, presburger+)
  with snoc ys show ?case by auto
qed simp

lemma format_from_bits: "bs \<noteq> [] \<Longrightarrow> format_bits (length bs) (from_bits bs) = bs"
  using format_bits_spec [OF from_bits_less] by (intro from_bits_inj) auto

section \<open>Chunks\<close>

lemma concat_chunks: "0 < n \<Longrightarrow> concat (chunks n xs) = xs"
proof (induction n xs rule: chunks.induct)
  case (1 n xs)
  then show ?case by (subst chunks.simps) auto
qed

lemma chunks_full: "0 < n \<Longrightarrow> n dvd length xs \<Longrightarrow> c \<in> set (chunks n xs) \<Longrightarrow> length c = n"
proof (induction n xs rule: chunks.induct)
  case (1 n xs)
  show ?case
  proof (cases "xs = []")
    case False
    with 1 have "n \<le> length xs" by (auto intro: dvd_imp_le)
    moreover from this 1 have "n dvd length (drop n xs)" by (simp add: dvd_diff_nat)
    ultimately show ?thesis using 1 False by (subst (asm) chunks.simps) auto
  qed (use 1 in \<open>simp add: chunks.simps\<close>)
qed

lemma chunks_append: "0 < n \<Longrightarrow> length xs = n \<Longrightarrow> chunks n (xs @ ys) = xs # chunks n ys"
  by (subst chunks.simps) auto

section \<open>Dictionaries\<close>

lemma position_nth: "distinct xs \<Longrightarrow> i < length xs \<Longrightarrow> position (xs ! i) xs = Some i"
proof (induction xs arbitrary: i)
  case (Cons x xs)
  then show ?case by (cases i) auto
qed simp

lemma A_DIC_facts: "length A_DIC = 52" "distinct A_DIC" "list_all (\<lambda>c. parse_digit c = None) A_DIC"
  by (simp_all add: A_DIC_def parse_digit_def)

lemma D_DIC_facts: "length D_DIC = 10" "distinct D_DIC" "list_all (\<lambda>c. parse_digit c \<noteq> None) D_DIC"
  by (simp_all add: D_DIC_def parse_digit_def)

lemma A_DIC_nth: "i < 52 \<Longrightarrow> position (A_DIC ! i) A_DIC = Some i \<and> \<not> is_ascii_digit (A_DIC ! i)"
  using A_DIC_facts position_nth [of A_DIC i] by (simp add: is_ascii_digit_def list_all_length)

lemma D_DIC_nth: "i < 10 \<Longrightarrow> position (D_DIC ! i) D_DIC = Some i \<and> is_ascii_digit (D_DIC ! i)"
  using D_DIC_facts position_nth [of D_DIC i] by (simp add: is_ascii_digit_def list_all_length)

lemma de_group:
  assumes "val < 512"
  shows "de_groups (group_chars val @ rest) =
    (case de_groups rest of Inl e \<Rightarrow> Inl e | Inr bs \<Rightarrow> Inr (format_bits 9 val @ bs))"
proof -
  define c i where "c = val div 52" and "i = val mod 52"
  have ci: "c < 10" "i < 52" using assms by (simp_all add: c_def i_def)
  have val: "val = c * 52 + i" by (simp add: c_def i_def)
  have g: "group_chars val = (if c > 0 then [D_DIC ! c] else []) @ [A_DIC ! i]"
    by (simp only: group_chars_def c_def i_def)
  show ?thesis
    using A_DIC_nth [OF ci(2)] D_DIC_nth [OF ci(1)] unfolding g unfolding val
    by (cases "c = 0") (simp_all cong: sum.case_cong)
qed

lemma pad_to_nine: "(n :: nat) mod 9 \<noteq> 0 \<Longrightarrow> 9 dvd 9 - n mod 9 + n"
proof -
  obtain q r where "n = 9 * q + r" "r < 9" "r = n mod 9" by (metis mod_less_divisor mult_div_mod_eq zero_less_numeral)
  then have "9 - n mod 9 + n = 9 * (q + 1)" by simp
  then show ?thesis by simp
qed

lemma de_groups_chunks:
  "\<forall>c\<in>set cs. length c = 9 \<Longrightarrow>
     de_groups (concat (map (\<lambda>c. group_chars (from_bits c)) cs)) = Inr (concat cs)"
proof (induction cs)
  case (Cons c cs)
  then have "from_bits c < 512" "c \<noteq> []" using from_bits_less [of c] by auto
  with Cons format_from_bits [of c] show ?case by (simp add: de_group)
qed simp

lemma parse_digit_char: "parse_digit c = Some d \<Longrightarrow> d < 10 \<and> c = char_of (48 + d)"
  by (auto simp: parse_digit_def Let_def split: if_splits)

lemma digits_roundtrip: "digits_to_bits s = Inr bits \<Longrightarrow> bits_to_digits (chunks 4 bits) = Some s \<and> 4 dvd length bits"
proof (induction s arbitrary: bits)
  case (Cons c s)
  then obtain d bs where d: "parse_digit c = Some d" "digits_to_bits s = Inr bs" "bits = format_bits 4 d @ bs"
    by (auto split: option.splits sum.splits)
  note pd = parse_digit_char [OF d(1)]
  have f: "length (format_bits 4 d) = 4" "from_bits (format_bits 4 d) = d" using pd by (simp_all add: format_bits_spec)
  with Cons.IH [OF d(2)] pd show ?case by (simp add: d(3) chunks_append)
qed (simp add: chunks.simps)

lemma digits_to_bits_total: "(\<forall>c\<in>set s. parse_digit c \<noteq> None) \<longleftrightarrow> (\<exists>bits. digits_to_bits s = Inr bits)"
  by (induction s) (auto split: option.splits sum.splits)

lemma de_padded:
  assumes "pad < 52" "9 dvd pad + length bits"
  shows "de (A_DIC ! pad # concat (map (\<lambda>c. group_chars (from_bits c)) (chunks 9 (replicate pad False @ bits)))) =
    map_option Inr (bits_to_digits (chunks 4 bits))"
proof -
  let ?p = "replicate pad False @ bits"
  have "\<forall>c\<in>set (chunks 9 ?p). length c = 9" using assms chunks_full [of 9 ?p] by simp
  then have "de_groups (concat (map (\<lambda>c. group_chars (from_bits c)) (chunks 9 ?p))) = Inr ?p"
    using concat_chunks [of 9 ?p] by (simp add: de_groups_chunks)
  then show ?thesis using A_DIC_nth [OF assms(1)] by (simp add: de_def)
qed

lemma de_en:
  assumes "en s = Inr x"
  shows "de x = Some (Inr s)"
proof -
  from assms obtain bits where bits: "digits_to_bits s = Inr bits" by (auto simp: en_def split: sum.splits)
  note dr = digits_roundtrip [OF bits]
  show ?thesis
  proof (cases "length bits mod 9 = 0")
    case True
    with assms bits have "x = A_DIC ! 0 # concat (map (\<lambda>c. group_chars (from_bits c)) (chunks 9 (replicate 0 False @ bits)))"
      by (simp add: en_def Let_def)
    then show ?thesis using True dr de_padded [of 0 bits] by (simp add: dvd_eq_mod_eq_0)
  next
    case False
    let ?pad = "9 - length bits mod 9"
    from False assms bits
    have "x = A_DIC ! ?pad # concat (map (\<lambda>c. group_chars (from_bits c)) (chunks 9 (replicate ?pad False @ bits)))"
      by (simp add: en_def Let_def)
    then show ?thesis using de_padded [OF _ pad_to_nine [OF False]] dr by simp
  qed
qed

section \<open>Properties\<close>

text \<open>C31. Round trip: a string encodes exactly when all its characters are decimal digits, and decoding
  the result gives the string back, without panic, leading zeros included.\<close>

theorem dig62_roundtrip:
  "((\<exists>x. en s = Inr x) \<longleftrightarrow> (\<forall>c\<in>set s. parse_digit c \<noteq> None)) \<and> (\<forall>x. en s = Inr x \<longrightarrow> de x = Some (Inr s))"
proof -
  have "(\<exists>x. en s = Inr x) \<longleftrightarrow> (\<exists>bits. digits_to_bits s = Inr bits)"
    by (cases "digits_to_bits s") (simp_all add: en_def Let_def)
  then show ?thesis using digits_to_bits_total [of s] de_en [of s] by blast
qed

theorem dig62_roundtrip_witness:
  "\<exists>x. en ''0042'' = Inr x \<and> de x = Some (Inr ''0042'')"
proof -
  have "\<forall>c\<in>set ''0042''. parse_digit c \<noteq> None" by (simp add: parse_digit_def)
  with dig62_roundtrip [of "''0042''"] show ?thesis by blast
qed

text \<open>Decoding text that the encoder did not produce can panic: the group \<open>511\<close> is accepted by the
  alphabet but holds the four-bit value fifteen, which is no decimal digit, so the decoder panics
  instead of reporting an error.\<close>

lemma dig62_decode_panics: "de (A_DIC ! 0 # group_chars 511) = None"
proof -
  have "format_bits 9 511 = replicate 9 True"
    by (rule from_bits_inj) (simp_all add: format_bits_spec, simp add: from_bits_def numeral_eq_Suc)
  then have "de_groups (group_chars 511) = Inr (replicate 9 True)"
    using de_group [of 511 "[]"] by simp
  moreover have "from_bits (replicate 4 True) = 15" by (simp add: from_bits_def numeral_eq_Suc)
  moreover have "chunks 4 (replicate 9 True) = replicate 4 True # chunks 4 (replicate 5 True)"
    by (subst chunks.simps) simp
  ultimately show ?thesis using A_DIC_nth [of 0] by (simp add: de_def)
qed

end
