(* ===== verification/Retry.thy ===== *)
theory Retry
  imports Complex_Main Prelude
begin

text \<open>
  The retry policy \<^verbatim>\<open>base_rpc/src/retry.rs\<close>: delays that grow by a factor up to a maximum, with random jitter, computed in \<^verbatim>\<open>f64\<close>.

  A float is a real, an infinity or NaN; the sign of zero cannot be seen here. The rounding of IEEE 754 (\<open>rnd\<close>), \<^verbatim>\<open>powi\<close>, whose precision Rust leaves open, and the
  random number generator are parameters, \<open>float_env\<close>, with what is promised of them in \<open>float_laws\<close>. Durations are nanoseconds. \<open>None\<close> is a panic.
\<close>

section \<open>Floats\<close>

datatype f64 = Fin real | Infinity | NegInfinity | NaN

record 'u float_env =
  rnd :: "real \<Rightarrow> f64"
  f_powi :: "f64 \<Rightarrow> int \<Rightarrow> f64"
  gen_range :: "'u \<Rightarrow> f64 \<Rightarrow> f64 \<Rightarrow> f64 option"     \<comment> \<open>inclusive; \<open>None\<close>: the range is empty\<close>

fun f_le :: "f64 \<Rightarrow> f64 \<Rightarrow> bool" where
  "f_le NaN _ = False"
| "f_le _ NaN = False"
| "f_le NegInfinity _ = True"
| "f_le _ Infinity = True"
| "f_le (Fin a) (Fin b) = (a \<le> b)"
| "f_le _ _ = False"

fun f_sign :: "f64 \<Rightarrow> real" where
  "f_sign (Fin a) = sgn a"
| "f_sign Infinity = 1"
| "f_sign NegInfinity = -1"
| "f_sign NaN = 0"

definition signed_infinity :: "real \<Rightarrow> f64" where
  "signed_infinity s = (if s = 0 then NaN else if 0 < s then Infinity else NegInfinity)"

definition f_mul :: "'u float_env \<Rightarrow> f64 \<Rightarrow> f64 \<Rightarrow> f64" where
  "f_mul env a b = (case (a, b) of (Fin x, Fin y) \<Rightarrow> rnd env (x * y) | _ \<Rightarrow> signed_infinity (f_sign a * f_sign b))"

fun f_add :: "'u float_env \<Rightarrow> f64 \<Rightarrow> f64 \<Rightarrow> f64" where
  "f_add env (Fin a) (Fin b) = rnd env (a + b)"
| "f_add env NaN _ = NaN"
| "f_add env _ NaN = NaN"
| "f_add env Infinity NegInfinity = NaN"
| "f_add env NegInfinity Infinity = NaN"
| "f_add env (Fin _) x = x"
| "f_add env x _ = x"

fun f_neg :: "f64 \<Rightarrow> f64" where
  "f_neg (Fin a) = Fin (- a)"
| "f_neg Infinity = NegInfinity"
| "f_neg NegInfinity = Infinity"
| "f_neg NaN = NaN"

text \<open>\<^verbatim>\<open>f64::max\<close> and \<^verbatim>\<open>min\<close> ignore a NaN, \<^verbatim>\<open>clamp\<close> keeps it.\<close>

definition f_max :: "f64 \<Rightarrow> f64 \<Rightarrow> f64" where
  "f_max a b = (if a = NaN then b else if b = NaN then a else if f_le a b then b else a)"

definition f_min :: "f64 \<Rightarrow> f64 \<Rightarrow> f64" where
  "f_min a b = (if a = NaN then b else if b = NaN then a else if f_le a b then a else b)"

definition f_clamp :: "f64 \<Rightarrow> f64 \<Rightarrow> f64 \<Rightarrow> f64" where
  "f_clamp low high a = (if a = NaN then NaN else if f_le a low then low else if f_le high a then high else a)"

section \<open>Durations\<close>

definition NANOS_PER_SEC :: nat where "NANOS_PER_SEC = 1000000000"

definition as_secs_f64 :: "'u float_env \<Rightarrow> nat \<Rightarrow> f64" where
  "as_secs_f64 env d =
     f_add env (rnd env (real (d div NANOS_PER_SEC))) (rnd env (real (d mod NANOS_PER_SEC) / real NANOS_PER_SEC))"

definition round_ties_even :: "real \<Rightarrow> int" where
  "round_ties_even x =
     (let n = \<lfloor>x\<rfloor>; r = x - of_int n in if r < 1 / 2 then n else if 1 / 2 < r then n + 1 else if even n then n else n + 1)"

definition from_secs_f64 :: "f64 \<Rightarrow> nat option" where
  "from_secs_f64 x =
     (case x of
        Fin r \<Rightarrow> if r < 0 then None
          else let n = round_ties_even (r * real NANOS_PER_SEC) in
               if n < 2 ^ 64 * int NANOS_PER_SEC then Some (nat n) else None
      | _ \<Rightarrow> None)"

section \<open>The policy\<close>

record retry_policy =
  rp_initial_delay :: nat
  rp_max_delay :: nat
  rp_multiplier :: f64
  rp_jitter_ratio :: f64
  rp_max_attempts :: "nat option"

definition retry_policy_default :: "'u float_env \<Rightarrow> retry_policy" where
  "retry_policy_default env = \<lparr>rp_initial_delay = 250 * 1000000, rp_max_delay = 30 * NANOS_PER_SEC, rp_multiplier = Fin 2,
     rp_jitter_ratio = rnd env (2 / 10), rp_max_attempts = None\<rparr>"

definition i32_max :: nat where "i32_max = 2 ^ 31 - 1"

definition delay_without_jitter :: "'u float_env \<Rightarrow> retry_policy \<Rightarrow> nat \<Rightarrow> nat option" where
  "delay_without_jitter env p attempt =
     (let exponent = int (min (attempt - 1) i32_max);
          seconds = f_mul env (as_secs_f64 env (rp_initial_delay p)) (f_powi env (f_max (rp_multiplier p) (Fin 1)) exponent) in
      from_secs_f64 (f_min seconds (as_secs_f64 env (rp_max_delay p))))"

definition retry_delay :: "'u float_env \<Rightarrow> retry_policy \<Rightarrow> 'u \<Rightarrow> nat \<Rightarrow> nat option" where
  "retry_delay env p u attempt =
     (case delay_without_jitter env p attempt of
        None \<Rightarrow> None
      | Some base \<Rightarrow>
          if f_le (rp_jitter_ratio p) (Fin 0) \<or> base = 0 then Some base
          else let jitter = f_mul env (as_secs_f64 env base) (f_clamp (Fin 0) (Fin 1) (rp_jitter_ratio p)) in
               case gen_range env u (f_neg jitter) jitter of
                 None \<Rightarrow> None
               | Some delta \<Rightarrow> from_secs_f64 (f_max (f_add env (as_secs_f64 env base) delta) (Fin 0)))"

definition permits :: "nat option \<Rightarrow> nat \<Rightarrow> bool" where
  "permits max_attempts attempt = (case max_attempts of None \<Rightarrow> True | Some m \<Rightarrow> attempt \<le> m)"

section \<open>What is promised of floats\<close>

text \<open>Rounding to nearest is monotone, changes no float, keeps the integers up to \<open>2 ^ 53\<close> and is off by at most half a unit in the last place. A power of a number that
  is at least one is at least one or infinite. A random number lies in its range.\<close>

definition float_laws :: "'u float_env \<Rightarrow> bool" where
  "float_laws env \<longleftrightarrow>
     (\<forall>x y. x \<le> y \<longrightarrow> f_le (rnd env x) (rnd env y)) \<and>
     (\<forall>x y. rnd env x = Fin y \<longrightarrow> rnd env y = Fin y) \<and>
     (\<forall>n :: nat. n \<le> 2 ^ 53 \<longrightarrow> rnd env (real n) = Fin (real n)) \<and>
     (\<forall>x. \<bar>x\<bar> \<le> 2 ^ 1000 \<longrightarrow> (\<exists>y. rnd env x = Fin y \<and> \<bar>y - x\<bar> \<le> \<bar>x\<bar> / 2 ^ 53 + 1 / 2 ^ 1074)) \<and>
     (\<forall>x n. f_le (Fin 1) x \<longrightarrow> 0 \<le> n \<longrightarrow> f_le (Fin 1) (f_powi env x n)) \<and>
     (\<forall>x. f_powi env x 0 = Fin 1) \<and>
     (\<forall>u a b. a \<le> b \<longrightarrow> (\<exists>y. gen_range env u (Fin a) (Fin b) = Some (Fin y) \<and> a \<le> y \<and> y \<le> b)) \<and>
     (\<forall>u a b. \<not> f_le a b \<longrightarrow> gen_range env u a b = None)"

lemma float_lawsD:
  assumes "float_laws env"
  shows rnd_mono: "x \<le> y \<Longrightarrow> f_le (rnd env x) (rnd env y)"
    and rnd_idem: "rnd env x = Fin y \<Longrightarrow> rnd env y = Fin y"
    and rnd_nat: "n \<le> 2 ^ 53 \<Longrightarrow> rnd env (real n) = Fin (real n)"
    and rnd_error: "\<bar>x\<bar> \<le> 2 ^ 1000 \<Longrightarrow> \<exists>y. rnd env x = Fin y \<and> \<bar>y - x\<bar> \<le> \<bar>x\<bar> / 2 ^ 53 + 1 / 2 ^ 1074"
    and powi_ge_1: "f_le (Fin 1) a \<Longrightarrow> 0 \<le> k \<Longrightarrow> f_le (Fin 1) (f_powi env a k)"
    and powi_0: "f_powi env a 0 = Fin 1"
    and gen_range_in: "x \<le> y \<Longrightarrow> \<exists>z. gen_range env u (Fin x) (Fin y) = Some (Fin z) \<and> x \<le> z \<and> z \<le> y"
    and gen_range_empty: "\<not> f_le a b \<Longrightarrow> gen_range env u a b = None"
  using assms unfolding float_laws_def by blast+

section \<open>Rounding to nanoseconds\<close>

lemma round_ties_even_bounds: "\<bar>of_int (round_ties_even x) - x\<bar> \<le> 1 / 2"
  unfolding round_ties_even_def Let_def by (auto split: if_splits)

lemma round_ties_even_eq: "\<bar>x - of_int n\<bar> < 1 / 2 \<Longrightarrow> round_ties_even x = n"
  using round_ties_even_bounds [of x] by linarith

lemma round_ties_even_mono:
  assumes "x \<le> y"
  shows "round_ties_even x \<le> round_ties_even y"
proof (cases "\<lfloor>x\<rfloor> = \<lfloor>y\<rfloor>")
  case True
  with assms show ?thesis by (simp add: round_ties_even_def Let_def)
next
  case False
  then have "\<lfloor>x\<rfloor> + 1 \<le> \<lfloor>y\<rfloor>" using floor_mono [OF assms] by linarith
  then show ?thesis by (simp add: round_ties_even_def Let_def)
qed

lemma from_secs_f64_mono:
  assumes "0 \<le> x" "x \<le> y" "from_secs_f64 (Fin y) = Some n"
  shows "\<exists>m \<le> n. from_secs_f64 (Fin x) = Some m"
proof -
  have "round_ties_even (x * real NANOS_PER_SEC) \<le> round_ties_even (y * real NANOS_PER_SEC)"
    using assms(2) by (intro round_ties_even_mono mult_right_mono) simp_all
  with assms show ?thesis by (auto simp: from_secs_f64_def Let_def split: if_splits)
qed

text \<open>Up to about 48 days a duration survives its way through a float, and the float is off by less than half a nanosecond.\<close>

definition EXACT_SECS :: nat where "EXACT_SECS = 2 ^ 22"

lemma abs_triangle: "\<bar>a - b\<bar> \<le> e \<Longrightarrow> \<bar>b - c\<bar> \<le> e' \<Longrightarrow> \<bar>a - c\<bar> \<le> e + (e' :: real)"
  by linarith

lemma abs_scale: "\<bar>a - b\<bar> < e \<Longrightarrow> 0 < c \<Longrightarrow> \<bar>a * c - b * c\<bar> < e * (c :: real)"
  unfolding left_diff_distrib [symmetric] abs_mult by (simp add: mult_strict_right_mono)

lemma tiny: "1 / 2 ^ 1074 \<le> (1 / 10 ^ 20 :: real)"
  by (rule frac_le) simp_all

lemma as_secs_f64_exact:
  assumes "float_laws env" "d < EXACT_SECS * NANOS_PER_SEC"
  shows "\<exists>x. as_secs_f64 env d = Fin x \<and> 0 \<le> x \<and> x \<le> real EXACT_SECS \<and> \<bar>x * real NANOS_PER_SEC - real d\<bar> < 49 / 100 \<and> rnd env x = Fin x"
proof -
  let ?s = "real (d div NANOS_PER_SEC)" and ?f = "real (d mod NANOS_PER_SEC) / real NANOS_PER_SEC"
  have ns: "real NANOS_PER_SEC = 10 ^ 9" by (simp add: NANOS_PER_SEC_def)
  have d: "real d = ?s * 10 ^ 9 + ?f * 10 ^ 9"
    using arg_cong [OF div_mult_mod_eq [of d NANOS_PER_SEC], of real] unfolding of_nat_add of_nat_mult ns by simp
  have s: "d div NANOS_PER_SEC < EXACT_SECS" using assms(2) by (simp add: less_mult_imp_div_less)
  have f: "0 \<le> ?f" "?f \<le> 1" by (simp_all add: NANOS_PER_SEC_def)
  have secs: "rnd env ?s = Fin ?s" using s by (intro rnd_nat [OF assms(1)]) (simp add: EXACT_SECS_def)
  obtain q where q: "rnd env ?f = Fin q" "\<bar>q - ?f\<bar> \<le> \<bar>?f\<bar> / 2 ^ 53 + 1 / 2 ^ 1074"
    using rnd_error [OF assms(1), of ?f] f by (auto simp: abs_of_nonneg intro: order_trans [OF _ one_le_power])
  have "f_le (rnd env 0) (rnd env ?f)" "f_le (rnd env ?f) (rnd env 1)" using f by (simp_all add: rnd_mono [OF assms(1)])
  then have q01: "0 \<le> q" "q \<le> 1" using rnd_nat [OF assms(1), of 0] rnd_nat [OF assms(1), of 1] q(1) by simp_all
  have sq: "0 \<le> ?s + q" "?s + q \<le> real EXACT_SECS" using s q01 by linarith+
  then have "\<bar>?s + q\<bar> \<le> 2 ^ 22" by (simp add: EXACT_SECS_def)
  moreover have "(2 ^ 22 :: real) \<le> 2 ^ 1000" by (rule power_increasing) simp_all
  ultimately obtain x where x: "rnd env (?s + q) = Fin x" "\<bar>x - (?s + q)\<bar> \<le> \<bar>?s + q\<bar> / 2 ^ 53 + 1 / 2 ^ 1074"
    using rnd_error [OF assms(1), of "?s + q"] by auto
  have "f_le (rnd env 0) (rnd env (?s + q))" "f_le (rnd env (?s + q)) (rnd env (real EXACT_SECS))" using sq by (simp_all add: rnd_mono [OF assms(1)])
  then have bounds: "0 \<le> x" "x \<le> real EXACT_SECS"
    using rnd_nat [OF assms(1), of 0] rnd_nat [OF assms(1), of EXACT_SECS] x(1) by (simp_all add: EXACT_SECS_def)
  have "\<bar>x - (?s + q)\<bar> \<le> 2 ^ 22 / 2 ^ 53 + 1 / 10 ^ 20" "\<bar>q - ?f\<bar> \<le> 1 / 2 ^ 53 + 1 / 10 ^ 20"
    using x(2) q(2) tiny \<open>\<bar>?s + q\<bar> \<le> 2 ^ 22\<close> f by (simp_all add: abs_of_nonneg divide_right_mono)
  moreover have "2 ^ 22 / 2 ^ 53 + 1 / 10 ^ 20 \<le> (47 / 10 ^ 11 :: real)" "1 / 2 ^ 53 + 1 / 10 ^ 20 \<le> (1 / 10 ^ 12 :: real)" by simp_all
  ultimately have "\<bar>x - (?s + q)\<bar> \<le> 47 / 10 ^ 11" "\<bar>q - ?f\<bar> \<le> 1 / 10 ^ 12" by linarith+
  then have "\<bar>x - (?s + ?f)\<bar> \<le> 47 / 10 ^ 11 + 1 / 10 ^ 12" using abs_triangle [of x "?s + q" "47 / 10 ^ 11" "?s + ?f" "1 / 10 ^ 12"] by simp
  then have "\<bar>x - (?s + ?f)\<bar> < 48 / 10 ^ 11" by (rule le_less_trans) simp
  from abs_scale [OF this, of "10 ^ 9"] have "\<bar>x * 10 ^ 9 - real d\<bar> < 49 / 100" unfolding d by (simp add: distrib_right)
  with x(1) bounds secs q(1) rnd_idem [OF assms(1) x(1)] show ?thesis by (simp add: as_secs_f64_def ns)
qed

lemma from_as_secs_exact:
  assumes "\<bar>x * real NANOS_PER_SEC - real d\<bar> < 49 / 100" "0 \<le> x" "d < EXACT_SECS * NANOS_PER_SEC"
  shows "from_secs_f64 (Fin x) = Some d"
proof -
  have "round_ties_even (x * real NANOS_PER_SEC) = int d" using assms(1) by (intro round_ties_even_eq) simp
  moreover have "int d < 2 ^ 64 * int NANOS_PER_SEC" using assms(3) by (simp add: EXACT_SECS_def NANOS_PER_SEC_def)
  ultimately show ?thesis using assms(2) by (simp add: from_secs_f64_def)
qed

section \<open>The delays\<close>

text \<open>Growing by a factor of at least one, in floats: the product does not fall below its first factor, unless that is zero and the power has overflowed.\<close>

lemma f_mul_ge:
  assumes "float_laws env" "rnd env i = Fin i" "0 \<le> i" "f_le (Fin 1) a"
  shows "f_mul env (Fin i) a = NaN \<and> i = 0 \<or> f_le (Fin i) (f_mul env (Fin i) a)"
proof (cases a)
  case (Fin s)
  then have "i \<le> i * s" using assms(3,4) mult_left_mono [of 1 s i] by simp
  from rnd_mono [OF assms(1) this] Fin assms(2) show ?thesis by (simp add: f_mul_def)
next
  case Infinity
  with assms(3) show ?thesis by (cases "i = 0") (simp_all add: f_mul_def signed_infinity_def)
qed (use assms(4) in simp_all)

lemma f_min_between:
  assumes "a = NaN \<and> i = 0 \<or> f_le (Fin i) a" "0 \<le> i" "0 \<le> m"
  shows "\<exists>y. f_min a (Fin m) = Fin y \<and> min i m \<le> y \<and> y \<le> m"
  using assms by (cases a) (auto simp: f_min_def)

lemma f_max_one: "f_le (Fin 1) (f_max a (Fin 1))"
  by (cases a) (auto simp: f_max_def)

lemma delay_without_jitter_bounds:
  assumes "float_laws env" "rp_initial_delay p < EXACT_SECS * NANOS_PER_SEC" "rp_max_delay p < EXACT_SECS * NANOS_PER_SEC"
  shows "\<exists>base. delay_without_jitter env p attempt = Some base \<and> min (rp_initial_delay p) (rp_max_delay p) \<le> base \<and> base \<le> rp_max_delay p \<and>
    (attempt \<le> 1 \<longrightarrow> base = min (rp_initial_delay p) (rp_max_delay p))"
proof -
  obtain i where i: "as_secs_f64 env (rp_initial_delay p) = Fin i" "0 \<le> i" "\<bar>i * real NANOS_PER_SEC - real (rp_initial_delay p)\<bar> < 49 / 100" "rnd env i = Fin i"
    using as_secs_f64_exact [OF assms(1,2)] by blast
  obtain m where m: "as_secs_f64 env (rp_max_delay p) = Fin m" "0 \<le> m" "\<bar>m * real NANOS_PER_SEC - real (rp_max_delay p)\<bar> < 49 / 100"
    using as_secs_f64_exact [OF assms(1,3)] by blast
  have ends: "from_secs_f64 (Fin i) = Some (rp_initial_delay p)" "from_secs_f64 (Fin m) = Some (rp_max_delay p)"
    using from_as_secs_exact i m assms(2,3) by blast+
  have least: "\<exists>l. from_secs_f64 (Fin (min i m)) = Some l \<and> min (rp_initial_delay p) (rp_max_delay p) \<le> l"
    using ends by (cases "i \<le> m") (simp_all add: min_def)
  let ?e = "int (min (attempt - 1) i32_max)" and ?b = "f_max (rp_multiplier p) (Fin 1)"
  have "f_le (Fin 1) (f_powi env ?b ?e)" using powi_ge_1 [OF assms(1) f_max_one] by simp
  from f_min_between [OF f_mul_ge [OF assms(1) i(4,2) this] i(2) m(2)] obtain y where
    y: "f_min (f_mul env (Fin i) (f_powi env ?b ?e)) (Fin m) = Fin y" "min i m \<le> y" "y \<le> m" by blast
  have y0: "0 \<le> y" using y(2) i(2) m(2) by linarith
  from from_secs_f64_mono [OF y0 y(3) ends(2)] obtain base where base: "from_secs_f64 (Fin y) = Some base" "base \<le> rp_max_delay p" by blast
  have low: "min (rp_initial_delay p) (rp_max_delay p) \<le> base"
    using from_secs_f64_mono [OF _ y(2) base(1)] least i(2) m(2) by auto
  have first: "base = min (rp_initial_delay p) (rp_max_delay p)" if "attempt \<le> 1"
  proof -
    have "f_mul env (Fin i) (f_powi env ?b ?e) = Fin i" using that powi_0 [OF assms(1)] i(4) by (simp add: f_mul_def)
    with y(1) have "y \<le> i" by (auto simp: f_min_def split: if_splits)
    with from_secs_f64_mono [OF y0 this ends(1)] base low show ?thesis by auto
  qed
  have "delay_without_jitter env p attempt = Some base" using i(1) m(1) y(1) base(1) by (simp add: delay_without_jitter_def)
  with base(2) low first show ?thesis by blast
qed

text \<open>The jitter: at most the given share of the delay, up to three nanoseconds of rounding.\<close>

lemma f_clamp_unit: "a \<noteq> NaN \<Longrightarrow> \<exists>r. f_clamp (Fin 0) (Fin 1) a = Fin r \<and> 0 \<le> r \<and> r \<le> 1"
  by (cases a) (auto simp: f_clamp_def)

lemma rnd_near:
  assumes "float_laws env" "0 \<le> x" "x \<le> 2 ^ 23"
  shows "\<exists>y. rnd env x = Fin y \<and> 0 \<le> y \<and> \<bar>y * real NANOS_PER_SEC - x * real NANOS_PER_SEC\<bar> < 95 / 100"
proof -
  have "(2 ^ 23 :: real) \<le> 2 ^ 1000" by (rule power_increasing) simp_all
  with assms(2,3) have "\<bar>x\<bar> \<le> 2 ^ 1000" by simp
  from rnd_error [OF assms(1) this] obtain y where y: "rnd env x = Fin y" "\<bar>y - x\<bar> \<le> \<bar>x\<bar> / 2 ^ 53 + 1 / 2 ^ 1074" by blast
  have "\<bar>x\<bar> / 2 ^ 53 \<le> 2 ^ 23 / 2 ^ 53" using assms(2,3) by (intro divide_right_mono) simp_all
  then have "\<bar>y - x\<bar> \<le> 2 ^ 23 / 2 ^ 53 + 1 / 10 ^ 20" using y(2) tiny by linarith
  then have "\<bar>y - x\<bar> < 95 / 10 ^ 11" by (rule le_less_trans) simp
  from abs_scale [OF this, of "real NANOS_PER_SEC"] have "\<bar>y * real NANOS_PER_SEC - x * real NANOS_PER_SEC\<bar> < 95 / 100" by (simp add: NANOS_PER_SEC_def)
  moreover have "0 \<le> y" using rnd_mono [OF assms(1,2)] rnd_nat [OF assms(1), of 0] y(1) by simp
  ultimately show ?thesis using y(1) by blast
qed

lemma from_secs_near:
  assumes "0 \<le> z" "z \<le> 2 ^ 24"
  shows "\<exists>d. from_secs_f64 (Fin z) = Some d \<and> \<bar>real d - z * real NANOS_PER_SEC\<bar> \<le> 1 / 2"
proof -
  let ?n = "round_ties_even (z * real NANOS_PER_SEC)"
  note r = round_ties_even_bounds [of "z * real NANOS_PER_SEC"]
  have "0 \<le> z * real NANOS_PER_SEC" "z * real NANOS_PER_SEC \<le> 2 ^ 24 * real NANOS_PER_SEC"
    using assms by (simp_all add: mult_right_mono)
  moreover have "2 ^ 24 * real NANOS_PER_SEC + 1 < 2 ^ 64 * real NANOS_PER_SEC" by (simp add: NANOS_PER_SEC_def)
  ultimately have "-1 < real_of_int ?n" "real_of_int ?n < real_of_int (2 ^ 64 * int NANOS_PER_SEC)" using r unfolding of_int_mult of_int_power of_int_numeral of_int_of_nat_eq
    by linarith+
  then have "0 \<le> ?n" "?n < 2 ^ 64 * int NANOS_PER_SEC" unfolding of_int_less_iff by linarith+
  with assms(1) r show ?thesis by (simp add: from_secs_f64_def Let_def)
qed

lemma jitter_near:
  assumes "float_laws env" "base < EXACT_SECS * NANOS_PER_SEC" "0 \<le> r" "r \<le> 1"
  shows "\<exists>j \<delta> d. f_mul env (as_secs_f64 env base) (Fin r) = Fin j \<and> gen_range env u (f_neg (Fin j)) (Fin j) = Some (Fin \<delta>) \<and>
    from_secs_f64 (f_max (f_add env (as_secs_f64 env base) (Fin \<delta>)) (Fin 0)) = Some d \<and> \<bar>real d - real base\<bar> \<le> r * real base + 4"
proof -
  let ?N = "real NANOS_PER_SEC"
  obtain b where b: "as_secs_f64 env base = Fin b" "0 \<le> b" "b \<le> 2 ^ 22" "\<bar>b * ?N - real base\<bar> < 49 / 100" "rnd env b = Fin b"
    using as_secs_f64_exact [OF assms(1,2)] by (auto simp: EXACT_SECS_def)
  have br: "0 \<le> b * r" "b * r \<le> b" using b(2) assms(3,4) mult_left_mono [of r 1 b] by simp_all
  obtain j where j: "rnd env (b * r) = Fin j" "0 \<le> j" "\<bar>j * ?N - b * r * ?N\<bar> < 95 / 100" using rnd_near [OF assms(1) br(1)] br(2) b(3) by auto
  have "j \<le> b" using rnd_mono [OF assms(1) br(2)] j(1) b(5) by simp
  obtain \<delta> where \<delta>: "gen_range env u (Fin (- j)) (Fin j) = Some (Fin \<delta>)" "- j \<le> \<delta>" "\<delta> \<le> j" using gen_range_in [OF assms(1), of "- j" j u] j(2) by auto
  have "0 \<le> b + \<delta>" "b + \<delta> \<le> 2 ^ 23" using \<delta>(2,3) \<open>j \<le> b\<close> b(3) by simp_all
  from rnd_near [OF assms(1) this] obtain z where z: "rnd env (b + \<delta>) = Fin z" "0 \<le> z" "\<bar>z * ?N - (b + \<delta>) * ?N\<bar> < 95 / 100" by blast
  have "(b + \<delta>) * ?N \<le> 2 ^ 23 * ?N" using \<open>b + \<delta> \<le> 2 ^ 23\<close> by (intro mult_right_mono) simp_all
  moreover have "2 ^ 23 * ?N + 1 \<le> 2 ^ 24 * ?N" by (simp add: NANOS_PER_SEC_def)
  ultimately have "z * ?N \<le> 2 ^ 24 * ?N" using z(3) by linarith
  then have "z \<le> 2 ^ 24" by (simp add: NANOS_PER_SEC_def)
  from from_secs_near [OF z(2) this] obtain d where d: "from_secs_f64 (Fin z) = Some d" "\<bar>real d - z * ?N\<bar> \<le> 1 / 2" by blast
  have "\<bar>\<delta> * ?N\<bar> \<le> j * ?N" using \<delta>(2,3) by (simp add: abs_mult abs_le_iff NANOS_PER_SEC_def)
  moreover have "b * r * ?N \<le> r * real base + 49 / 100"
  proof -
    have "r * (b * ?N) \<le> r * (real base + 49 / 100)" using b(4) assms(3) by (intro mult_left_mono) linarith+
    also have "\<dots> \<le> r * real base + 49 / 100" using assms(4) by (simp add: distrib_left)
    finally show ?thesis by (simp add: mult.commute mult.left_commute)
  qed
  moreover have "(b + \<delta>) * ?N = b * ?N + \<delta> * ?N" by (simp add: distrib_right)
  ultimately have "\<bar>real d - real base\<bar> \<le> r * real base + 4" using d(2) z(3) j(3) b(4) by linarith
  moreover have "f_max (f_add env (as_secs_f64 env base) (Fin \<delta>)) (Fin 0) = Fin z" using z(1,2) b(1) by (auto simp: f_max_def)
  ultimately show ?thesis using d(1) \<delta>(1) j(1) b(1) by (simp add: f_mul_def)
qed

text \<open>Policies for which the code computes what it means to.\<close>

definition sane_policy :: "retry_policy \<Rightarrow> bool" where
  "sane_policy p \<longleftrightarrow>
     rp_initial_delay p < EXACT_SECS * NANOS_PER_SEC \<and> rp_max_delay p < EXACT_SECS * NANOS_PER_SEC \<and> rp_jitter_ratio p \<noteq> NaN"

lemma retry_delay_sane:
  assumes "float_laws env" "sane_policy p"
  shows "\<exists>base d r. delay_without_jitter env p attempt = Some base \<and> retry_delay env p u attempt = Some d \<and>
    min (rp_initial_delay p) (rp_max_delay p) \<le> base \<and> base \<le> rp_max_delay p \<and> (attempt \<le> 1 \<longrightarrow> base = min (rp_initial_delay p) (rp_max_delay p)) \<and>
    f_clamp (Fin 0) (Fin 1) (rp_jitter_ratio p) = Fin r \<and> \<bar>real d - real base\<bar> \<le> r * real base + 4 \<and> (f_le (rp_jitter_ratio p) (Fin 0) \<longrightarrow> d = base)"
proof -
  have sane: "rp_initial_delay p < EXACT_SECS * NANOS_PER_SEC" "rp_max_delay p < EXACT_SECS * NANOS_PER_SEC" "rp_jitter_ratio p \<noteq> NaN"
    using assms(2) by (simp_all add: sane_policy_def)
  obtain base where base: "delay_without_jitter env p attempt = Some base" "min (rp_initial_delay p) (rp_max_delay p) \<le> base" "base \<le> rp_max_delay p"
    "attempt \<le> 1 \<longrightarrow> base = min (rp_initial_delay p) (rp_max_delay p)"
    using delay_without_jitter_bounds [OF assms(1) sane(1,2)] by blast
  obtain r where r: "f_clamp (Fin 0) (Fin 1) (rp_jitter_ratio p) = Fin r" "0 \<le> r" "r \<le> 1" using f_clamp_unit [OF sane(3)] by blast
  have "base < EXACT_SECS * NANOS_PER_SEC" using base(3) sane(2) by simp
  note j = jitter_near [OF assms(1) this r(2,3), of u]
  have "\<exists>d. retry_delay env p u attempt = Some d \<and> \<bar>real d - real base\<bar> \<le> r * real base + 4 \<and> (f_le (rp_jitter_ratio p) (Fin 0) \<longrightarrow> d = base)"
  proof (cases "f_le (rp_jitter_ratio p) (Fin 0) \<or> base = 0")
    case True
    with base(1) r(2) show ?thesis by (intro exI [of _ base]) (auto simp: retry_delay_def)
  next
    case False
    with base(1) r(1) j show ?thesis by (auto simp: retry_delay_def)
  qed
  with base r(1) show ?thesis by blast
qed

section \<open>Properties\<close>

text \<open>C18. A retry policy with an initial and a maximal delay below 48 days and a jitter ratio that is a number never panics, whatever the multiplier and the attempt: the delay
  without jitter lies between the smaller of the two delays and the maximum, is the smaller of the two at the first attempt, and the jitter moves it by at most
  its share of the delay, up to four nanoseconds of rounding.\<close>

theorem retry_delay_bounds:
  assumes "float_laws env" "sane_policy p"
  shows "\<exists>base d r. delay_without_jitter env p attempt = Some base \<and> retry_delay env p u attempt = Some d \<and>
    min (rp_initial_delay p) (rp_max_delay p) \<le> base \<and> base \<le> rp_max_delay p \<and> (attempt \<le> 1 \<longrightarrow> base = min (rp_initial_delay p) (rp_max_delay p)) \<and>
    f_clamp (Fin 0) (Fin 1) (rp_jitter_ratio p) = Fin r \<and> \<bar>real d - real base\<bar> \<le> r * real base + 4 \<and> (f_le (rp_jitter_ratio p) (Fin 0) \<longrightarrow> d = base)"
  using assms by (rule retry_delay_sane)

text \<open>Exact arithmetic with a generator that answers the upper end, for the instance below.\<close>

definition exact_env :: "unit float_env" where
  "exact_env = \<lparr>rnd = Fin,
     f_powi = (\<lambda>x n. if n = 0 then Fin 1 else case x of Fin a \<Rightarrow> Fin (a ^ nat n) | y \<Rightarrow> y),
     gen_range = (\<lambda>_ a b. if f_le a b then Some b else None)\<rparr>"

lemma exact_env_laws: "float_laws exact_env"
proof -
  have "f_le (Fin 1) (f_powi exact_env x n)" if "f_le (Fin 1) x" "0 \<le> n" for x n
    using that by (cases x) (auto simp: exact_env_def one_le_power)
  then show ?thesis by (simp add: float_laws_def exact_env_def)
qed

lemma exact_env_sane: "sane_policy (retry_policy_default exact_env)"
  by (simp add: sane_policy_def retry_policy_default_def exact_env_def EXACT_SECS_def NANOS_PER_SEC_def)

theorem retry_delay_bounds_witness:
  "\<exists>base d. delay_without_jitter exact_env (retry_policy_default exact_env) 9 = Some base \<and> retry_delay exact_env (retry_policy_default exact_env) () 9 = Some d \<and>
     250 * 1000000 \<le> base \<and> base \<le> 30 * 1000000000"
proof -
  from retry_delay_bounds [OF exact_env_laws exact_env_sane, of 9 "()"] show ?thesis
    by (auto simp: retry_policy_default_def NANOS_PER_SEC_def)
qed

section \<open>What the code leaves open\<close>

text \<open>A jitter ratio that is not a number panics in the generator as soon as there is a delay.\<close>

lemma nan_jitter_panics:
  assumes "float_laws env" "rp_jitter_ratio p = NaN" "delay_without_jitter env p attempt = Some base" "0 < base"
  shows "retry_delay env p u attempt = None"
proof -
  have "f_mul env x NaN = NaN" for x by (cases x) (simp_all add: f_mul_def signed_infinity_def)
  moreover have "gen_range env u NaN NaN = None" using gen_range_empty [OF assms(1)] by simp
  ultimately show ?thesis using assms(2-4) by (simp add: retry_delay_def f_clamp_def)
qed

text \<open>Without an initial delay there is none, until the power overflows: then zero times infinity is not a number, \<^verbatim>\<open>min\<close> drops it, and the delay is the maximum.\<close>

lemma zero_initial_delay_jumps:
  assumes "float_laws env" "rp_initial_delay p = 0" "rp_max_delay p < EXACT_SECS * NANOS_PER_SEC"
    and "f_powi env (f_max (rp_multiplier p) (Fin 1)) (int (min (attempt - 1) i32_max)) = a"
  shows "(a = Infinity \<longrightarrow> delay_without_jitter env p attempt = Some (rp_max_delay p)) \<and>
    (\<forall>x. a = Fin x \<longrightarrow> delay_without_jitter env p attempt = Some 0)"
proof -
  obtain m where m: "as_secs_f64 env (rp_max_delay p) = Fin m" "0 \<le> m" "\<bar>m * real NANOS_PER_SEC - real (rp_max_delay p)\<bar> < 49 / 100"
    using as_secs_f64_exact [OF assms(1,3)] by blast
  have z: "rnd env 0 = Fin 0" using rnd_nat [OF assms(1), of 0] by simp
  then have "as_secs_f64 env (rp_initial_delay p) = Fin 0" by (simp add: as_secs_f64_def assms(2))
  moreover have "from_secs_f64 (Fin m) = Some (rp_max_delay p)" using from_as_secs_exact [OF m(3,2) assms(3)] .
  ultimately show ?thesis using m(1,2) assms(4) z
    by (auto simp: delay_without_jitter_def f_mul_def signed_infinity_def f_min_def from_secs_f64_def round_ties_even_def NANOS_PER_SEC_def)
qed

text \<open>A maximal delay that becomes \<open>2 ^ 64\<close> as a float, as the longest duration does, panics once the delay reaches it.\<close>

lemma huge_max_delay_panics:
  assumes "as_secs_f64 env (rp_max_delay p) = Fin m" "2 ^ 64 \<le> m"
    and "f_mul env (as_secs_f64 env (rp_initial_delay p)) (f_powi env (f_max (rp_multiplier p) (Fin 1)) (int (min (attempt - 1) i32_max))) = Infinity"
  shows "retry_delay env p u attempt = None"
proof -
  have "2 ^ 64 * real NANOS_PER_SEC \<le> m * real NANOS_PER_SEC" using assms(2) by (intro mult_right_mono) simp_all
  then have "real_of_int (2 ^ 64 * int NANOS_PER_SEC) - 1 / 2 \<le> real_of_int (round_ties_even (m * real NANOS_PER_SEC))"
    using round_ties_even_bounds [of "m * real NANOS_PER_SEC"] unfolding of_int_mult of_int_power of_int_numeral of_int_of_nat_eq by linarith
  then have "\<not> round_ties_even (m * real NANOS_PER_SEC) < 2 ^ 64 * int NANOS_PER_SEC" by linarith
  with assms show ?thesis by (simp add: retry_delay_def delay_without_jitter_def f_min_def from_secs_f64_def Let_def)
qed

end
