(* ===== verification/Supervisor.thy ===== *)
theory Supervisor
  imports Exceptions Retry
begin

text \<open>
  \<^verbatim>\<open>base_rpc/src/stream_supervisor.rs\<close> over the retry policy of \<^verbatim>\<open>Retry\<close>: a task that keeps a stream connected, gives every connection a generation and its own cancellation token, and
  publishes its state on a watch channel.

  The connector is the application's. It may report its connection at any time through the reporter
  it was handed, also from tasks that outlive the connection; \<^verbatim>\<open>connected\<close> reads the state and publishes in
  two separate steps, so the model has two events for it and a list of the calls between them.
  The task sleeps for the delay of its policy, which can panic; when it wakes is the environment's choice. The watch channel
  is assumed to have a receiver: the handle holds one.
\<close>

section \<open>Model\<close>

definition u32_max :: nat where
  "u32_max = 2 ^ 32 - 1"

datatype connection_state =
  Idle
| Connecting nat nat
| Connected nat
| Disconnected nat string
| Stopped

datatype control =
  AtTop       \<comment> \<open>at the head of the loop\<close>
| Running     \<comment> \<open>in \<^verbatim>\<open>connect_and_run\<close>\<close>
| Sleeping    \<comment> \<open>between two attempts\<close>
| Finished    \<comment> \<open>the task has ended\<close>
| Panicked    \<comment> \<open>the connector panicked and took the task with it\<close>
| DelayPanicked   \<comment> \<open>the delay of the policy panicked\<close>

record supervisor =
  sv_control :: control
  sv_generation :: nat
  sv_attempt :: nat
  sv_state :: connection_state
  sv_cancelled :: bool
  sv_ended :: "nat list"      \<comment> \<open>generations whose connection token was cancelled\<close>
  sv_reports :: "nat list"    \<comment> \<open>\<^verbatim>\<open>connected\<close> calls that have passed their test\<close>
  sv_delay :: nat             \<comment> \<open>the sleep between two attempts\<close>
  sv_connects :: nat          \<comment> \<open>calls of \<^verbatim>\<open>connect_and_run\<close> so far\<close>

definition sv_init :: supervisor where
  "sv_init = \<lparr>sv_control = AtTop, sv_generation = 0, sv_attempt = 0, sv_state = Idle, sv_cancelled = False,
     sv_ended = [], sv_reports = [], sv_delay = 0, sv_connects = 0\<rparr>"

text \<open>Leaving the loop.\<close>

definition sv_stop :: "supervisor \<Rightarrow> supervisor" where
  "sv_stop s = s\<lparr>sv_control := Finished, sv_state := Stopped\<rparr>"

definition loop_head :: "nat option \<Rightarrow> supervisor \<Rightarrow> supervisor" where
  "loop_head max_attempts s =
     (if sv_cancelled s then sv_stop s
      else let attempt = sat_add u32_max (sv_attempt s) 1; s1 = s\<lparr>sv_attempt := attempt\<rparr> in
           if \<not> permits max_attempts attempt then sv_stop s1
           else let generation = sat_add u64_max (sv_generation s1) 1 in
                s1\<lparr>sv_generation := generation, sv_state := Connecting generation attempt,
                   sv_control := Running, sv_connects := Suc (sv_connects s1)\<rparr>)"

text \<open>\<open>connect_and_run\<close> returned \<^verbatim>\<open>Ok(())\<close> (\<open>None\<close>) or an error with its message; \<open>u\<close> is the random choice of the delay that follows.\<close>

definition connection_ends :: "'u float_env \<Rightarrow> retry_policy \<Rightarrow> string option \<Rightarrow> 'u \<Rightarrow> supervisor \<Rightarrow> supervisor" where
  "connection_ends env p result u s =
     (let s1 = s\<lparr>sv_ended := sv_generation s # sv_ended s\<rparr> in
      if sv_cancelled s1 then sv_stop s1
      else let reason = (case result of None \<Rightarrow> ''connection ended'' | Some error \<Rightarrow> error);
               s2 = s1\<lparr>sv_state := Disconnected (sv_generation s1) reason\<rparr> in
           case retry_delay env p u (sv_attempt s2) of
             None \<Rightarrow> s2\<lparr>sv_control := DelayPanicked\<rparr>
           | Some d \<Rightarrow> s2\<lparr>sv_control := Sleeping, sv_delay := d\<rparr>)"

definition is_current :: "nat \<Rightarrow> connection_state \<Rightarrow> bool" where
  "is_current g st = (case st of Connecting g' _ \<Rightarrow> g' = g | Connected g' \<Rightarrow> g' = g | _ \<Rightarrow> False)"

definition child_cancelled :: "supervisor \<Rightarrow> nat \<Rightarrow> bool" where
  "child_cancelled s g \<longleftrightarrow> sv_cancelled s \<or> g \<in> set (sv_ended s)"

datatype 'u sv_event =
  LoopHead
| ConnectionEnds "string option" 'u
| ConnectorPanics
| Wakes                 \<comment> \<open>\<^verbatim>\<open>sleep(delay)\<close> completes\<close>
| SleepCancelled        \<comment> \<open>\<^verbatim>\<open>task_cancel.cancelled()\<close> wins the \<^verbatim>\<open>select!\<close>\<close>
| ReportTest nat        \<comment> \<open>first half of \<^verbatim>\<open>ConnectionReporter::connected\<close> of a generation\<close>
| ReportSend nat        \<comment> \<open>second half\<close>
| Shutdown              \<comment> \<open>\<^verbatim>\<open>StreamSupervisorHandle::shutdown\<close> cancels the token\<close>

text \<open>One atomic step; \<open>None\<close> when the event cannot happen in that state.\<close>

fun sv_step :: "'u float_env \<Rightarrow> retry_policy \<Rightarrow> supervisor \<Rightarrow> 'u sv_event \<Rightarrow> supervisor option" where
  "sv_step env p s LoopHead = (if sv_control s = AtTop then Some (loop_head (rp_max_attempts p) s) else None)"
| "sv_step env p s (ConnectionEnds r u) = (if sv_control s = Running then Some (connection_ends env p r u s) else None)"
| "sv_step env p s ConnectorPanics = (if sv_control s = Running then Some (s\<lparr>sv_control := Panicked\<rparr>) else None)"
| "sv_step env p s Wakes = (if sv_control s = Sleeping then Some (s\<lparr>sv_control := AtTop\<rparr>) else None)"
| "sv_step env p s SleepCancelled =
     (if sv_control s = Sleeping \<and> sv_cancelled s then Some (sv_stop s) else None)"
| "sv_step env p s (ReportTest g) =
     (if 0 < g \<and> g \<le> sv_generation s
      then Some (if is_current g (sv_state s) then s\<lparr>sv_reports := g # sv_reports s\<rparr> else s)
      else None)"
| "sv_step env p s (ReportSend g) =
     (if g \<in> set (sv_reports s)
      then Some (s\<lparr>sv_reports := remove1 g (sv_reports s), sv_state := Connected g\<rparr>)
      else None)"
| "sv_step env p s Shutdown = Some (s\<lparr>sv_cancelled := True\<rparr>)"

text \<open>\<^verbatim>\<open>BoundedQueue\<close>: the two ends of a channel, made by \<open>channel\<close>; no capacity panics.\<close>

record ('tx, 'rx) bounded_queue =
  bq_sender :: 'tx
  bq_receiver :: 'rx

definition bounded_queue_new :: "(nat \<Rightarrow> 'tx \<times> 'rx) \<Rightarrow> nat \<Rightarrow> ('tx, 'rx) bounded_queue option" where
  "bounded_queue_new channel capacity =
     (if capacity = 0 then None else case channel capacity of (tx, rx) \<Rightarrow> Some \<lparr>bq_sender = tx, bq_receiver = rx\<rparr>)"

definition queue_sender :: "('tx, 'rx) bounded_queue \<Rightarrow> 'tx" where
  "queue_sender q = bq_sender q"

definition into_receiver :: "('tx, 'rx) bounded_queue \<Rightarrow> 'rx" where
  "into_receiver q = bq_receiver q"

text \<open>The same system with a connector whose reporting calls have all returned when its
  \<open>connect_and_run\<close> returns.\<close>

fun quiet_step :: "'u float_env \<Rightarrow> retry_policy \<Rightarrow> supervisor \<Rightarrow> 'u sv_event \<Rightarrow> supervisor option" where
  "quiet_step env p s (ConnectionEnds r u) = (if sv_reports s = [] then sv_step env p s (ConnectionEnds r u) else None)"
| "quiet_step env p s e = sv_step env p s e"

text \<open>The events of the task itself.\<close>

fun own_event :: "'u sv_event \<Rightarrow> bool" where
  "own_event (ReportTest _) = False"
| "own_event (ReportSend _) = False"
| "own_event Shutdown = False"
| "own_event _ = True"

section \<open>Invariants\<close>

lemmas sv_defs = loop_head_def sv_stop_def connection_ends_def Let_def sat_simps

text \<open>Numbering: one generation per connection, one attempt per connection, never reset.\<close>

definition counts_ok :: "nat option \<Rightarrow> supervisor \<Rightarrow> bool" where
  "counts_ok m s \<longleftrightarrow>
     sv_generation s = min u64_max (sv_connects s) \<and>
     (sv_control s \<noteq> Finished \<longrightarrow> sv_attempt s = min u32_max (sv_connects s)) \<and>
     (\<forall>k. m = Some k \<longrightarrow> k < u32_max \<longrightarrow> sv_connects s \<le> k)"

lemma counts_ok_step: "counts_ok (rp_max_attempts p) s \<Longrightarrow> sv_step env p s e = Some s' \<Longrightarrow> counts_ok (rp_max_attempts p) s'"
  by (cases e) (auto simp: counts_ok_def sv_defs permits_def split: if_splits option.splits)

text \<open>Tokens: every generation but the running one has been told to stop.\<close>

definition tokens_ok :: "supervisor \<Rightarrow> bool" where
  "tokens_ok s \<longleftrightarrow>
     (\<forall>g. 0 < g \<and> g < sv_generation s \<longrightarrow> g \<in> set (sv_ended s)) \<and>
     (sv_control s \<noteq> Running \<and> sv_control s \<noteq> Panicked \<and> 0 < sv_generation s \<longrightarrow> sv_generation s \<in> set (sv_ended s))"

lemma tokens_ok_step:
  assumes "tokens_ok s" "sv_step env p s e = Some s'"
  shows "tokens_ok s'"
proof (cases e)
  case LoopHead
  with assms have top: "sv_control s = AtTop" and s': "s' = loop_head (rp_max_attempts p) s" by (auto split: if_splits)
  have all: "{0<..sv_generation s} \<subseteq> set (sv_ended s)"
  proof
    fix g assume "g \<in> {0<..sv_generation s}"
    then show "g \<in> set (sv_ended s)"
      using assms(1) top by (cases "g = sv_generation s") (auto simp: tokens_ok_def)
  qed
  have gen: "sv_generation s' = sv_generation s \<and> sv_control s' = Finished \<or>
      sv_generation s' \<le> Suc (sv_generation s) \<and> sv_control s' = Running"
    and ended: "sv_ended s' = sv_ended s"
    by (auto simp: s' sv_defs)
  have "0 < g \<and> g < sv_generation s' \<longrightarrow> g \<in> {0<..sv_generation s}" for g using gen by auto
  with all gen ended show ?thesis by (auto simp: tokens_ok_def)
qed (use assms in \<open>auto simp: tokens_ok_def sv_defs split: if_splits option.splits\<close>)

text \<open>The published state follows the task, when reports do not outlive their connection.\<close>

definition state_follows :: "supervisor \<Rightarrow> bool" where
  "state_follows s =
     (case sv_control s of
        AtTop \<Rightarrow> sv_state s = Idle \<or> (\<exists>r. sv_state s = Disconnected (sv_generation s) r)
      | Sleeping \<Rightarrow> (\<exists>r. sv_state s = Disconnected (sv_generation s) r)
      | DelayPanicked \<Rightarrow> (\<exists>r. sv_state s = Disconnected (sv_generation s) r)
      | Finished \<Rightarrow> sv_state s = Stopped
      | _ \<Rightarrow> is_current (sv_generation s) (sv_state s))"

definition quiet_ok :: "supervisor \<Rightarrow> bool" where
  "quiet_ok s \<longleftrightarrow> state_follows s \<and>
     (sv_control s \<in> {AtTop, Sleeping, DelayPanicked, Finished} \<longrightarrow> sv_reports s = []) \<and>
     (\<forall>g\<in>set (sv_reports s). g = sv_generation s)"

lemma quiet_ok_step:
  assumes "quiet_ok s" "quiet_step env p s e = Some s'"
  shows "quiet_ok s'"
proof (cases e)
  case (ReportTest g)
  with assms show ?thesis
    by (cases "sv_state s"; cases "sv_control s")
      (auto simp: quiet_ok_def state_follows_def is_current_def split: if_splits)
next
  case Shutdown
  with assms show ?thesis by (cases "sv_control s") (auto simp: quiet_ok_def state_follows_def)
next
  case (ReportSend g)
  with assms show ?thesis
    by (cases "sv_control s")
      (auto simp: quiet_ok_def state_follows_def is_current_def dest: notin_set_remove1 split: if_splits)
qed (use assms in \<open>auto simp: quiet_ok_def state_follows_def is_current_def sv_defs split: if_splits option.splits\<close>)

interpretation counts: inductive_system "\<lambda>s s'. \<exists>e. sv_step env p s e = Some s'" "counts_ok (rp_max_attempts p)" for env :: "'u float_env" and p
  by unfold_locales (auto intro: counts_ok_step)

interpretation tokens: inductive_system "\<lambda>s s'. \<exists>e. sv_step env p s e = Some s'" tokens_ok for env :: "'u float_env" and p
  by unfold_locales (auto intro: tokens_ok_step)

interpretation quiet: inductive_system "\<lambda>s s'. \<exists>e. quiet_step env p s e = Some s'" quiet_ok for env :: "'u float_env" and p
  by unfold_locales (auto intro: quiet_ok_step)

lemma run_steps_reachable:
  "run_steps step s es = Some s' \<Longrightarrow> (\<lambda>s s'. \<exists>e. step s e = Some s')\<^sup>*\<^sup>* s s'"
proof (induction es arbitrary: s)
  case (Cons e es)
  then obtain s1 where "step s e = Some s1" "run_steps step s1 es = Some s'"
    by (auto simp: bind_eq_Some_conv)
  with Cons.IH show ?case by (blast intro: converse_rtranclp_into_rtranclp)
qed simp

lemma run_steps_append:
  "run_steps step s xs = Some t \<Longrightarrow> run_steps step t ys = Some u \<Longrightarrow> run_steps step s (xs @ ys) = Some u"
  by (induction xs arbitrary: s) (auto simp: bind_eq_Some_conv)

lemma sv_run_ok:
  assumes "run_steps (sv_step env p) sv_init es = Some s"
  shows "counts_ok (rp_max_attempts p) s" "tokens_ok s"
  using counts.reachable_inv [OF run_steps_reachable [OF assms]] tokens.reachable_inv [OF run_steps_reachable [OF assms]]
  by (auto simp: counts_ok_def tokens_ok_def sv_init_def)

section \<open>Shutdown\<close>

text \<open>How many more steps of the task a shutdown needs at most.\<close>

fun remaining_steps :: "control \<Rightarrow> nat" where
  "remaining_steps AtTop = 1"
| "remaining_steps Running = 1"
| "remaining_steps Sleeping = 2"
| "remaining_steps _ = 0"

lemma own_step_cancelled:
  assumes "sv_cancelled s" "sv_step env p s e = Some s'" "own_event e"
  shows "sv_cancelled s' \<and> remaining_steps (sv_control s') < remaining_steps (sv_control s)"
  using assms by (cases e) (auto simp: sv_defs split: if_splits)

lemma other_step_cancelled:
  assumes "sv_cancelled s" "sv_step env p s e = Some s'" "\<not> own_event e"
  shows "sv_cancelled s' \<and> sv_control s' = sv_control s"
  using assms by (cases e) (auto split: if_splits)

lemma cancelled_run:
  assumes "sv_cancelled s" "run_steps (sv_step env p) s es = Some s'"
  shows "length (filter own_event es) + remaining_steps (sv_control s') \<le> remaining_steps (sv_control s)"
  using assms
proof (induction es arbitrary: s)
  case (Cons e es)
  then obtain s1 where s1: "sv_step env p s e = Some s1" "run_steps (sv_step env p) s1 es = Some s'"
    by (auto simp: bind_eq_Some_conv)
  show ?case
  proof (cases "own_event e")
    case True
    with own_step_cancelled [OF Cons.prems(1) s1(1)] Cons.IH [OF _ s1(2)] show ?thesis by simp
  next
    case False
    with other_step_cancelled [OF Cons.prems(1) s1(1)] Cons.IH [OF _ s1(2)] show ?thesis by simp
  qed
qed simp

lemma cancelled_can_stop:
  assumes "sv_cancelled s" "sv_control s \<noteq> Panicked" "sv_control s \<noteq> DelayPanicked" "sv_control s \<noteq> Finished"
  shows "\<exists>e s'. own_event e \<and> sv_step env p s e = Some s' \<and> sv_control s' = Finished \<and> sv_state s' = Stopped"
proof (cases "sv_control s")
  case AtTop
  with assms show ?thesis by (intro exI [of _ LoopHead]) (simp add: sv_defs)
next
  case Running
  with assms show ?thesis by (intro exI [of _ "ConnectionEnds None u" for u]) (simp add: sv_defs)
next
  case Sleeping
  with assms show ?thesis by (intro exI [of _ SleepCancelled]) (simp add: sv_defs)
qed (use assms in simp_all)

lemma cancelled_stays:
  assumes "sv_cancelled s" "run_steps (sv_step env p) s es = Some s'"
  shows "sv_cancelled s'"
  using assms
proof (induction es arbitrary: s)
  case (Cons e es)
  then obtain s1 where s1: "sv_step env p s e = Some s1" "run_steps (sv_step env p) s1 es = Some s'"
    by (auto simp: bind_eq_Some_conv)
  with own_step_cancelled [OF Cons.prems(1) s1(1)] other_step_cancelled [OF Cons.prems(1) s1(1)]
  show ?case by (intro Cons.IH [OF _ s1(2)]) blast
qed simp

text \<open>With a sane policy the task never dies of its delay, and no sleep is longer than twice the maximal delay.\<close>

definition sleep_ok :: "retry_policy \<Rightarrow> supervisor \<Rightarrow> bool" where
  "sleep_ok p s \<longleftrightarrow> sv_control s \<noteq> DelayPanicked \<and> sv_delay s \<le> 2 * rp_max_delay p + 4"

lemma retry_delay_le:
  assumes "float_laws env" "sane_policy p"
  shows "\<exists>d. retry_delay env p u attempt = Some d \<and> d \<le> 2 * rp_max_delay p + 4"
proof -
  obtain base d r where d: "retry_delay env p u attempt = Some d" "base \<le> rp_max_delay p" "\<bar>real d - real base\<bar> \<le> r * real base + 4"
    "f_clamp (Fin 0) (Fin 1) (rp_jitter_ratio p) = Fin r" using retry_delay_sane [OF assms] by blast
  have "rp_jitter_ratio p \<noteq> NaN" using assms(2) by (simp add: sane_policy_def)
  from f_clamp_unit [OF this] d(4) have "0 \<le> r" "r \<le> 1" by auto
  then have "r * real base \<le> real base" using mult_right_mono [of r 1 "real base"] by simp
  with d(2,3) have "real d \<le> 2 * real (rp_max_delay p) + 4" by linarith
  then have "d \<le> 2 * rp_max_delay p + 4" by linarith
  with d(1) show ?thesis by blast
qed

lemma sleep_ok_step:
  assumes "float_laws env" "sane_policy p" "sleep_ok p s" "sv_step env p s e = Some s'"
  shows "sleep_ok p s'"
proof (cases e)
  case (ConnectionEnds r u)
  obtain d where "retry_delay env p u (sv_attempt s) = Some d" "d \<le> 2 * rp_max_delay p + 4" using retry_delay_le [OF assms(1,2)] by blast
  with ConnectionEnds assms(3,4) show ?thesis by (simp add: sleep_ok_def sv_defs split: if_splits) auto
qed (use assms(3,4) in \<open>auto simp: sleep_ok_def sv_defs split: if_splits\<close>)

interpretation sleeps: inductive_system "\<lambda>s s'. \<exists>e. sv_step env p s e = Some s'" "\<lambda>s. float_laws env \<and> sane_policy p \<and> sleep_ok p s"
  for env :: "'u float_env" and p
  by unfold_locales (auto intro: sleep_ok_step)

lemma delay_never_panics:
  assumes "float_laws env" "sane_policy p" "run_steps (sv_step env p) sv_init es = Some s"
  shows "sv_control s \<noteq> DelayPanicked \<and> sv_delay s \<le> 2 * rp_max_delay p + 4"
  using sleeps.reachable_inv [OF run_steps_reachable [OF assms(3)]] assms(1,2) by (simp add: sleep_ok_def sv_init_def)

section \<open>Properties\<close>

text \<open>C16. In every interleaving of the task with reporters and shutdown: a limit \<open>k\<close> below the largest
  \<^verbatim>\<open>u32\<close> bounds the connections over the whole life of the supervisor (a successful connection does not
  give attempts back); generations number the connections; and every generation but the one that is
  running has had its token cancelled, so at most one connection is told to live.\<close>

theorem supervisor_connections:
  assumes "run_steps (sv_step env p) sv_init es = Some s"
  shows "(\<forall>k. rp_max_attempts p = Some k \<and> k < u32_max \<longrightarrow> sv_connects s \<le> k) \<and>
    sv_generation s = min u64_max (sv_connects s) \<and>
    (\<forall>g. 0 < g \<and> g \<le> sv_generation s \<and> \<not> child_cancelled s g \<longrightarrow>
       g = sv_generation s \<and> sv_control s \<in> {Running, Panicked})"
proof (intro conjI)
  note ok = sv_run_ok [OF assms]
  show "\<forall>k. rp_max_attempts p = Some k \<and> k < u32_max \<longrightarrow> sv_connects s \<le> k" "sv_generation s = min u64_max (sv_connects s)"
    using ok(1) by (simp_all add: counts_ok_def)
  show "\<forall>g. 0 < g \<and> g \<le> sv_generation s \<and> \<not> child_cancelled s g \<longrightarrow>
      g = sv_generation s \<and> sv_control s \<in> {Running, Panicked}"
  proof (intro allI impI)
    fix g assume g: "0 < g \<and> g \<le> sv_generation s \<and> \<not> child_cancelled s g"
    then have "g \<notin> set (sv_ended s)" by (simp add: child_cancelled_def)
    moreover from this have "g = sv_generation s" using ok(2) g by (cases "g = sv_generation s") (auto simp: tokens_ok_def)
    ultimately show "g = sv_generation s \<and> sv_control s \<in> {Running, Panicked}" using ok(2) g by (auto simp: tokens_ok_def)
  qed
qed

theorem supervisor_connections_witness:
  "\<exists>s. run_steps (sv_step exact_env ((retry_policy_default exact_env)\<lparr>rp_max_attempts := Some 1\<rparr>)) sv_init
         [LoopHead, ReportTest 1, ReportSend 1, ConnectionEnds None (), Wakes, LoopHead] = Some s \<and>
       sv_connects s \<le> 1"
proof -
  define p where "p = (retry_policy_default exact_env)\<lparr>rp_max_attempts := Some 1\<rparr>"
  have p: "sane_policy p" "rp_max_attempts p = Some 1" using exact_env_sane by (simp_all add: p_def sane_policy_def)
  obtain d where "retry_delay exact_env p () 1 = Some d" using retry_delay_le [OF exact_env_laws p(1), of "()" 1] by blast
  with p(2) obtain s where s: "run_steps (sv_step exact_env p) sv_init
      [LoopHead, ReportTest 1, ReportSend 1, ConnectionEnds None (), Wakes, LoopHead] = Some s"
    by (simp add: sv_init_def sv_defs permits_def is_current_def u32_max_def u64_max_def)
  with supervisor_connections [OF s] p(2) show ?thesis unfolding p_def by (simp add: u32_max_def)
qed

text \<open>C17. When the connector's reporting calls return before its connection does, the published state
  always tells where the task is: \<^verbatim>\<open>Connected\<close> names the generation that is running, \<^verbatim>\<open>Disconnected\<close> the last
  one that ended, and after the task has ended the state is \<^verbatim>\<open>Stopped\<close> and stays it.\<close>

theorem supervisor_state_follows:
  assumes "run_steps (quiet_step env p) sv_init es = Some s"
  shows "state_follows s \<and> (\<forall>g. sv_state s = Connected g \<longrightarrow> g = sv_generation s \<and> sv_control s \<in> {Running, Panicked})"
proof -
  have "quiet_ok sv_init" by (simp add: quiet_ok_def state_follows_def sv_init_def)
  with quiet.reachable_inv [OF run_steps_reachable [OF assms]] have "quiet_ok s" .
  then have "state_follows s" by (simp add: quiet_ok_def)
  then show ?thesis by (cases "sv_control s") (auto simp: state_follows_def is_current_def)
qed

theorem supervisor_state_follows_witness:
  "\<exists>s. run_steps (quiet_step exact_env (retry_policy_default exact_env)) sv_init [LoopHead, ReportTest 1, ReportSend 1, Shutdown, ConnectionEnds None ()] = Some s
       \<and> sv_state s = Stopped"
proof -
  obtain s where s: "run_steps (quiet_step exact_env (retry_policy_default exact_env)) sv_init [LoopHead, ReportTest 1, ReportSend 1, Shutdown, ConnectionEnds None ()] = Some s"
    and c: "sv_control s = Finished"
    by (simp add: sv_init_def sv_defs permits_def is_current_def u32_max_def u64_max_def retry_policy_default_def)
  with supervisor_state_follows [OF s] show ?thesis by (simp add: state_follows_def)
qed

text \<open>C32. Once shutdown was requested the task takes at most two more steps of its own, whatever reporters
  do meanwhile, and with a sane retry policy, unless the connector panicked, it can always take one that ends it with \<^verbatim>\<open>Stopped\<close>:
  waiting for the task in \<^verbatim>\<open>shutdown\<close> ends as soon as the connector returns.\<close>

theorem shutdown_terminates:
  assumes "float_laws env" "sane_policy p" "run_steps (sv_step env p) sv_init before = Some s" "sv_cancelled s" "run_steps (sv_step env p) s es = Some s'"
  shows "length (filter own_event es) \<le> 2 \<and>
    (sv_control s' \<notin> {Panicked, Finished} \<longrightarrow>
       (\<exists>e s''. own_event e \<and> sv_step env p s' e = Some s'' \<and> sv_control s'' = Finished \<and> sv_state s'' = Stopped))"
proof -
  have "remaining_steps (sv_control s) \<le> 2" by (cases "sv_control s") simp_all
  with cancelled_run [OF assms(4,5)] have "length (filter own_event es) \<le> 2" by linarith
  moreover have "sv_control s' \<noteq> DelayPanicked"
    using delay_never_panics [OF assms(1,2)] run_steps_append [OF assms(3,5)] by blast
  ultimately show ?thesis using cancelled_can_stop cancelled_stays [OF assms(4,5)] by blast
qed

theorem shutdown_terminates_witness:
  "\<exists>e s''. own_event e \<and> sv_step exact_env (retry_policy_default exact_env) (sv_init\<lparr>sv_cancelled := True\<rparr>) e = Some s'' \<and> sv_state s'' = Stopped"
  using shutdown_terminates [OF exact_env_laws exact_env_sane, of "[Shutdown]" "sv_init\<lparr>sv_cancelled := True\<rparr>" "[]" "sv_init\<lparr>sv_cancelled := True\<rparr>"]
  by (auto simp: sv_init_def)

text \<open>Without that discipline the published state can be wrong for good: a reporter that read the state
  just before its connection ended publishes \<^verbatim>\<open>Connected\<close> afterwards, also over \<^verbatim>\<open>Stopped\<close> of a task that has
  ended.\<close>

lemma stale_report_overwrites_stopped:
  "rp_max_attempts p = None \<Longrightarrow> \<exists>es s. run_steps (sv_step env p) sv_init es = Some s \<and> sv_control s = Finished \<and> sv_state s = Connected 1"
  by (rule exI [of _ "[LoopHead, ReportTest 1, Shutdown, ConnectionEnds None u, ReportSend 1]" for u])
    (simp add: sv_init_def sv_defs permits_def is_current_def u32_max_def u64_max_def)

end
