(* ===== verification/Daemon.thy ===== *)
theory Daemon
  imports Strings
begin

text \<open>
  Configuration start-up (\<^verbatim>\<open>macros/cfg_lib/src/conf.rs\<close>) and the service commands of
  \<^verbatim>\<open>base/src/daemon/mod.rs\<close> and \<^verbatim>\<open>base/src/daemon/unix.rs\<close>: start, stop, restart and status of a service that
  is known by a PID file and remembers how it was started in a meta file.

  The operating system's answers are arguments: the result of \<^verbatim>\<open>kill(pid, 0)\<close> at each probe, the outcome
  of the \<^verbatim>\<open>kill\<close> commands, the clock at each round of the waiting loop, what \<^verbatim>\<open>daemonize\<close> returns. The meta
  file holds the record itself (its JSON form is the library's). A PID file that cannot be opened is
  \<open>None\<close>; one that opens has a text, or its reading fails (an error of the system, or bytes that are not UTF-8).
\<close>

section \<open>Configuration\<close>

type_synonym validator = "string \<Rightarrow> string option option"   \<comment> \<open>from the configuration text: the complaint, if any; \<open>None\<close> is a panic\<close>

record config_state =
  cs_conf :: "string option"
  cs_instances :: "(string \<times> validator) list"

definition register_function :: "string \<Rightarrow> validator \<Rightarrow> config_state \<Rightarrow> config_state" where
  "register_function name func s =
     s\<lparr>cs_instances := (name, func) # filter (\<lambda>(n, _). n \<noteq> name) (cs_instances s)\<rparr>"

definition get_config :: "config_state \<Rightarrow> string option" where
  "get_config s = cs_conf s"

datatype init_outcome = InitOk | InitExit string | InitPanic

text \<open>The complaints, one line per validator that objects, in the order of the table.\<close>

fun config_errors :: "(string \<times> validator) list \<Rightarrow> string \<Rightarrow> string option" where
  "config_errors [] conf = Some []"
| "config_errors ((name, func) # instances) conf =
     (case func conf of
        None \<Rightarrow> None
      | Some complaint \<Rightarrow>
          map_option (\<lambda>err_msg. (case complaint of None \<Rightarrow> [] | Some err \<Rightarrow> name @ '': '' @ err @ [newline]) @ err_msg)
            (config_errors instances conf))"

definition init_cfg :: "(string \<Rightarrow> string option) \<Rightarrow> string \<Rightarrow> config_state \<Rightarrow> init_outcome \<times> config_state" where
  "init_cfg read_file path s =
     (case read_file path of
        None \<Rightarrow> (InitPanic, s)
      | Some conf \<Rightarrow>
          (case cs_conf s of
             Some _ \<Rightarrow> (InitPanic, s)
           | None \<Rightarrow>
               (let s1 = s\<lparr>cs_conf := Some conf\<rparr> in
                case config_errors (cs_instances s1) conf of
                  None \<Rightarrow> (InitPanic, s1)
                | Some err_msg \<Rightarrow> (if err_msg = [] then InitOk else InitExit err_msg, s1))))"

section \<open>PID file\<close>

record daemon_meta =
  dm_config_path :: string
  dm_daemon :: bool

datatype pid_content = PidText string | PidUnreadable

record host =
  h_pid_file :: "pid_content option"
  h_meta :: "daemon_meta option"

datatype probe = ProbeOk | NoSuchProcess | NotPermitted

text \<open>\<open>None\<close> is the panic on a file that opens and cannot be read.\<close>

definition read_pid :: "host \<Rightarrow> int option option" where
  "read_pid h =
     (case h_pid_file h of
        None \<Rightarrow> Some None
      | Some PidUnreadable \<Rightarrow> None
      | Some (PidText pid_str) \<Rightarrow>
          Some (case parse_i32 (trim pid_str) of None \<Rightarrow> None | Some pid \<Rightarrow> if pid > 0 then Some pid else None))"

definition is_process_running :: "int \<Rightarrow> probe \<Rightarrow> bool" where
  "is_process_running pid answer = (if pid \<le> 0 then False else answer = ProbeOk)"

definition remove_pid_file :: "bool \<Rightarrow> host \<Rightarrow> host" where
  "remove_pid_file removable h = (if removable then h\<lparr>h_pid_file := None\<rparr> else h)"

section \<open>Stop\<close>

datatype os_signal = SigTerm int | SigKill int

datatype kill_outcome = KillNotRun string | KillStatus "int option"   \<comment> \<open>the exit code, if any\<close>

datatype term_error = ExecKill string | KillFailed int "int option"

definition send_terminate_signal :: "int \<Rightarrow> kill_outcome \<Rightarrow> term_error + unit" where
  "send_terminate_signal pid outcome =
     (case outcome of
        KillNotRun e \<Rightarrow> Inl (ExecKill e)
      | KillStatus code \<Rightarrow> if code = Some 0 then Inr () else Inl (KillFailed pid code))"

definition DAEMON_STOP_TIMEOUT_SECS :: nat where
  "DAEMON_STOP_TIMEOUT_SECS = 10"

text \<open>The waiting loop over the rounds: milliseconds elapsed at the loop test, and the answer of the
  probe after it. \<open>None\<close>: still waiting after all rounds given.\<close>

fun wait_for_process_exit :: "int \<Rightarrow> nat \<Rightarrow> (nat \<times> probe) list \<Rightarrow> bool option" where
  "wait_for_process_exit pid timeout_secs [] = None"
| "wait_for_process_exit pid timeout_secs ((elapsed, answer) # rounds) =
     (if elapsed < timeout_secs * 1000
      then if \<not> is_process_running pid answer then Some True
           else wait_for_process_exit pid timeout_secs rounds
      else Some False)"

record stop_env =
  se_first :: probe
  se_term :: kill_outcome
  se_rounds :: "(nat \<times> probe) list"
  se_last :: probe
  se_removable :: bool

datatype stop_end = StopPanics | StopReturns bool

text \<open>The result, the host afterwards and the signals sent; \<open>None\<close> while it is still waiting.\<close>

definition stop_service :: "stop_env \<Rightarrow> host \<Rightarrow> (stop_end \<times> host \<times> os_signal list) option" where
  "stop_service env h =
     (case read_pid h of
        None \<Rightarrow> Some (StopPanics, h, [])
      | Some None \<Rightarrow> Some (StopReturns True, h, [])
      | Some (Some pid) \<Rightarrow>
          if \<not> is_process_running pid (se_first env)
          then Some (StopReturns True, remove_pid_file (se_removable env) h, [])
          else case send_terminate_signal pid (se_term env) of
                 Inl _ \<Rightarrow> Some (StopReturns False, h, [SigTerm pid])
               | Inr _ \<Rightarrow>
                   (case wait_for_process_exit pid DAEMON_STOP_TIMEOUT_SECS (se_rounds env) of
                      None \<Rightarrow> None
                    | Some True \<Rightarrow> Some (StopReturns True, remove_pid_file (se_removable env) h, [SigTerm pid])
                    | Some False \<Rightarrow>
                        if \<not> is_process_running pid (se_last env)
                        then Some (StopReturns True, remove_pid_file (se_removable env) h, [SigTerm pid, SigKill pid])
                        else Some (StopReturns False, h, [SigTerm pid, SigKill pid])))"

section \<open>Start and restart\<close>

datatype daemonize_outcome =
  ChildApp "string option"          \<comment> \<open>the child, privileged action done: the error of \<^verbatim>\<open>run_app\<close>, if any\<close>
| ChildPrivilegeFailed string
| ChildError string
| ParentError string
| ParentOk nat                      \<comment> \<open>the exit code of the first child\<close>

datatype process_end = Exits nat | Returns "string option" | Panics   \<comment> \<open>\<open>Returns\<close> with the line on standard error, if any\<close>

text \<open>\<open>started\<close> in the results: whether \<^verbatim>\<open>daemonize.execute()\<close> was reached; it owns the PID file from there,
  \<open>new_pid_file\<close> is what it leaves.\<close>

definition daemonize_end :: "daemonize_outcome \<Rightarrow> process_end" where
  "daemonize_end out =
     (case out of
        ChildApp None \<Rightarrow> Returns None
      | ChildApp (Some e) \<Rightarrow> Returns (Some (''App runtime error: '' @ e))
      | ChildPrivilegeFailed e \<Rightarrow> Returns (Some (''Privileged action failed: '' @ e))
      | ChildError e \<Rightarrow> Returns (Some (''Daemonize child error: '' @ e))
      | ParentError e \<Rightarrow> Returns (Some (''Daemonize parent error: '' @ e))
      | ParentOk code \<Rightarrow> Exits code)"

record start_env =
  sa_probe :: probe
  sa_removable :: bool
  sa_new_pid_file :: "pid_content option"
  sa_outcome :: daemonize_outcome

definition start_service :: "start_env \<Rightarrow> host \<Rightarrow> process_end \<times> bool \<times> host" where
  "start_service env h =
     (let launch = (\<lambda>h1. (daemonize_end (sa_outcome env), True, h1\<lparr>h_pid_file := sa_new_pid_file env\<rparr>)) in
      case read_pid h of
        None \<Rightarrow> (Panics, False, h)
      | Some (Some pid) \<Rightarrow>
          if is_process_running pid (sa_probe env) then (Exits 1, False, h)
          else launch (remove_pid_file (sa_removable env) h)
      | Some None \<Rightarrow> launch h)"

definition restart_service :: "stop_env \<Rightarrow> start_env \<Rightarrow> host \<Rightarrow> (process_end \<times> bool \<times> host \<times> os_signal list) option" where
  "restart_service senv aenv h =
     (case stop_service senv h of
        None \<Rightarrow> None
      | Some (StopPanics, h1, sigs) \<Rightarrow> Some (Panics, False, h1, sigs)
      | Some (StopReturns True, h1, sigs) \<Rightarrow> (let (e, started, h2) = start_service aenv h1 in Some (e, started, h2, sigs))
      | Some (StopReturns False, h1, sigs) \<Rightarrow> Some (Returns (Some ''Failed to stop service. Restart aborted.''), False, h1, sigs))"

datatype service_status = RunningStatus int | StaleStatus int | NotRunningStatus

definition status_service :: "probe \<Rightarrow> host \<Rightarrow> service_status option" where
  "status_service answer h =
     map_option (\<lambda>found. (case found of
        Some pid \<Rightarrow> if is_process_running pid answer then RunningStatus pid else StaleStatus pid
      | None \<Rightarrow> NotRunningStatus)) (read_pid h)"

section \<open>The command line\<close>

definition run_foreground :: "string + 'a \<Rightarrow> ('a \<Rightarrow> string option) \<Rightarrow> string option" where
  "run_foreground init_privilege run_app =
     (case init_privilege of
        Inl e \<Rightarrow> Some (''App init error: '' @ e)
      | Inr x \<Rightarrow> (case run_app x of None \<Rightarrow> None | Some e \<Rightarrow> Some (''App runtime error: '' @ e)))"

definition save_meta :: "daemon_meta \<Rightarrow> host \<Rightarrow> host" where
  "save_meta m h = h\<lparr>h_meta := Some m\<rparr>"

definition load_meta :: "host \<Rightarrow> daemon_meta option" where
  "load_meta h = h_meta h"

datatype command = CmdStart string bool | CmdStop | CmdRestart | CmdStatus | CmdOther

record run_env =
  re_supported :: bool              \<comment> \<open>Linux or macOS\<close>
  re_read_file :: "string \<Rightarrow> string option"
  re_config :: config_state
  re_stop :: stop_env
  re_start :: start_env
  re_foreground :: "string option"  \<comment> \<open>what \<^verbatim>\<open>run_foreground\<close> returns\<close>
  re_status :: probe

datatype run_result =
  Ended process_end
| ConfigRefused string     \<comment> \<open>exit code 1 after printing the complaints\<close>
| PanicEnd
| ReportsStatus service_status
| Waiting

definition with_config :: "run_env \<Rightarrow> string \<Rightarrow> host \<Rightarrow> (run_result \<times> host \<times> os_signal list) \<Rightarrow> run_result \<times> host \<times> os_signal list" where
  "with_config env path h k =
     (case init_cfg (re_read_file env) path (re_config env) of
        (InitPanic, _) \<Rightarrow> (PanicEnd, h, [])
      | (InitExit msg, _) \<Rightarrow> (ConfigRefused msg, h, [])
      | (InitOk, _) \<Rightarrow> k)"

definition run :: "run_env \<Rightarrow> command \<Rightarrow> host \<Rightarrow> run_result \<times> host \<times> os_signal list" where
  "run env cmd h =
     (case cmd of
        CmdStart config_path daemon \<Rightarrow>
          with_config env config_path h
            (let h1 = save_meta \<lparr>dm_config_path = config_path, dm_daemon = daemon\<rparr> h in
             if daemon \<and> re_supported env
             then (let (e, _, h2) = start_service (re_start env) h1 in (Ended e, h2, []))
             else case re_foreground env of
                    None \<Rightarrow> (Ended (Returns None), h1, [])
                  | Some _ \<Rightarrow> (Ended (Exits 1), h1, []))
      | CmdStop \<Rightarrow>
          (case load_meta h of
             None \<Rightarrow> (PanicEnd, h, [])
           | Some m \<Rightarrow>
               if \<not> dm_daemon m then (Ended (Returns (Some ''Not running daemon mode'')), h, [])
               else if \<not> re_supported env then (Ended (Returns (Some ''The daemon only supports macOS, and Linux'')), h, [])
               else (case stop_service (re_stop env) h of
                       None \<Rightarrow> (Waiting, h, [])
                     | Some (StopPanics, h1, sigs) \<Rightarrow> (PanicEnd, h1, sigs)
                     | Some (StopReturns _, h1, sigs) \<Rightarrow> (Ended (Returns None), h1, sigs)))
      | CmdRestart \<Rightarrow>
          (case load_meta h of
             None \<Rightarrow> (PanicEnd, h, [])
           | Some m \<Rightarrow>
               if \<not> dm_daemon m then (Ended (Returns (Some ''Not running daemon mode'')), h, [])
               else with_config env (dm_config_path m) h
                 (if \<not> re_supported env then (Ended (Returns (Some ''The daemon only supports macOS, and Linux'')), h, [])
                  else case restart_service (re_stop env) (re_start env) h of
                         None \<Rightarrow> (Waiting, h, [])
                       | Some (e, _, h1, sigs) \<Rightarrow> (Ended e, h1, sigs)))
      | CmdStatus \<Rightarrow>
          if re_supported env
          then (case status_service (re_status env) h of None \<Rightarrow> (PanicEnd, h, []) | Some s \<Rightarrow> (ReportsStatus s, h, []))
          else (Ended (Returns (Some ''The status only supports macOS, and Linux'')), h, [])
      | CmdOther \<Rightarrow> (Ended (Returns (Some ''Please add subcommands to operate: [start|stop|restart]'')), h, []))"

section \<open>Configuration start-up\<close>

lemma config_errors_Nil: "config_errors ins conf = Some [] \<longleftrightarrow> (\<forall>(n, f)\<in>set ins. f conf = Some None)"
  by (induction ins conf rule: config_errors.induct) (auto split: option.splits)

lemma config_errors_perm:
  "mset ins = mset ins' \<Longrightarrow> (config_errors ins conf = Some []) = (config_errors ins' conf = Some [])"
  using mset_eq_setD [of ins ins'] by (simp add: config_errors_Nil)

text \<open>The configuration is accepted exactly when no registered validator objects to the text that was
  read or panics on it; the text is then what every reader gets.\<close>

lemma init_cfg_accepts:
  assumes "read_file path = Some conf" "cs_conf s = None"
  shows "(fst (init_cfg read_file path s) = InitOk) = (\<forall>(n, f)\<in>set (cs_instances s). f conf = Some None)"
    and "get_config (snd (init_cfg read_file path s)) = Some conf"
  using assms config_errors_Nil [of "cs_instances s" conf]
  by (auto simp: init_cfg_def get_config_def Let_def split: option.splits)

lemma register_function_replaces:
  "(n, f) \<in> set (cs_instances (register_function name g s)) \<longleftrightarrow>
     (n = name \<and> f = g) \<or> (n \<noteq> name \<and> (n, f) \<in> set (cs_instances s))"
  by (auto simp: register_function_def)

section \<open>Stop, start and restart\<close>

lemma read_pid_positive: "read_pid h = Some (Some pid) \<Longrightarrow> 0 < pid"
  by (auto simp: read_pid_def split: option.splits pid_content.splits if_splits)

lemma not_running_answer: "0 < pid \<Longrightarrow> \<not> is_process_running pid a \<longleftrightarrow> a \<noteq> ProbeOk"
  by (auto simp: is_process_running_def)

lemma wait_True_answer:
  "wait_for_process_exit pid t rounds = Some True \<Longrightarrow>
     \<exists>e a. (e, a) \<in> set rounds \<and> e < t * 1000 \<and> \<not> is_process_running pid a"
  by (induction pid t rounds rule: wait_for_process_exit.induct) (auto split: if_splits)

lemma wait_False_elapsed:
  "wait_for_process_exit pid t rounds = Some False \<Longrightarrow> \<exists>e a. (e, a) \<in> set rounds \<and> t * 1000 \<le> e"
  by (induction pid t rounds rule: wait_for_process_exit.induct) (auto split: if_splits)

lemma wait_returns:
  assumes "i < length rounds" "t * 1000 \<le> fst (rounds ! i)"
  shows "\<exists>b. wait_for_process_exit pid t rounds = Some b"
  using assms
proof (induction pid t rounds arbitrary: i rule: wait_for_process_exit.induct)
  case (2 pid t e a rounds)
  then show ?case by (cases i) (auto split: if_splits)
qed simp

text \<open>What each result of the stop command says about the probes it made.\<close>

definition stop_confirmed :: "stop_env \<Rightarrow> bool" where
  "stop_confirmed env \<longleftrightarrow> se_first env \<noteq> ProbeOk \<or> (\<exists>e a. (e, a) \<in> set (se_rounds env) \<and> a \<noteq> ProbeOk) \<or> se_last env \<noteq> ProbeOk"

lemma stop_service_cases:
  assumes "read_pid h = Some (Some pid)" "stop_service env h = Some (r, h', sigs)"
  shows "r \<noteq> StopPanics \<and> (r = StopReturns True \<longrightarrow> stop_confirmed env \<and> h' = remove_pid_file (se_removable env) h) \<and>
    (r = StopReturns False \<longrightarrow> h' = h) \<and>
    (sigs = [] \<and> se_first env \<noteq> ProbeOk \<or>
     sigs = [SigTerm pid] \<and> se_first env = ProbeOk \<or>
     sigs = [SigTerm pid, SigKill pid] \<and> se_first env = ProbeOk \<and>
       (\<exists>e a. (e, a) \<in> set (se_rounds env) \<and> 10000 \<le> e))"
proof -
  note pos = read_pid_positive [OF assms(1)]
  show ?thesis
  proof (cases "se_first env = ProbeOk \<and> send_terminate_signal pid (se_term env) = Inr ()")
    case False
    with assms pos show ?thesis
      by (auto simp: stop_service_def not_running_answer stop_confirmed_def split: if_splits sum.splits)
  next
    case True
    with assms pos obtain b where b: "wait_for_process_exit pid DAEMON_STOP_TIMEOUT_SECS (se_rounds env) = Some b"
      by (auto simp: stop_service_def not_running_answer split: option.splits)
    show ?thesis
    proof (cases b)
      case True': True
      with wait_True_answer b pos have "\<exists>e a. (e, a) \<in> set (se_rounds env) \<and> a \<noteq> ProbeOk"
        by (metis not_running_answer)
      with True True' assms b pos show ?thesis
        by (auto simp: stop_service_def not_running_answer stop_confirmed_def)
    next
      case False
      with wait_False_elapsed b have "\<exists>e a. (e, a) \<in> set (se_rounds env) \<and> 10000 \<le> e"
        by (fastforce simp: DAEMON_STOP_TIMEOUT_SECS_def)
      with True False assms b pos show ?thesis
        by (auto simp: stop_service_def not_running_answer stop_confirmed_def split: if_splits)
    qed
  qed
qed

text \<open>The two results without a PID to signal.\<close>

lemma stop_service_no_pid:
  "read_pid h = None \<Longrightarrow> stop_service env h = Some (StopPanics, h, [])"
  "read_pid h = Some None \<Longrightarrow> stop_service env h = Some (StopReturns True, h, [])"
  by (simp_all add: stop_service_def)

lemma read_pid_cases:
  obtains (panics) "read_pid h = None" | (none) "read_pid h = Some None" | (pid) pid where "read_pid h = Some (Some pid)" "0 < pid"
  using read_pid_positive by (cases "read_pid h") auto

text \<open>Whether \<^verbatim>\<open>start\<close> reaches the launch, and what it leaves when it does not.\<close>

lemma start_service_launches:
  "start_service env h = (e, True, h') \<Longrightarrow> read_pid h = Some None \<or> (\<exists>pid. read_pid h = Some (Some pid)) \<and> sa_probe env \<noteq> ProbeOk"
  by (rule read_pid_cases [of h]) (auto simp: start_service_def Let_def not_running_answer split: if_splits)

lemma start_service_refuses:
  "start_service env h = (e, False, h') \<Longrightarrow>
     h' = h \<and> (e = Exits 1 \<and> sa_probe env = ProbeOk \<and> (\<exists>pid. read_pid h = Some (Some pid)) \<or> e = Panics \<and> read_pid h = None)"
  by (rule read_pid_cases [of h]) (auto simp: start_service_def Let_def is_process_running_def split: if_splits)

lemma restart_service_cases:
  assumes "restart_service senv aenv h = Some (e, started, h', sigs)"
  obtains (stopped) h1 where "stop_service senv h = Some (StopReturns True, h1, sigs)" "start_service aenv h1 = (e, started, h')"
  | (failed) r where "stop_service senv h = Some (r, h', sigs)" "r \<noteq> StopReturns True" "\<not> started"
  using assms by (auto simp: restart_service_def split: option.splits stop_end.splits bool.splits prod.splits)

text \<open>A stop changes the PID file only by removing it.\<close>

lemma stop_service_host:
  assumes "stop_service env h = Some (r, h', sigs)"
  shows "h' = h \<or> r = StopReturns True \<and> h' = h\<lparr>h_pid_file := None\<rparr>"
proof (rule read_pid_cases [of h])
  fix pid assume "read_pid h = Some (Some pid)"
  from stop_service_cases [OF this assms] show ?thesis
    by (cases r) (auto simp: remove_pid_file_def split: if_splits)
qed (use assms stop_service_no_pid in auto)

lemma read_pid_removed [simp]: "read_pid (h\<lparr>h_pid_file := None\<rparr>) = Some None"
  by (simp add: read_pid_def)

text \<open>A restart that launches nothing leaves the host: if the stop removed the file, the start goes on to the launch.\<close>

lemma restart_refuses:
  assumes "restart_service senv aenv h = Some (e, False, h', sigs)"
  shows "h' = h"
  using assms
proof (cases rule: restart_service_cases)
  case (stopped h1)
  from start_service_refuses [OF stopped(2)] have "h' = h1" "read_pid h1 \<noteq> Some None" by auto
  with stop_service_host [OF stopped(1)] show ?thesis by auto
next
  case (failed r)
  with stop_service_host show ?thesis by blast
qed

lemma stop_service_success:
  assumes "stop_service env h = Some (StopReturns True, h', sigs)"
  shows "read_pid h = Some None \<or> stop_confirmed env"
proof (rule read_pid_cases [of h])
  fix pid assume "read_pid h = Some (Some pid)"
  from stop_service_cases [OF this assms] show ?thesis by blast
qed (use assms stop_service_no_pid [of h env] in simp_all)

lemma restart_launches:
  assumes "restart_service senv aenv h = Some (e, True, h', sigs)"
  shows "(read_pid h = Some None \<or> stop_confirmed senv) \<and>
    (\<exists>h1. stop_service senv h = Some (StopReturns True, h1, sigs) \<and> (read_pid h1 = Some None \<or> sa_probe aenv \<noteq> ProbeOk))"
  using assms
proof (cases rule: restart_service_cases)
  case (stopped h1)
  with stop_service_success [OF stopped(1)] start_service_launches [OF stopped(2)] show ?thesis by blast
qed simp

text \<open>The command line \<^verbatim>\<open>start --daemon\<close> beside a running service.\<close>

lemma start_command_refused:
  assumes "read_pid h = Some (Some pid)" "sa_probe (re_start env) = ProbeOk" "run env (CmdStart c True) h = (e, h', sigs)"
  shows "sigs = [] \<and> (h' = h \<or> h' = h\<lparr>h_meta := Some \<lparr>dm_config_path = c, dm_daemon = True\<rparr>\<rparr>)"
proof -
  let ?h = "h\<lparr>h_meta := Some \<lparr>dm_config_path = c, dm_daemon = True\<rparr>\<rparr>"
  have "read_pid ?h = read_pid h" by (simp add: read_pid_def)
  then have s: "start_service (re_start env) ?h = (Exits 1, False, ?h)"
    using assms(1,2) read_pid_positive [OF assms(1)] by (simp add: start_service_def is_process_running_def)
  obtain i s1 where i: "init_cfg (re_read_file env) c (re_config env) = (i, s1)" by fastforce
  show ?thesis
    using assms(3) s i by (cases i; cases "re_foreground env"; cases "re_supported env") (simp_all add: run_def with_config_def save_meta_def)
qed

lemma pid_7 [simp]: "read_pid \<lparr>h_pid_file = Some (PidText ''7''), h_meta = m\<rparr> = Some (Some 7)"
  by (simp add: read_pid_def trim_def trim_start_def trim_end_def is_ws_def parse_i32_def parse_unsigned_def parse_nat_def parse_digit_def)

section \<open>Properties\<close>

text \<open>C21. The stop command: it signals only the positive PID of the file, and only after a probe found that
  process; \<^verbatim>\<open>SIGKILL\<close> only follows \<^verbatim>\<open>SIGTERM\<close> after ten seconds of waiting; it reports success only when the file names no
  process or a probe did not find it, and then the file is removed; a failed stop leaves the file as it
  was, so that the command can be repeated; it panics, having done nothing, only on a file that cannot be read.\<close>

theorem stop_service_contract:
  assumes "stop_service env h = Some (r, h', sigs)"
  shows "(\<forall>s\<in>set sigs. \<exists>pid > 0. read_pid h = Some (Some pid) \<and> s \<in> {SigTerm pid, SigKill pid} \<and> se_first env = ProbeOk) \<and>
    (\<forall>pid. SigKill pid \<in> set sigs \<longrightarrow> sigs = [SigTerm pid, SigKill pid] \<and> (\<exists>e a. (e, a) \<in> set (se_rounds env) \<and> 10000 \<le> e)) \<and>
    (r = StopReturns True \<longrightarrow> read_pid h = Some None \<and> h' = h \<or>
       stop_confirmed env \<and> (se_removable env \<longrightarrow> h_pid_file h' = None)) \<and>
    (r = StopReturns False \<longrightarrow> h' = h) \<and>
    (r = StopPanics \<longrightarrow> h_pid_file h = Some PidUnreadable \<and> h' = h \<and> sigs = [])"
proof (rule read_pid_cases [of h])
  assume n: "read_pid h = None"
  then have "h_pid_file h = Some PidUnreadable" by (auto simp: read_pid_def split: option.splits pid_content.splits)
  with assms n show ?thesis by (simp add: stop_service_no_pid)
next
  assume "read_pid h = Some None"
  with assms show ?thesis by (auto simp: stop_service_no_pid)
next
  fix pid assume p: "read_pid h = Some (Some pid)" "0 < pid"
  note cases = stop_service_cases [OF p(1) assms]
  from cases have sigs: "set sigs \<subseteq> {SigTerm pid, SigKill pid}" "sigs \<noteq> [] \<longrightarrow> se_first env = ProbeOk" by auto
  have "\<forall>s\<in>set sigs. \<exists>pid > 0. read_pid h = Some (Some pid) \<and> s \<in> {SigTerm pid, SigKill pid} \<and> se_first env = ProbeOk"
    using sigs p by (cases sigs) auto
  moreover have "\<forall>pid. SigKill pid \<in> set sigs \<longrightarrow>
      sigs = [SigTerm pid, SigKill pid] \<and> (\<exists>e a. (e, a) \<in> set (se_rounds env) \<and> 10000 \<le> e)"
    using cases by auto
  ultimately show ?thesis using cases by (auto simp: remove_pid_file_def)
qed

theorem stop_service_contract_witness:
  "\<exists>h' sigs. stop_service \<lparr>se_first = ProbeOk, se_term = KillStatus (Some 0), se_rounds = [(0, ProbeOk), (200, NoSuchProcess)],
       se_last = NoSuchProcess, se_removable = True\<rparr> \<lparr>h_pid_file = Some (PidText ''7''), h_meta = None\<rparr> = Some (StopReturns True, h', sigs) \<and>
     h_pid_file h' = None"
proof -
  let ?env = "\<lparr>se_first = ProbeOk, se_term = KillStatus (Some 0), se_rounds = [(0, ProbeOk), (200, NoSuchProcess)],
       se_last = NoSuchProcess, se_removable = True\<rparr>"
  let ?h = "\<lparr>h_pid_file = Some (PidText ''7''), h_meta = None\<rparr>"
  have run: "stop_service ?env ?h = Some (StopReturns True, remove_pid_file True ?h, [SigTerm 7])"
    by (simp add: stop_service_def is_process_running_def send_terminate_signal_def DAEMON_STOP_TIMEOUT_SECS_def)
  from stop_service_contract [OF run] have "h_pid_file (remove_pid_file True ?h) = None" by simp
  with run show ?thesis by blast
qed

text \<open>C33. The stop command ends: when the clock shows at least the 200 milliseconds slept per round, 51 rounds
  of the waiting loop are enough for a result, whatever the probes answer, and it is a panic only when the PID file cannot be read.\<close>

theorem stop_service_terminates:
  assumes "50 < length (se_rounds env)" "\<forall>i < length (se_rounds env). 200 * i \<le> fst (se_rounds env ! i)"
  shows "\<exists>r h' sigs. stop_service env h = Some (r, h', sigs) \<and> (r = StopPanics \<longleftrightarrow> h_pid_file h = Some PidUnreadable)"
proof -
  have "10000 \<le> fst (se_rounds env ! 50)" using assms by fastforce
  then have w: "\<exists>b. wait_for_process_exit pid DAEMON_STOP_TIMEOUT_SECS (se_rounds env) = Some b" for pid
    using wait_returns [OF assms(1)] by (simp add: DAEMON_STOP_TIMEOUT_SECS_def)
  have u: "read_pid h = None \<longleftrightarrow> h_pid_file h = Some PidUnreadable"
    by (auto simp: read_pid_def split: option.splits pid_content.splits)
  show ?thesis
  proof (rule read_pid_cases [of h])
    fix pid assume p: "read_pid h = Some (Some pid)"
    have "stop_service env h \<noteq> None" using w [of pid] p by (auto simp: stop_service_def split: sum.splits bool.splits)
    then obtain r h' sigs where s: "stop_service env h = Some (r, h', sigs)" by auto
    with stop_service_cases [OF p s] u p show ?thesis by auto
  qed (use u in \<open>auto simp: stop_service_no_pid\<close>)
qed

theorem stop_service_terminates_witness:
  "\<exists>r h' sigs. stop_service \<lparr>se_first = ProbeOk, se_term = KillStatus (Some 0),
     se_rounds = map (\<lambda>i. (200 * i, ProbeOk)) [0..<51], se_last = ProbeOk, se_removable = True\<rparr>
     \<lparr>h_pid_file = Some (PidText ''7''), h_meta = None\<rparr> = Some (r, h', sigs) \<and> r \<noteq> StopPanics"
proof -
  let ?h = "\<lparr>h_pid_file = Some (PidText ''7''), h_meta = None\<rparr>"
  define env where "env = \<lparr>se_first = ProbeOk, se_term = KillStatus (Some 0),
     se_rounds = map (\<lambda>i. (200 * i, ProbeOk)) [0..<51], se_last = ProbeOk, se_removable = True\<rparr>"
  have "\<exists>r h' sigs. stop_service env ?h = Some (r, h', sigs) \<and> (r = StopPanics \<longleftrightarrow> h_pid_file ?h = Some PidUnreadable)"
  proof (rule stop_service_terminates)
    show "50 < length (se_rounds env)" by (simp del: upt_rec_numeral add: env_def)
    show "\<forall>i < length (se_rounds env). 200 * i \<le> fst (se_rounds env ! i)" by (simp del: upt_rec_numeral add: env_def)
  qed
  then show ?thesis unfolding env_def [symmetric] by simp
qed

text \<open>C34. One instance: \<^verbatim>\<open>start_service\<close> launches the service only when the PID file names no process or a probe did not find
  it, and \<^verbatim>\<open>restart_service\<close> only when moreover its stop succeeded, which removes the file; when either launches nothing the host is left as it was.
  Of the command \<^verbatim>\<open>start --daemon\<close> beside a running service only the PID file is left: the meta file has been rewritten before the
  check, as the todo above the trait says.\<close>

theorem single_instance:
  "(\<forall>e h'. start_service aenv h = (e, True, h') \<longrightarrow> read_pid h = Some None \<or> sa_probe aenv \<noteq> ProbeOk) \<and>
   (\<forall>e h'. start_service aenv h = (e, False, h') \<longrightarrow> e \<in> {Exits 1, Panics} \<and> h' = h) \<and>
   (\<forall>e h' sigs. restart_service senv aenv h = Some (e, True, h', sigs) \<longrightarrow>
      (read_pid h = Some None \<or> stop_confirmed senv) \<and>
      (\<exists>h1. stop_service senv h = Some (StopReturns True, h1, sigs) \<and> (read_pid h1 = Some None \<or> sa_probe aenv \<noteq> ProbeOk))) \<and>
   (\<forall>e h' sigs. restart_service senv aenv h = Some (e, False, h', sigs) \<longrightarrow> h' = h) \<and>
   (\<forall>env c pid e h' sigs. read_pid h = Some (Some pid) \<and> sa_probe (re_start env) = ProbeOk \<and> run env (CmdStart c True) h = (e, h', sigs) \<longrightarrow>
      sigs = [] \<and> (h' = h \<or> h' = h\<lparr>h_meta := Some \<lparr>dm_config_path = c, dm_daemon = True\<rparr>\<rparr>))"
proof (intro conjI allI impI)
  fix e h' assume "start_service aenv h = (e, True, h')"
  then show "read_pid h = Some None \<or> sa_probe aenv \<noteq> ProbeOk" using start_service_launches by blast
next
  fix e h' assume "start_service aenv h = (e, False, h')"
  from start_service_refuses [OF this] show "e \<in> {Exits 1, Panics}" "h' = h" by auto
next
  fix e h' sigs assume "restart_service senv aenv h = Some (e, True, h', sigs)"
  from restart_launches [OF this] show "read_pid h = Some None \<or> stop_confirmed senv"
    "\<exists>h1. stop_service senv h = Some (StopReturns True, h1, sigs) \<and> (read_pid h1 = Some None \<or> sa_probe aenv \<noteq> ProbeOk)" by simp_all
next
  fix e h' sigs assume "restart_service senv aenv h = Some (e, False, h', sigs)"
  then show "h' = h" by (rule restart_refuses)
next
  fix env c pid e h' sigs
  assume a: "read_pid h = Some (Some pid) \<and> sa_probe (re_start env) = ProbeOk \<and> run env (CmdStart c True) h = (e, h', sigs)"
  then have "read_pid h = Some (Some pid)" "sa_probe (re_start env) = ProbeOk" "run env (CmdStart c True) h = (e, h', sigs)" by simp_all
  note refused = start_command_refused [OF this]
  from refused show "sigs = []" by (rule conjunct1)
  from refused show "h' = h \<or> h' = h\<lparr>h_meta := Some \<lparr>dm_config_path = c, dm_daemon = True\<rparr>\<rparr>" by (rule conjunct2)
qed

theorem single_instance_witness:
  "start_service \<lparr>sa_probe = ProbeOk, sa_removable = True, sa_new_pid_file = None, sa_outcome = ParentOk 0\<rparr>
     \<lparr>h_pid_file = Some (PidText ''7''), h_meta = None\<rparr> = (Exits 1, False, \<lparr>h_pid_file = Some (PidText ''7''), h_meta = None\<rparr>) \<and>
   (\<exists>e sigs. restart_service \<lparr>se_first = ProbeOk, se_term = KillStatus None, se_rounds = [], se_last = ProbeOk, se_removable = True\<rparr>
     \<lparr>sa_probe = ProbeOk, sa_removable = True, sa_new_pid_file = None, sa_outcome = ParentOk 0\<rparr>
     \<lparr>h_pid_file = Some (PidText ''7''), h_meta = None\<rparr> = Some (e, False, \<lparr>h_pid_file = Some (PidText ''7''), h_meta = None\<rparr>, sigs))"
proof -
  let ?env = "\<lparr>sa_probe = ProbeOk, sa_removable = True, sa_new_pid_file = None, sa_outcome = ParentOk 0\<rparr>"
  let ?stop = "\<lparr>se_first = ProbeOk, se_term = KillStatus None, se_rounds = [], se_last = ProbeOk, se_removable = True\<rparr>"
  let ?h = "\<lparr>h_pid_file = Some (PidText ''7''), h_meta = None\<rparr>"
  obtain h' where r: "start_service ?env ?h = (Exits 1, False, h')"
    by (simp add: start_service_def is_process_running_def)
  obtain e h2 sigs where s: "restart_service ?stop ?env ?h = Some (e, False, h2, sigs)"
    by (simp add: restart_service_def stop_service_def is_process_running_def send_terminate_signal_def)
  have "h' = ?h \<and> h2 = ?h" using r s single_instance [of ?env ?h ?stop] by blast
  with r s show ?thesis by blast
qed

text \<open>A probe that is refused for lack of permission counts as \<^emph>\<open>not running\<close>: the stop command of a user who may not
  signal the service reports success and removes the PID file of a process that is alive.\<close>

lemma stop_not_permitted:
  assumes "read_pid h = Some (Some pid)" "se_first env = NotPermitted" "se_removable env"
  shows "stop_service env h = Some (StopReturns True, h\<lparr>h_pid_file := None\<rparr>, [])"
  using assms read_pid_positive [OF assms(1)] by (simp add: stop_service_def not_running_answer remove_pid_file_def)

text \<open>Every start rewrites the meta file before anything is checked: after a foreground start beside a running
  daemon, \<^verbatim>\<open>stop\<close> refuses to stop the daemon.\<close>

lemma foreground_start_hides_daemon:
  assumes "run env (CmdStart c False) h = (Ended e, h1, sigs)"
  shows "run env' CmdStop h1 = (Ended (Returns (Some ''Not running daemon mode'')), h1, []) \<and> h_pid_file h1 = h_pid_file h"
proof -
  from assms have "h1 = save_meta \<lparr>dm_config_path = c, dm_daemon = False\<rparr> h"
    by (auto simp: run_def with_config_def Let_def split: option.splits init_outcome.splits prod.splits)
  then show ?thesis by (simp add: run_def load_meta_def save_meta_def)
qed

end
