(* ===== verification/Logging.thy ===== *)
theory Logging
  imports Strings
begin

text \<open>
  \<^verbatim>\<open>base/src/logger.rs\<close>: which log records go where. \<open>logger_init\<close> turns the configuration into the list of dispatchers
  that are handed to \<^verbatim>\<open>fern\<close>, each with its level, its filter and its outputs; formatting and writing are fern's.
  Also the shortening of source paths before they are printed.
\<close>

section \<open>Levels\<close>

datatype log_level = LOff | LError | LWarn | LInfo | LDebug | LTrace

fun level_rank :: "log_level \<Rightarrow> nat" where
  "level_rank LOff = 0"
| "level_rank LError = 1"
| "level_rank LWarn = 2"
| "level_rank LInfo = 3"
| "level_rank LDebug = 4"
| "level_rank LTrace = 5"

lemma level_rank_inj: "level_rank a = level_rank b \<Longrightarrow> a = b"
  by (cases a; cases b) simp_all

instantiation log_level :: linorder
begin

definition less_eq_log_level :: "log_level \<Rightarrow> log_level \<Rightarrow> bool" where
  "a \<le> b \<longleftrightarrow> level_rank a \<le> level_rank b"

definition less_log_level :: "log_level \<Rightarrow> log_level \<Rightarrow> bool" where
  "a < b \<longleftrightarrow> level_rank a < level_rank b"

instance
  by standard (auto simp: less_eq_log_level_def less_log_level_def dest: level_rank_inj)

end

text \<open>\<open>None\<close>: the panic on an invalid level.\<close>

definition level_filter :: "string \<Rightarrow> log_level option" where
  "level_filter level =
     (let u = map upper_char (trim level) in
      if u = ''OFF'' then Some LOff
      else if u = ''ERROR'' then Some LError
      else if u = ''WARN'' then Some LWarn
      else if u = ''INFO'' then Some LInfo
      else if u = ''DEBUG'' then Some LDebug
      else if u = ''TRACE'' then Some LTrace
      else None)"

definition validate_level :: "string \<Rightarrow> string option" where
  "validate_level level = (case level_filter level of None \<Rightarrow> None | Some _ \<Rightarrow> Some level)"

definition validate_optional_level :: "string option \<Rightarrow> string option option" where
  "validate_optional_level level =
     (case level of None \<Rightarrow> Some None | Some l \<Rightarrow> (case level_filter l of None \<Rightarrow> None | Some _ \<Rightarrow> Some (Some l)))"

section \<open>Targets\<close>

definition parse_targets :: "string \<Rightarrow> string list" where
  "parse_targets crate_name =
     filter (\<lambda>t. t \<noteq> []) (map trim (split_by (\<lambda>c. c = CHR '','') crate_name))"

definition match_rule :: "string \<Rightarrow> string \<Rightarrow> bool" where
  "match_rule target r = (if ends_with r ''$'' then target = butlast r else starts_with target r)"

definition match_target :: "string \<Rightarrow> string list \<Rightarrow> bool" where
  "match_target target rules = list_ex (match_rule target) rules"

record log_rule =
  lr_targets :: "string list"
  lr_level :: "log_level option"

definition effective_level :: "string \<Rightarrow> log_level \<Rightarrow> log_rule list \<Rightarrow> log_level" where
  "effective_level target default_level rules =
     (case List.find (\<lambda>rule. match_target target (lr_targets rule)) rules of
        None \<Rightarrow> default_level
      | Some rule \<Rightarrow> (case lr_level rule of None \<Rightarrow> default_level | Some l \<Rightarrow> l))"

section \<open>The dispatchers\<close>

record log_specify =
  sp_crate_name :: string
  sp_level :: "string option"
  sp_file_name_prefix :: "string option"
  sp_stdout :: "bool option"

record log_config =
  lc_store_path :: string
  lc_prefix :: string
  lc_level :: string
  lc_stdout :: bool
  lc_file :: bool
  lc_specify :: "log_specify list option"

datatype log_filter =
  OnlyTargets "string list"
| MainFilter "string list" log_level "log_rule list"

record dispatcher =
  ds_level :: log_level
  ds_filter :: log_filter
  ds_stdout :: bool
  ds_file :: "(string \<times> string) option"     \<comment> \<open>directory and name pattern of the dated file\<close>

definition dated_name :: "string \<Rightarrow> string" where
  "dated_name name = name @ ''_%Y-%m-%d.log''"

definition store_dir :: "string \<Rightarrow> string" where
  "store_dir p = (if p = [] then ''./'' else if ends_with p ''/'' then p else p @ ''/'')"

record init_acc =
  ia_exclude :: "string list"
  ia_rules :: "log_rule list"
  ia_max :: log_level
  ia_dispatch :: "dispatcher list"

text \<open>One entry of \<^verbatim>\<open>specify\<close>; \<open>None\<close> if its level is invalid.\<close>

definition add_specify :: "log_config \<Rightarrow> log_level \<Rightarrow> init_acc \<Rightarrow> log_specify \<Rightarrow> init_acc option" where
  "add_specify log default_level acc s =
     (let targets = parse_targets (sp_crate_name s) in
      case (case sp_level s of None \<Rightarrow> Some None | Some l \<Rightarrow> map_option Some (level_filter l)) of
        None \<Rightarrow> None
      | Some level \<Rightarrow>
          (let eff = (case level of None \<Rightarrow> default_level | Some l \<Rightarrow> l) in
           Some (case sp_file_name_prefix s of
              Some file_prefix \<Rightarrow>
                acc\<lparr>ia_exclude := ia_exclude acc @ targets,
                    ia_dispatch := ia_dispatch acc @
                      [\<lparr>ds_level = eff, ds_filter = OnlyTargets targets,
                        ds_stdout = (case sp_stdout s of None \<Rightarrow> True | Some b \<Rightarrow> b),
                        ds_file = (if lc_file log then Some (store_dir (lc_store_path log), dated_name file_prefix) else None)\<rparr>]\<rparr>
            | None \<Rightarrow>
                acc\<lparr>ia_max := max (ia_max acc) eff,
                    ia_rules := ia_rules acc @ [\<lparr>lr_targets = targets, lr_level = level\<rparr>]\<rparr>)))"

fun add_specifies :: "log_config \<Rightarrow> log_level \<Rightarrow> init_acc \<Rightarrow> log_specify list \<Rightarrow> init_acc option" where
  "add_specifies log d acc [] = Some acc"
| "add_specifies log d acc (s # ss) = (case add_specify log d acc s of None \<Rightarrow> None | Some acc' \<Rightarrow> add_specifies log d acc' ss)"

text \<open>\<open>mkdir\<close> and \<open>apply\<close> are the outcomes of creating the directory and installing the logger: the debug and display
  text of the error, if any. \<open>None\<close>: panic.\<close>

definition logger_init ::
  "(string \<times> string) option \<Rightarrow> (string \<times> string) option \<Rightarrow> log_config \<Rightarrow> dispatcher list global_result option" where
  "logger_init mkdir apply log =
     (case level_filter (lc_level log) of
        None \<Rightarrow> None
      | Some default_level \<Rightarrow>
          (case (if lc_file log then mkdir else None) of
             Some e \<Rightarrow> Some (snd (hand_log (Inl e)))
           | None \<Rightarrow>
               (case add_specifies log default_level
                       \<lparr>ia_exclude = [], ia_rules = [], ia_max = default_level, ia_dispatch = []\<rparr>
                       (case lc_specify log of None \<Rightarrow> [] | Some ss \<Rightarrow> ss) of
                  None \<Rightarrow> None
                | Some acc \<Rightarrow>
                    (let main = \<lparr>ds_level = ia_max acc, ds_filter = MainFilter (ia_exclude acc) default_level (ia_rules acc),
                           ds_stdout = lc_stdout log,
                           ds_file = (if lc_file log then Some (store_dir (lc_store_path log), dated_name (lc_prefix log)) else None)\<rparr> in
                     (case apply of
                        Some e \<Rightarrow> Some (snd (hand_log (Inl e)))
                      | None \<Rightarrow> Some (Inr (ia_dispatch acc @ [main])))))))"

text \<open>What a filter closure answers for a record.\<close>

fun filter_passes :: "log_filter \<Rightarrow> string \<Rightarrow> log_level \<Rightarrow> bool" where
  "filter_passes (OnlyTargets targets) t l = match_target t targets"
| "filter_passes (MainFilter exclude d rules) t l = (\<not> match_target t exclude \<and> l \<le> effective_level t d rules)"

text \<open>A dispatcher's configuration admits a record when its level and its filter do.\<close>

definition admits :: "dispatcher \<Rightarrow> string \<Rightarrow> log_level \<Rightarrow> bool" where
  "admits d t l \<longleftrightarrow> l \<le> ds_level d \<and> filter_passes (ds_filter d) t l"

section \<open>Source paths\<close>

definition rfind :: "string \<Rightarrow> string \<Rightarrow> nat option" where
  "rfind s p =
     (let is = filter (\<lambda>i. starts_with (drop i s) p) [0..<length s] in if is = [] then None else Some (last is))"

definition trim_source_root :: "string \<Rightarrow> string option" where
  "trim_source_root file =
     (case rfind file ''/src/'' of
        None \<Rightarrow> None
      | Some src \<Rightarrow>
          (let crate_start = (case rfind (take src file) ''/'' of None \<Rightarrow> 0 | Some index \<Rightarrow> index + 1) in
           Some (drop crate_start file)))"

definition shorten_absolute_source_file :: "string \<Rightarrow> string" where
  "shorten_absolute_source_file file =
     (case trim_source_root file of Some s \<Rightarrow> s | None \<Rightarrow> last (split_by (\<lambda>c. c = CHR ''/'') file))"

definition backslash :: char where
  "backslash = char_of (92::nat)"

definition windows_absolute :: "string \<Rightarrow> bool" where
  "windows_absolute file \<longleftrightarrow>
     starts_with file [backslash, backslash] \<or>
     (case file of _ # c # d # _ \<Rightarrow> c = CHR '':'' \<and> (d = backslash \<or> d = CHR ''/'') | _ \<Rightarrow> False)"

definition display_source_file :: "string \<Rightarrow> string" where
  "display_source_file file =
     (if \<not> starts_with file ''/'' \<and> \<not> windows_absolute file then file
      else if backslash \<in> set file
      then shorten_absolute_source_file (map (\<lambda>c. if c = backslash then CHR ''/'' else c) file)
      else shorten_absolute_source_file file)"

section \<open>Lines and defaults\<close>

text \<open>The line of a record. The local time and the coloured level are given as text by chrono and fern; a record may have no file or line.\<close>

definition format_record :: "string \<Rightarrow> string \<Rightarrow> string \<Rightarrow> string option \<Rightarrow> nat option \<Rightarrow> string \<Rightarrow> string" where
  "format_record now level target file line msg =
     ''['' @ now @ ''] ['' @ level @ ''] ['' @ target @ ''] '' @ display_source_file (case file of None \<Rightarrow> ''unknown'' | Some f \<Rightarrow> f) @
     '':'' @ show_nat (case line of None \<Rightarrow> 0 | Some n \<Rightarrow> n) @ '' >> '' @ msg"

definition log_config_default :: log_config where
  "log_config_default =
     \<lparr>lc_store_path = [], lc_prefix = ''app'', lc_level = ''info'', lc_stdout = True, lc_file = True, lc_specify = None\<rparr>"

section \<open>Routing lemmas\<close>

text \<open>The reference reading of the configuration: entries with a file of their own, entries without, and the level
  each entry asks for.\<close>

definition dedicated :: "log_specify list \<Rightarrow> log_specify list" where
  "dedicated ss = filter (\<lambda>s. sp_file_name_prefix s \<noteq> None) ss"

definition shared :: "log_specify list \<Rightarrow> log_specify list" where
  "shared ss = filter (\<lambda>s. sp_file_name_prefix s = None) ss"

definition spec_targets :: "log_specify \<Rightarrow> string list" where
  "spec_targets s = parse_targets (sp_crate_name s)"

definition spec_level :: "log_level \<Rightarrow> log_specify \<Rightarrow> log_level" where
  "spec_level d s = (case sp_level s of None \<Rightarrow> d | Some l \<Rightarrow> (case level_filter l of None \<Rightarrow> d | Some f \<Rightarrow> f))"

definition main_level :: "string \<Rightarrow> log_level \<Rightarrow> log_specify list \<Rightarrow> log_level" where
  "main_level t d ss = (case List.find (\<lambda>s. match_target t (spec_targets s)) (shared ss) of None \<Rightarrow> d | Some s \<Rightarrow> spec_level d s)"

definition spec_rule :: "log_specify \<Rightarrow> log_rule" where
  "spec_rule s = \<lparr>lr_targets = spec_targets s, lr_level = (case sp_level s of None \<Rightarrow> None | Some l \<Rightarrow> level_filter l)\<rparr>"

definition spec_dispatcher :: "log_config \<Rightarrow> log_level \<Rightarrow> log_specify \<Rightarrow> dispatcher" where
  "spec_dispatcher log d s =
     \<lparr>ds_level = spec_level d s, ds_filter = OnlyTargets (spec_targets s),
      ds_stdout = (case sp_stdout s of None \<Rightarrow> True | Some b \<Rightarrow> b),
      ds_file = (if lc_file log then Some (store_dir (lc_store_path log), dated_name (the (sp_file_name_prefix s))) else None)\<rparr>"

lemmas spec_defs = dedicated_def shared_def spec_targets_def spec_level_def spec_rule_def spec_dispatcher_def

lemma add_specifies_spec:
  assumes "add_specifies log d acc ss = Some acc'"
  shows "ia_exclude acc' = ia_exclude acc @ concat (map spec_targets (dedicated ss))
    \<and> ia_rules acc' = ia_rules acc @ map spec_rule (shared ss)
    \<and> ia_dispatch acc' = ia_dispatch acc @ map (spec_dispatcher log d) (dedicated ss)
    \<and> ia_max acc' = fold (\<lambda>s m. max m (spec_level d s)) (shared ss) (ia_max acc)"
  using assms
proof (induction log d acc ss rule: add_specifies.induct)
  case (2 log d acc s ss)
  then obtain acc1 where a: "add_specify log d acc s = Some acc1" "add_specifies log d acc1 ss = Some acc'"
    by (auto split: option.splits)
  show ?case
  proof (cases "sp_file_name_prefix s")
    case None
    with "2.IH" [OF a] a(1) show ?thesis
      by (auto simp: add_specify_def Let_def spec_defs split: option.splits)
  next
    case (Some f)
    with "2.IH" [OF a] a(1) show ?thesis
      by (auto simp: add_specify_def Let_def spec_defs split: option.splits)
  qed
qed (simp add: spec_defs)

lemma fold_max_ge: "m \<le> fold (\<lambda>s m. max m (f s)) ss (m :: log_level) \<and> (\<forall>s\<in>set ss. f s \<le> fold (\<lambda>s m. max m (f s)) ss m)"
proof (induction ss arbitrary: m)
  case (Cons s ss)
  from Cons [of "max m (f s)"] show ?case by auto
qed simp

lemma match_target_append: "match_target t (xs @ ys) \<longleftrightarrow> match_target t xs \<or> match_target t ys"
  by (simp add: match_target_def)

lemma match_target_concat: "match_target t (concat tss) \<longleftrightarrow> (\<exists>ts\<in>set tss. match_target t ts)"
  by (auto simp: match_target_def list_ex_iff)

lemma find_spec_rule:
  "List.find (\<lambda>r. match_target t (lr_targets r)) (map spec_rule ss) =
     map_option spec_rule (List.find (\<lambda>s. match_target t (spec_targets s)) ss)"
  by (induction ss) (auto simp: spec_rule_def)

lemma effective_level_spec: "effective_level t d (map spec_rule (shared ss)) = main_level t d ss"
  unfolding effective_level_def main_level_def find_spec_rule
  by (auto simp: spec_rule_def spec_level_def split: option.splits)

lemma main_level_capped: "main_level t d ss \<le> fold (\<lambda>s m. max m (spec_level d s)) (shared ss) d"
  using fold_max_ge [of d "spec_level d" "shared ss"]
  by (auto simp: main_level_def find_Some_iff split: option.splits)

text \<open>C35. Routing of log records. The installed dispatchers are one per entry with a file of its own, in order, and
  the main one. An entry's dispatcher admits exactly the records whose target it matches, up to its level; the main one
  exactly the records that no such entry matches, up to the level of the first other entry that matches, or the global level.
  In particular the outer level set on the main dispatcher never drops a record that its own filter lets through.\<close>

theorem log_routing:
  assumes "logger_init mkdir apply log = Some (Inr ds)" "level_filter (lc_level log) = Some d"
    and ss: "ss = (case lc_specify log of None \<Rightarrow> [] | Some ss \<Rightarrow> ss)"
  shows "length ds = Suc (length (dedicated ss)) \<and>
    (\<forall>i < length (dedicated ss). \<forall>t l. admits (ds ! i) t l \<longleftrightarrow>
       match_target t (spec_targets (dedicated ss ! i)) \<and> l \<le> spec_level d (dedicated ss ! i)) \<and>
    (\<forall>t l. admits (last ds) t l \<longleftrightarrow>
       (\<forall>s\<in>set (dedicated ss). \<not> match_target t (spec_targets s)) \<and> l \<le> main_level t d ss)"
proof -
  let ?acc = "\<lparr>ia_exclude = [], ia_rules = [], ia_max = d, ia_dispatch = []\<rparr>"
  obtain acc where acc: "add_specifies log d ?acc ss = Some acc"
    and ds: "ds = ia_dispatch acc @ [\<lparr>ds_level = ia_max acc, ds_filter = MainFilter (ia_exclude acc) d (ia_rules acc),
       ds_stdout = lc_stdout log,
       ds_file = (if lc_file log then Some (store_dir (lc_store_path log), dated_name (lc_prefix log)) else None)\<rparr>]"
    using assms by (auto simp: logger_init_def Let_def hand_log_def from_external_error_def split: option.splits if_splits)
  note spec = add_specifies_spec [OF acc]
  have main: "admits (last ds) t l \<longleftrightarrow>
      (\<forall>s\<in>set (dedicated ss). \<not> match_target t (spec_targets s)) \<and> l \<le> main_level t d ss" for t l
    using spec main_level_capped [of t d ss]
    by (auto simp: ds admits_def match_target_concat effective_level_spec)
  have "admits (ds ! i) t l \<longleftrightarrow> match_target t (spec_targets (dedicated ss ! i)) \<and> l \<le> spec_level d (dedicated ss ! i)"
    if "i < length (dedicated ss)" for i t l
    using that spec by (auto simp: ds admits_def nth_append spec_dispatcher_def)
  with main spec show ?thesis by (simp add: ds)
qed

theorem log_routing_witness:
  "\<exists>ds. logger_init None None \<lparr>lc_store_path = [], lc_prefix = ''app'', lc_level = ''info'', lc_stdout = True, lc_file = True,
       lc_specify = Some [\<lparr>sp_crate_name = ''net'', sp_level = Some ''debug'', sp_file_name_prefix = Some ''net'', sp_stdout = None\<rparr>]\<rparr>
     = Some (Inr ds) \<and> length ds = 2"
proof -
  let ?s = "\<lparr>sp_crate_name = ''net'', sp_level = Some ''debug'', sp_file_name_prefix = Some ''net'', sp_stdout = None\<rparr>"
  let ?log = "\<lparr>lc_store_path = [], lc_prefix = ''app'', lc_level = ''info'', lc_stdout = True, lc_file = True, lc_specify = Some [?s]\<rparr>"
  have lv: "level_filter ''info'' = Some LInfo" "level_filter ''debug'' = Some LDebug"
    by code_simp+
  then obtain ds where ds: "logger_init None None ?log = Some (Inr ds)"
    by (simp add: logger_init_def add_specify_def Let_def)
  from log_routing [OF ds, of LInfo "[?s]"] lv have "length ds = 2" by (simp add: dedicated_def)
  with ds show ?thesis by blast
qed

section \<open>Source path lemmas\<close>

lemma sorted_le_last: "sorted xs \<Longrightarrow> x \<in> set xs \<Longrightarrow> x \<le> last (xs :: nat list)"
  by (induction xs) auto

lemma rfind_Some:
  assumes "rfind s p = Some i"
  shows "i < length s" "starts_with (drop i s) p" "\<And>j. i < j \<Longrightarrow> j < length s \<Longrightarrow> \<not> starts_with (drop j s) p"
proof -
  let ?is = "filter (\<lambda>i. starts_with (drop i s) p) [0..<length s]"
  have ne: "?is \<noteq> []" and i: "i = last ?is" using assms by (auto simp: rfind_def Let_def split: if_splits)
  then have "i \<in> set ?is" using last_in_set by blast
  then show "i < length s" "starts_with (drop i s) p" by auto
  fix j assume j: "i < j" "j < length s"
  show "\<not> starts_with (drop j s) p"
  proof
    assume "starts_with (drop j s) p"
    with j have "j \<in> set ?is" by simp
    moreover have "sorted ?is" by (simp add: sorted_wrt_filter)
    ultimately have "j \<le> last ?is" by (rule sorted_le_last [rotated])
    with i j show False by simp
  qed
qed

lemma rfind_slash_suffix:
  assumes "crate_start = (case rfind s ''/'' of None \<Rightarrow> 0 | Some index \<Rightarrow> index + 1)"
  shows "CHR ''/'' \<notin> set (drop crate_start s)"
proof
  assume "CHR ''/'' \<in> set (drop crate_start s)"
  then obtain k where k: "k < length s - crate_start" "s ! (crate_start + k) = CHR ''/''"
    by (auto simp: in_set_conv_nth)
  let ?j = "crate_start + k"
  have j: "?j < length s" "starts_with (drop ?j s) ''/''"
    using k by (auto simp: starts_with_def take_Suc_conv_app_nth hd_drop_conv_nth)
  show False
  proof (cases "rfind s ''/''")
    case None
    with j show ?thesis by (auto simp: rfind_def Let_def filter_empty_conv split: if_splits)
  next
    case (Some i)
    with rfind_Some(3) [OF Some, of ?j] j assms show ?thesis by auto
  qed
qed

lemma trim_source_root_shape:
  assumes "trim_source_root file = Some r"
  shows "\<exists>crate rest. CHR ''/'' \<notin> set crate \<and> r = crate @ ''/src/'' @ rest \<and> suffix r file"
proof -
  from assms obtain src where src: "rfind file ''/src/'' = Some src" by (auto simp: trim_source_root_def split: option.splits)
  define c where "c = (case rfind (take src file) ''/'' of None \<Rightarrow> 0 | Some index \<Rightarrow> index + 1)"
  have r: "r = drop c file" using assms src by (simp add: trim_source_root_def Let_def c_def)
  note s = rfind_Some [OF src]
  have cs: "c \<le> src"
    using rfind_Some(1) [of "take src file" "''/''"] s(1) by (auto simp: c_def split: option.splits)
  obtain rest where rest: "drop src file = ''/src/'' @ rest" using s(2) by (auto simp: starts_with_prefix prefix_def)
  have "drop c (take src file @ drop src file) = drop c (take src file) @ drop src file"
    using cs s(1) by (simp only: drop_append) simp
  then have split: "drop c file = drop c (take src file) @ drop src file" by simp
  have "CHR ''/'' \<notin> set (drop c (take src file))" by (rule rfind_slash_suffix) (simp add: c_def)
  moreover have "r = drop c (take src file) @ ''/src/'' @ rest" by (simp only: r split rest)
  moreover have "suffix r file" by (simp add: r suffix_drop)
  ultimately show ?thesis by blast
qed

lemma shorten_shape:
  "CHR ''/'' \<notin> set (shorten_absolute_source_file f) \<or>
   (\<exists>crate rest. CHR ''/'' \<notin> set crate \<and> shorten_absolute_source_file f = crate @ ''/src/'' @ rest)"
proof (cases "trim_source_root f")
  case None
  have "last (split_by (\<lambda>c. c = CHR ''/'') f) \<in> set (split_by (\<lambda>c. c = CHR ''/'') f)" by simp
  with split_by_pieces None show ?thesis by (fastforce simp: shorten_absolute_source_file_def)
next
  case (Some r)
  with trim_source_root_shape [OF Some] show ?thesis by (auto simp: shorten_absolute_source_file_def)
qed

text \<open>Printed source paths: a path that is not absolute is printed as it is; of an absolute one, with slashes of
  either kind, at most the crate directory and the path inside it are printed, never a directory above the crate.\<close>

lemma display_source_file_short:
  "(\<not> starts_with file ''/'' \<and> \<not> windows_absolute file \<longrightarrow> display_source_file file = file) \<and>
   (starts_with file ''/'' \<or> windows_absolute file \<longrightarrow>
      CHR ''/'' \<notin> set (display_source_file file) \<or>
      (\<exists>crate rest. CHR ''/'' \<notin> set crate \<and> display_source_file file = crate @ ''/src/'' @ rest))"
  using shorten_shape [of "file"] shorten_shape [of "map (\<lambda>c. if c = backslash then CHR ''/'' else c) file"]
  by (simp add: display_source_file_def)

text \<open>Without any configuration there is one dispatcher, to the console and to a dated file in the working directory, that admits what is at most at level info.\<close>

lemma default_logging:
  "\<exists>d. logger_init None None log_config_default = Some (Inr [d]) \<and> ds_stdout d \<and> ds_file d = Some (''./'', ''app_%Y-%m-%d.log'') \<and>
     (\<forall>t l. admits d t l \<longleftrightarrow> l \<le> LInfo)"
proof -
  have "level_filter ''info'' = Some LInfo" by code_simp
  then show ?thesis
    by (simp add: logger_init_def log_config_default_def store_dir_def dated_name_def admits_def match_target_def effective_level_def)
qed

end
