(* ===== verification/Episode.thy ===== *)
theory Episode
  imports Prelude
begin

text \<open>
  \<^verbatim>\<open>base/src/logger/episode.rs\<close>: the accounting that turns a stream of failures into few log lines. The first failure of
  an episode is reported, later ones are suppressed, a summary comes at most once per interval, and a success ends the
  episode.
\<close>

section \<open>Model\<close>

text \<open>Instants and durations are nanoseconds; \<^verbatim>\<open>u64\<close> counters saturate.\<close>

datatype episode_decision =
  Started
| Suppressed
| Summary nat nat nat nat        \<comment> \<open>total, since last summary, suppressed, duration\<close>
| Recovered nat nat nat          \<comment> \<open>total, suppressed, duration\<close>
| Healthy

record failure_episode =
  fe_interval :: nat
  fe_started_at :: "nat option"
  fe_last_summary_at :: "nat option"
  fe_total :: nat
  fe_suppressed_total :: nat
  fe_suppressed_since :: nat

definition episode_new :: "nat \<Rightarrow> failure_episode option" where
  "episode_new summary_interval =
     (if summary_interval = 0 then None
      else Some \<lparr>fe_interval = summary_interval, fe_started_at = None, fe_last_summary_at = None, fe_total = 0,
                 fe_suppressed_total = 0, fe_suppressed_since = 0\<rparr>)"

definition DEFAULT_SUMMARY_INTERVAL :: nat where
  "DEFAULT_SUMMARY_INTERVAL = 60000000000"      \<comment> \<open>one minute, in nanoseconds\<close>

definition episode_default :: "failure_episode option" where
  "episode_default = episode_new DEFAULT_SUMMARY_INTERVAL"

definition elapsed_since :: "nat \<Rightarrow> nat \<Rightarrow> nat" where
  "elapsed_since now earlier = now - earlier"

definition record_failure :: "nat \<Rightarrow> failure_episode \<Rightarrow> episode_decision \<times> failure_episode" where
  "record_failure now e =
     (case fe_started_at e of
        None \<Rightarrow> (Started, e\<lparr>fe_started_at := Some now, fe_last_summary_at := Some now, fe_total := 1\<rparr>)
      | Some started_at \<Rightarrow>
          (let e1 = e\<lparr>fe_total := sat_add u64_max (fe_total e) 1\<rparr>;
               last_summary_at = (case fe_last_summary_at e1 of None \<Rightarrow> started_at | Some t \<Rightarrow> t) in
           if fe_interval e1 \<le> elapsed_since now last_summary_at
           then (let suppressed = fe_suppressed_since e1; since = sat_add u64_max suppressed 1 in
                 (Summary (fe_total e1) since suppressed (elapsed_since now started_at),
                  e1\<lparr>fe_suppressed_since := 0, fe_last_summary_at := Some now\<rparr>))
           else (Suppressed,
                 e1\<lparr>fe_suppressed_total := sat_add u64_max (fe_suppressed_total e1) 1,
                    fe_suppressed_since := sat_add u64_max (fe_suppressed_since e1) 1\<rparr>)))"

definition episode_reset :: "failure_episode \<Rightarrow> failure_episode" where
  "episode_reset e =
     e\<lparr>fe_started_at := None, fe_last_summary_at := None, fe_total := 0, fe_suppressed_total := 0, fe_suppressed_since := 0\<rparr>"

definition record_success :: "nat \<Rightarrow> failure_episode \<Rightarrow> episode_decision \<times> failure_episode" where
  "record_success now e =
     (case fe_started_at e of
        None \<Rightarrow> (Healthy, e)
      | Some started_at \<Rightarrow>
          (Recovered (fe_total e) (fe_suppressed_total e) (elapsed_since now started_at), episode_reset e))"

definition is_active :: "failure_episode \<Rightarrow> bool" where
  "is_active e \<longleftrightarrow> fe_started_at e \<noteq> None"

section \<open>Histories\<close>

datatype episode_op = OpFailure nat | OpSuccess nat | OpReset

fun episode_step :: "episode_op \<Rightarrow> failure_episode \<Rightarrow> failure_episode" where
  "episode_step (OpFailure now) e = snd (record_failure now e)"
| "episode_step (OpSuccess now) e = snd (record_success now e)"
| "episode_step OpReset e = episode_reset e"

text \<open>Between two episodes the record is as it was made.\<close>

lemma episode_idle_step:
  assumes "episode_new n = Some e0" "fe_interval e = n" "\<not> is_active e \<longrightarrow> e = e0"
  shows "fe_interval (episode_step op e) = n \<and> (\<not> is_active (episode_step op e) \<longrightarrow> episode_step op e = e0)"
  using assms
  by (cases e; cases op) (auto simp: episode_new_def record_failure_def record_success_def episode_reset_def is_active_def Let_def
      split: option.splits if_splits)

lemma episode_idle:
  assumes "episode_new n = Some e0" "\<not> is_active (fold episode_step ops e0)"
  shows "fold episode_step ops e0 = e0"
proof -
  have "fe_interval (fold episode_step ops e) = n \<and> (\<not> is_active (fold episode_step ops e) \<longrightarrow> fold episode_step ops e = e0)"
    if "fe_interval e = n" "\<not> is_active e \<longrightarrow> e = e0" for e
    using that
  proof (induction ops arbitrary: e)
    case (Cons op ops)
    with episode_idle_step [OF assms(1) Cons.prems, of op] show ?case by simp
  qed simp
  moreover have "fe_interval e0 = n" using assms(1) by (auto simp: episode_new_def split: if_splits)
  ultimately show ?thesis using assms(2) by blast
qed


fun failures :: "failure_episode \<Rightarrow> nat list \<Rightarrow> episode_decision list \<times> failure_episode" where
  "failures e [] = ([], e)"
| "failures e (t # ts) =
     (let (d, e1) = record_failure t e; (ds, e2) = failures e1 ts in (d # ds, e2))"

definition is_summary :: "episode_decision \<Rightarrow> bool" where
  "is_summary d = (case d of Summary _ _ _ _ \<Rightarrow> True | _ \<Rightarrow> False)"

fun summary_suppressed :: "episode_decision \<Rightarrow> nat" where
  "summary_suppressed (Summary _ _ s _) = s"
| "summary_suppressed _ = 0"

text \<open>What a history in an active episode leaves, as long as the counters do not saturate.\<close>

lemma failures_accounts:
  assumes "failures e ts = (ds, e')" "fe_started_at e = Some s" "fe_last_summary_at e = Some q"
    and "fe_total e + length ts \<le> u64_max" "fe_suppressed_total e < fe_total e" "fe_suppressed_since e \<le> fe_suppressed_total e"
    and "sorted (q # ts)"
  shows "fe_started_at e' = Some s \<and> fe_interval e' = fe_interval e \<and> fe_total e' = fe_total e + length ts
    \<and> fe_suppressed_total e' = fe_suppressed_total e + count_list ds Suppressed
    \<and> fe_suppressed_since e + count_list ds Suppressed = fe_suppressed_since e' + sum_list (map summary_suppressed ds)
    \<and> length (filter is_summary ds) + count_list ds Suppressed = length ts
    \<and> q + length (filter is_summary ds) * fe_interval e \<le> last (q # ts)"
  using assms
proof (induction ts arbitrary: e ds q)
  case (Cons t ts)
  obtain d e1 ds1 where r: "record_failure t e = (d, e1)" "failures e1 ts = (ds1, e')" "ds = d # ds1"
    using Cons.prems(1) by (auto simp: Let_def split: prod.splits)
  have room: "sat_add u64_max (fe_total e) 1 = fe_total e + 1" "sat_add u64_max (fe_suppressed_total e) 1 = fe_suppressed_total e + 1"
    "sat_add u64_max (fe_suppressed_since e) 1 = fe_suppressed_since e + 1"
    using Cons.prems(4-6) by (simp_all add: sat_add_exact)
  show ?case
  proof (cases "fe_interval e \<le> elapsed_since t q")
    case True
    then have e1: "e1 = e\<lparr>fe_total := fe_total e + 1, fe_suppressed_since := 0, fe_last_summary_at := Some t\<rparr>"
      and d: "is_summary d" "d \<noteq> Suppressed" "summary_suppressed d = fe_suppressed_since e"
      using r(1) Cons.prems(2,3) room by (auto simp: record_failure_def Let_def is_summary_def)
    have "q + fe_interval e \<le> t" using True Cons.prems(7) by (simp add: elapsed_since_def) linarith
    with Cons.IH [OF r(2), of t] Cons.prems d show ?thesis by (auto simp: e1 r(3))
  next
    case False
    then have e1: "e1 = e\<lparr>fe_total := fe_total e + 1, fe_suppressed_total := fe_suppressed_total e + 1,
        fe_suppressed_since := fe_suppressed_since e + 1\<rparr>" and d: "d = Suppressed"
      using r(1) Cons.prems(2,3) room by (auto simp: record_failure_def Let_def)
    have "last (q # ts) \<le> last (q # t # ts)" using Cons.prems(7) by (cases ts) auto
    with Cons.IH [OF r(2), of q] Cons.prems d show ?thesis by (auto simp: e1 r(3) is_summary_def)
  qed
qed (simp add: is_summary_def)

section \<open>Properties\<close>

text \<open>C36. Nothing is lost in an episode: whatever failures, successes and resets came before, when no episode is active and failures follow at times in
  order, then a success reports exactly their number, the number of them that was suppressed and the time since the first; every one but the first was either
  suppressed or summarised, each suppressed one is counted by exactly one summary or is still pending, there is at most one summary
  per interval, and the success leaves the record as it was made.\<close>

theorem episode_accounts:
  assumes "episode_new n = Some e0" "\<not> is_active (fold episode_step ops e0)"
    and "failures (fold episode_step ops e0) (t # ts) = (ds, e)" "sorted (t # ts)" "length ts < u64_max"
  shows "\<exists>ds'. ds = Started # ds' \<and>
    fst (record_success now e) = Recovered (length (t # ts)) (count_list ds' Suppressed) (now - t) \<and>
    length (filter is_summary ds') + count_list ds' Suppressed = length ts \<and>
    count_list ds' Suppressed = fe_suppressed_since e + sum_list (map summary_suppressed ds') \<and>
    length (filter is_summary ds') * n \<le> last (t # ts) - t \<and>
    snd (record_success now e) = e0"
proof -
  from assms(1) have e0: "e0 = \<lparr>fe_interval = n, fe_started_at = None, fe_last_summary_at = None, fe_total = 0,
      fe_suppressed_total = 0, fe_suppressed_since = 0\<rparr>" by (auto simp: episode_new_def split: if_splits)
  obtain e1 ds' where r: "e1 = e0\<lparr>fe_started_at := Some t, fe_last_summary_at := Some t, fe_total := 1\<rparr>"
    "failures e1 ts = (ds', e)" "ds = Started # ds'"
    using assms(3) unfolding episode_idle [OF assms(1,2)] by (auto simp: record_failure_def Let_def e0 split: prod.splits)
  have "fe_started_at e = Some t \<and> fe_interval e = n \<and> fe_total e = 1 + length ts
    \<and> fe_suppressed_total e = count_list ds' Suppressed
    \<and> count_list ds' Suppressed = fe_suppressed_since e + sum_list (map summary_suppressed ds')
    \<and> length (filter is_summary ds') + count_list ds' Suppressed = length ts
    \<and> t + length (filter is_summary ds') * n \<le> last (t # ts)"
    using failures_accounts [OF r(2), of t t] assms(4,5) by (simp add: r(1) e0)
  then show ?thesis
    by (auto simp: r(3) record_success_def elapsed_since_def episode_reset_def e0)
qed

text \<open>The second episode of a history.\<close>

theorem episode_accounts_witness:
  "\<exists>e0 e ds'. episode_new 60 = Some e0 \<and>
     failures (fold episode_step [OpFailure 0, OpFailure 1, OpFailure 2, OpSuccess 3] e0) [100, 103, 159, 160, 220] = (Started # ds', e) \<and>
     fst (record_success 223 e) = Recovered 5 2 123"
proof -
  define e0 where "e0 = \<lparr>fe_interval = 60, fe_started_at = None, fe_last_summary_at = None, fe_total = 0,
      fe_suppressed_total = 0, fe_suppressed_since = 0\<rparr>"
  let ?ops = "[OpFailure 0, OpFailure 1, OpFailure 2, OpSuccess 3]"
  have n: "episode_new 60 = Some e0" by (simp add: episode_new_def e0_def)
  note defs = record_failure_def record_success_def episode_reset_def elapsed_since_def u64_max_def sat_simps
  have idle: "fold episode_step ?ops e0 = e0" by (simp add: e0_def defs)
  obtain e where f: "failures (fold episode_step ?ops e0) [100, 103, 159, 160, 220] =
      ([Started, Suppressed, Suppressed, Summary 4 3 2 60, Summary 5 1 0 120], e)"
    unfolding idle by (simp add: e0_def defs)
  have "\<not> is_active (fold episode_step ?ops e0)" unfolding idle by (simp add: is_active_def e0_def)
  from episode_accounts [OF n this f, of 223] n f show ?thesis by (auto simp: u64_max_def)
qed

end
