(* ===== verification/Metrics.thy ===== *)
theory Metrics
  imports Strings
begin

text \<open>
  \<^verbatim>\<open>sys_metrics/src/lib.rs\<close>: on Linux it parses the counters of \<^verbatim>\<open>/proc\<close>, elsewhere it asks the sysinfo library; both turn two samples into rates.
  Instants are nanoseconds; counters are \<^verbatim>\<open>u64\<close>; the processor usage on Linux is kept in hundredths of a percent, before the division by
  a hundred that makes it a float. The load averages and the usage sysinfo reports are floats that are not looked at: \<open>parse_f64\<close>, the standard
  parser, is an argument, and the library is the parameter \<open>sysinfo\<close>. The two sums of counters that do not saturate wrap around, as in a release build; with overflow
  checks they panic instead.
\<close>

section \<open>Model\<close>

datatype 'f cpu_usage = BasisPoints nat | Reported 'f

record 'f host_metrics =
  hm_cpu :: "'f cpu_usage"
  hm_load :: "('f \<times> 'f \<times> 'f) option"
  hm_memory_total :: nat
  hm_memory_used :: nat
  hm_swap_total :: nat
  hm_swap_used :: nat
  hm_disk_read_rate :: nat
  hm_disk_write_rate :: nat
  hm_network_receive_rate :: nat
  hm_network_transmit_rate :: nat
  hm_resident :: nat
  hm_threads :: nat

record counters =
  ct_cpu_total :: nat
  ct_cpu_idle :: nat
  ct_disk_read :: nat
  ct_disk_write :: nat
  ct_network_receive :: nat
  ct_network_transmit :: nat

datatype metrics_error = ReadFailed string | InvalidData string

abbreviation parse_u64 :: "string \<Rightarrow> nat option" where
  "parse_u64 \<equiv> parse_unsigned u64_max"

definition parse_u32 :: "string \<Rightarrow> nat option" where
  "parse_u32 = parse_unsigned (2 ^ 32 - 1)"

fun parse_all :: "('a \<Rightarrow> 'b option) \<Rightarrow> 'a list \<Rightarrow> 'b list option" where
  "parse_all f [] = Some []"
| "parse_all f (x # xs) = (case f x of None \<Rightarrow> None | Some y \<Rightarrow> map_option (Cons y) (parse_all f xs))"

definition first_word :: "string \<Rightarrow> string option" where
  "first_word s = (case split_whitespace s of [] \<Rightarrow> None | w # _ \<Rightarrow> Some w)"

definition rate :: "nat \<Rightarrow> nat \<Rightarrow> nat \<Rightarrow> nat" where
  "rate current previous elapsed_nanos =
     (if elapsed_nanos = 0 then 0
      else let bytes = sat_sub current previous;
               per_second = sat_add u128_max (sat_mul u128_max bytes 1000000000) (elapsed_nanos div 2) div elapsed_nanos in
           min u64_max per_second)"

definition nth_or_zero :: "nat list \<Rightarrow> nat \<Rightarrow> nat" where
  "nth_or_zero xs i = (if i < length xs then xs ! i else 0)"

definition sum_u64 :: "nat list \<Rightarrow> nat" where
  "sum_u64 ns = sum_list ns mod 2 ^ 64"

definition parse_cpu :: "string \<Rightarrow> metrics_error + nat \<times> nat" where
  "parse_cpu input =
     (case List.find (\<lambda>line. starts_with line ''cpu '') (text_lines input) of
        None \<Rightarrow> Inl (InvalidData ''missing aggregate cpu line'')
      | Some line \<Rightarrow>
          (case parse_all parse_u64 (drop 1 (split_whitespace line)) of
             None \<Rightarrow> Inl (InvalidData ''number'')
           | Some values \<Rightarrow> Inr (sum_u64 values, sat_add u64_max (nth_or_zero values 3) (nth_or_zero values 4))))"

definition parse_load :: "(string \<Rightarrow> 'f option) \<Rightarrow> string \<Rightarrow> metrics_error + 'f \<times> 'f \<times> 'f" where
  "parse_load parse_f64 input =
     (case parse_all parse_f64 (take 3 (split_whitespace input)) of
        None \<Rightarrow> Inl (InvalidData ''number'')
      | Some values \<Rightarrow> (case values of [a, b, c] \<Rightarrow> Inr (a, b, c) | _ \<Rightarrow> Inl (InvalidData ''invalid loadavg'')))"

definition proc_value :: "string \<Rightarrow> string \<Rightarrow> nat" where
  "proc_value input name =
     sat_mul u64_max
       (case find_map (\<lambda>line. strip_prefix line name) (text_lines input) of
          None \<Rightarrow> 0
        | Some rest \<Rightarrow>
            (case first_word rest of
               None \<Rightarrow> 0
             | Some v \<Rightarrow> (case parse_u64 v of None \<Rightarrow> 0 | Some n \<Rightarrow> n))) 1024"

definition parse_memory :: "string \<Rightarrow> nat \<times> nat \<times> nat \<times> nat" where
  "parse_memory input =
     (proc_value input ''MemTotal:'', proc_value input ''MemAvailable:'', proc_value input ''SwapTotal:'', proc_value input ''SwapFree:'')"

definition add_pair :: "nat \<times> nat \<Rightarrow> nat \<times> nat \<Rightarrow> nat \<times> nat" where
  "add_pair acc v = (sat_add u64_max (fst acc) (fst v), sat_add u64_max (snd acc) (snd v))"

definition field_u64 :: "string list \<Rightarrow> nat \<Rightarrow> nat option" where
  "field_u64 ws i = get_at ws i \<bind> parse_u64"

definition parse_disk_line :: "string \<Rightarrow> (nat \<times> nat) option" where
  "parse_disk_line line =
     (let ws = split_whitespace line in
      get_at ws 2 \<bind> (\<lambda>name.
      if starts_with name ''loop'' \<or> starts_with name ''ram'' \<or> starts_with name ''fd'' then None
      else field_u64 ws 5 \<bind> (\<lambda>read_sectors.
           field_u64 ws 9 \<bind> (\<lambda>write_sectors.
           Some (sat_mul u64_max read_sectors 512, sat_mul u64_max write_sectors 512)))))"

definition parse_disk :: "string \<Rightarrow> nat \<times> nat" where
  "parse_disk input = foldl add_pair (0, 0) (List.map_filter parse_disk_line (text_lines input))"

definition parse_network_line :: "string \<Rightarrow> (nat \<times> nat) option" where
  "parse_network_line line =
     split_once CHR '':'' line \<bind> (\<lambda>(name, values).
     if trim name = ''lo'' then None
     else let ws = split_whitespace values in
          field_u64 ws 0 \<bind> (\<lambda>r. field_u64 ws 8 \<bind> (\<lambda>t. Some (r, t))))"

definition parse_network :: "string \<Rightarrow> nat \<times> nat" where
  "parse_network input = foldl add_pair (0, 0) (List.map_filter parse_network_line (drop 2 (text_lines input)))"

definition parse_process :: "string \<Rightarrow> nat \<times> nat" where
  "parse_process input =
     (proc_value input ''VmRSS:'',
      case find_map (\<lambda>line. strip_prefix line ''Threads:'') (text_lines input) of
        None \<Rightarrow> 0
      | Some rest \<Rightarrow> (case parse_u32 (trim rest) of None \<Rightarrow> 0 | Some n \<Rightarrow> n))"

definition busy_basis_points :: "nat \<Rightarrow> nat \<Rightarrow> nat" where
  "busy_basis_points total_delta idle_delta =
     (case checked_div (sat_mul u64_max (sat_sub total_delta idle_delta) 10000) total_delta of
        None \<Rightarrow> 0
      | Some b \<Rightarrow> if b \<le> 2 ^ 32 - 1 then b else 10000)"

text \<open>The part of a sample that compares with the previous one.\<close>

definition add_rates :: "nat \<Rightarrow> counters \<Rightarrow> (nat \<times> counters) option \<Rightarrow> 'f host_metrics \<Rightarrow> 'f host_metrics" where
  "add_rates now current previous metrics =
     (case previous of
        None \<Rightarrow> metrics
      | Some (previous_at, before) \<Rightarrow>
          (let elapsed = now - previous_at in
           if elapsed = 0 then metrics
           else metrics\<lparr>
             hm_cpu := BasisPoints (busy_basis_points (sat_sub (ct_cpu_total current) (ct_cpu_total before))
               (sat_sub (ct_cpu_idle current) (ct_cpu_idle before))),
             hm_disk_read_rate := rate (ct_disk_read current) (ct_disk_read before) elapsed,
             hm_disk_write_rate := rate (ct_disk_write current) (ct_disk_write before) elapsed,
             hm_network_receive_rate := rate (ct_network_receive current) (ct_network_receive before) elapsed,
             hm_network_transmit_rate := rate (ct_network_transmit current) (ct_network_transmit before) elapsed\<rparr>))"

definition read_proc :: "(string \<Rightarrow> string option) \<Rightarrow> string \<Rightarrow> metrics_error + string" where
  "read_proc reader path = (case reader path of None \<Rightarrow> Inl (ReadFailed path) | Some s \<Rightarrow> Inr s)"

text \<open>One sample: the result and the collector's previous sample.\<close>

definition sample_from ::
  "(string \<Rightarrow> 'f option) \<Rightarrow> (string \<Rightarrow> string option) \<Rightarrow> nat \<Rightarrow> (nat \<times> counters) option
     \<Rightarrow> (metrics_error + 'f host_metrics) \<times> (nat \<times> counters) option" where
  "sample_from parse_f64 reader now previous =
     (case read_proc reader ''/proc/stat'' of Inl e \<Rightarrow> (Inl e, previous) | Inr stat \<Rightarrow>
      case parse_cpu stat of Inl e \<Rightarrow> (Inl e, previous) | Inr (cpu_total, cpu_idle) \<Rightarrow>
      case read_proc reader ''/proc/loadavg'' of Inl e \<Rightarrow> (Inl e, previous) | Inr loadavg \<Rightarrow>
      case parse_load parse_f64 loadavg of Inl e \<Rightarrow> (Inl e, previous) | Inr load_average \<Rightarrow>
      case read_proc reader ''/proc/meminfo'' of Inl e \<Rightarrow> (Inl e, previous) | Inr meminfo \<Rightarrow>
      case read_proc reader ''/proc/diskstats'' of Inl e \<Rightarrow> (Inl e, previous) | Inr diskstats \<Rightarrow>
      case read_proc reader ''/proc/net/dev'' of Inl e \<Rightarrow> (Inl e, previous) | Inr net_dev \<Rightarrow>
      case read_proc reader ''/proc/self/status'' of Inl e \<Rightarrow> (Inl e, previous) | Inr self_status \<Rightarrow>
      let (mem_total, mem_available, swap_total, swap_free) = parse_memory meminfo;
          (disk_read, disk_write) = parse_disk diskstats;
          (receive, transmit) = parse_network net_dev;
          (resident, threads) = parse_process self_status;
          current = \<lparr>ct_cpu_total = cpu_total, ct_cpu_idle = cpu_idle, ct_disk_read = disk_read, ct_disk_write = disk_write,
            ct_network_receive = receive, ct_network_transmit = transmit\<rparr>;
          metrics = \<lparr>hm_cpu = BasisPoints 0, hm_load = Some load_average, hm_memory_total = mem_total,
            hm_memory_used = sat_sub mem_total mem_available, hm_swap_total = swap_total,
            hm_swap_used = sat_sub swap_total swap_free, hm_disk_read_rate = 0, hm_disk_write_rate = 0,
            hm_network_receive_rate = 0, hm_network_transmit_rate = 0, hm_resident = resident, hm_threads = threads\<rparr> in
      (Inr (add_rates now current previous metrics), Some (now, current)))"

text \<open>\<^verbatim>\<open>HostMetricsCollector\<close> on Linux.\<close>

record linux_collector =
  lc_previous :: "(nat \<times> counters) option"

definition linux_collector_new :: linux_collector where
  "linux_collector_new = \<lparr>lc_previous = None\<rparr>"

definition linux_sample ::
  "(string \<Rightarrow> 'f option) \<Rightarrow> (string \<Rightarrow> string option) \<Rightarrow> nat \<Rightarrow> linux_collector \<Rightarrow> (metrics_error + 'f host_metrics) \<times> linux_collector" where
  "linux_sample parse_f64 reader now c =
     (let (r, previous) = sample_from parse_f64 reader now (lc_previous c) in (r, c\<lparr>lc_previous := previous\<rparr>))"

section \<open>Other systems\<close>

text \<open>The sysinfo library: what its objects say, and how a refresh changes them. A process has its memory and, if known, its number of tasks.\<close>

record ('s, 'n, 'f) sysinfo =
  si_refresh_memory :: "'s \<Rightarrow> 's"
  si_refresh_cpu_usage :: "'s \<Rightarrow> 's"
  si_refresh_process :: "nat \<Rightarrow> 's \<Rightarrow> 's"
  si_refresh_networks :: "'n \<Rightarrow> 'n"
  si_load_average :: "'f \<times> 'f \<times> 'f"
  si_process :: "'s \<Rightarrow> nat \<Rightarrow> (nat \<times> nat option) option"
  si_global_cpu_usage :: "'s \<Rightarrow> 'f"
  si_total_memory :: "'s \<Rightarrow> nat"
  si_used_memory :: "'s \<Rightarrow> nat"
  si_total_swap :: "'s \<Rightarrow> nat"
  si_used_swap :: "'s \<Rightarrow> nat"
  si_networks :: "'n \<Rightarrow> (nat \<times> nat) list"      \<comment> \<open>total received and transmitted per interface\<close>

record ('s, 'n) sys_collector =
  sc_previous :: "(nat \<times> counters) option"
  sc_system :: 's
  sc_networks :: 'n
  sc_current_pid :: "nat option"

definition sys_collector_new :: "'s \<Rightarrow> 'n \<Rightarrow> nat option \<Rightarrow> ('s, 'n) sys_collector" where
  "sys_collector_new system networks pid =
     \<lparr>sc_previous = None, sc_system = system, sc_networks = networks, sc_current_pid = pid\<rparr>"

definition refreshed :: "('s, 'n, 'f) sysinfo \<Rightarrow> ('s, 'n) sys_collector \<Rightarrow> ('s, 'n) sys_collector" where
  "refreshed lib c =
     (let s = si_refresh_cpu_usage lib (si_refresh_memory lib (sc_system c)) in
      c\<lparr>sc_system := (case sc_current_pid c of None \<Rightarrow> s | Some pid \<Rightarrow> si_refresh_process lib pid s),
        sc_networks := si_refresh_networks lib (sc_networks c)\<rparr>)"

definition process_usage :: "('s, 'n, 'f) sysinfo \<Rightarrow> ('s, 'n) sys_collector \<Rightarrow> nat \<times> nat" where
  "process_usage lib c =
     (case sc_current_pid c \<bind> si_process lib (sc_system c) of
        None \<Rightarrow> (0, 0)
      | Some (memory, tasks) \<Rightarrow> (memory, case tasks of None \<Rightarrow> 0 | Some n \<Rightarrow> min n (2 ^ 32 - 1)))"

definition network_rates :: "nat \<Rightarrow> counters \<Rightarrow> (nat \<times> counters) option \<Rightarrow> 'f host_metrics \<Rightarrow> 'f host_metrics" where
  "network_rates now current previous metrics =
     (case previous of
        None \<Rightarrow> metrics
      | Some (previous_at, before) \<Rightarrow>
          (let elapsed = now - previous_at in
           if elapsed = 0 then metrics
           else metrics\<lparr>
             hm_network_receive_rate := rate (ct_network_receive current) (ct_network_receive before) elapsed,
             hm_network_transmit_rate := rate (ct_network_transmit current) (ct_network_transmit before) elapsed\<rparr>))"

definition sample_from_sysinfo ::
  "('s, 'n, 'f) sysinfo \<Rightarrow> nat \<Rightarrow> ('s, 'n) sys_collector \<Rightarrow> 'f host_metrics \<times> ('s, 'n) sys_collector" where
  "sample_from_sysinfo lib now c =
     (let c1 = refreshed lib c;
          s = sc_system c1;
          (resident, threads) = process_usage lib c1;
          metrics = \<lparr>hm_cpu = Reported (si_global_cpu_usage lib s), hm_load = Some (si_load_average lib),
            hm_memory_total = si_total_memory lib s, hm_memory_used = si_used_memory lib s,
            hm_swap_total = si_total_swap lib s, hm_swap_used = si_used_swap lib s, hm_disk_read_rate = 0, hm_disk_write_rate = 0,
            hm_network_receive_rate = 0, hm_network_transmit_rate = 0, hm_resident = resident, hm_threads = threads\<rparr>;
          current = \<lparr>ct_cpu_total = 0, ct_cpu_idle = 0, ct_disk_read = 0, ct_disk_write = 0,
            ct_network_receive = sum_u64 (map fst (si_networks lib (sc_networks c1))),
            ct_network_transmit = sum_u64 (map snd (si_networks lib (sc_networks c1)))\<rparr> in
      (network_rates now current (sc_previous c1) metrics, c1\<lparr>sc_previous := Some (now, current)\<rparr>))"

section \<open>Rates\<close>

lemma rate_le: "rate c p e \<le> u64_max"
  by (simp add: rate_def Let_def)

lemma rate_zero: "c \<le> p \<Longrightarrow> rate c p e = 0"
  by (simp add: rate_def Let_def sat_simps)

text \<open>Without saturation the rate is the exact quotient rounded to the nearest integer.\<close>

lemma div_round_nearest:
  fixes x e :: nat
  assumes "0 < e"
  shows "2 * ((x + e div 2) div e * e) \<le> 2 * x + e" "2 * x < 2 * ((x + e div 2) div e * e) + e + 1"
proof -
  let ?q = "(x + e div 2) div e"
  have "?q * e \<le> x + e div 2" by (rule div_times_less_eq_dividend)
  then show "2 * (?q * e) \<le> 2 * x + e" by linarith
  have "x + e div 2 < ?q * e + e" using assms by (metis div_mult_mod_eq mod_less_divisor nat_add_left_cancel_less)
  then show "2 * x < 2 * (?q * e) + e + 1" by linarith
qed

text \<open>The 128-bit intermediate values never saturate, for any two counters and any duration.\<close>

lemma rate_exact:
  assumes "c \<le> u64_max" "e < 2 ^ 94"
  shows "rate c p e = min u64_max (((c - p) * 1000000000 + e div 2) div e)"
proof -
  have "(c - p) * 1000000000 \<le> u64_max * 1000000000" using assms(1) by simp
  then have a: "(c - p) * 1000000000 + e div 2 \<le> u128_max" using assms(2) by (simp add: u64_max_def u128_max_def)
  then have "(c - p) * 1000000000 \<le> u128_max" by simp
  with a show ?thesis by (simp add: rate_def Let_def sat_simps)
qed

lemma rate_unsaturated:
  assumes "c \<le> u64_max" "0 < e" "e < 2 ^ 94" "rate c p e < u64_max"
  shows "rate c p e = ((c - p) * 1000000000 + e div 2) div e"
  using rate_exact [OF assms(1,3), of p] assms(4) by (simp add: min_def split: if_splits)

lemma busy_basis_points_exact:
  assumes "(t - i) * 10000 \<le> u64_max"
  shows "busy_basis_points t i = (t - i) * 10000 div t"
proof (cases "t = 0")
  case False
  have "(t - i) * 10000 div t \<le> t * 10000 div t" by (intro div_le_mono) simp
  with False assms show ?thesis by (simp add: busy_basis_points_def checked_div_def sat_simps)
qed (simp add: busy_basis_points_def checked_div_def)

lemma busy_basis_points_le: "busy_basis_points t i \<le> 10000"
proof (cases "t = 0")
  case False
  have "sat_mul u64_max (sat_sub t i) 10000 \<le> (t - i) * 10000" by (simp add: sat_simps)
  then have "sat_mul u64_max (sat_sub t i) 10000 div t \<le> (t - i) * 10000 div t" by (rule div_le_mono)
  also have "\<dots> \<le> t * 10000 div t" by (intro div_le_mono) simp
  finally have "sat_mul u64_max (sat_sub t i) 10000 div t \<le> 10000" using False by simp
  then show ?thesis by (simp add: busy_basis_points_def checked_div_def split: option.splits)
qed (simp add: busy_basis_points_def checked_div_def)

section \<open>Aggregation\<close>

lemma foldl_add_pair:
  "foldl add_pair acc vs = (min u64_max (fst acc + sum_list (map fst vs)), min u64_max (snd acc + sum_list (map snd vs)))"
  if "fst acc \<le> u64_max" "snd acc \<le> u64_max"
  using that
proof (induction vs arbitrary: acc)
  case (Cons v vs)
  have b: "fst (add_pair acc v) \<le> u64_max" "snd (add_pair acc v) \<le> u64_max" by (simp_all add: add_pair_def)
  have m: "min u (min u (x + y) + z) = min u (x + (y + z))" for u x y z :: nat by linarith
  show ?case by (simp add: Cons.IH [OF b]) (simp add: add_pair_def sat_simps m)
qed simp

lemma sample_from_error: "sample_from pf reader now prev = (Inl e, prev') \<Longrightarrow> prev' = prev"
  by (auto simp: sample_from_def Let_def split: sum.splits prod.splits)

text \<open>What a sample that succeeds took from the files.\<close>

definition proc_counters :: "(string \<Rightarrow> string option) \<Rightarrow> counters \<Rightarrow> bool" where
  "proc_counters reader ct \<longleftrightarrow>
     parse_cpu (the (reader ''/proc/stat'')) = Inr (ct_cpu_total ct, ct_cpu_idle ct) \<and>
     parse_disk (the (reader ''/proc/diskstats'')) = (ct_disk_read ct, ct_disk_write ct) \<and>
     parse_network (the (reader ''/proc/net/dev'')) = (ct_network_receive ct, ct_network_transmit ct)"

lemma proc_counters_le:
  assumes "proc_counters reader ct"
  shows "ct_disk_read ct \<le> u64_max \<and> ct_disk_write ct \<le> u64_max \<and> ct_network_receive ct \<le> u64_max \<and> ct_network_transmit ct \<le> u64_max"
proof -
  have le: "fst (foldl add_pair (0, 0) vs) \<le> u64_max" "snd (foldl add_pair (0, 0) vs) \<le> u64_max" for vs
    by (simp_all add: foldl_add_pair)
  from assms le show ?thesis unfolding proc_counters_def parse_disk_def parse_network_def by (metis fst_conv snd_conv)
qed

lemma sample_from_ok:
  assumes "sample_from pf reader now prev = (Inr m, prev')"
  obtains current m0 where "prev' = Some (now, current)" "m = add_rates now current prev m0" "proc_counters reader current"
    "hm_memory_used m0 \<le> hm_memory_total m0" "hm_swap_used m0 \<le> hm_swap_total m0"
    "hm_cpu m0 = BasisPoints 0" "hm_disk_read_rate m0 = 0" "hm_disk_write_rate m0 = 0"
    "hm_network_receive_rate m0 = 0" "hm_network_transmit_rate m0 = 0"
proof -
  from assms obtain mt ma st sf rs th la dr dw nr nt ct ci where
    c: "parse_cpu (the (reader ''/proc/stat'')) = Inr (ct, ci)" "parse_disk (the (reader ''/proc/diskstats'')) = (dr, dw)"
      "parse_network (the (reader ''/proc/net/dev'')) = (nr, nt)"
    and m: "prev' = Some (now, \<lparr>ct_cpu_total = ct, ct_cpu_idle = ci, ct_disk_read = dr, ct_disk_write = dw,
            ct_network_receive = nr, ct_network_transmit = nt\<rparr>)"
    "m = add_rates now \<lparr>ct_cpu_total = ct, ct_cpu_idle = ci, ct_disk_read = dr, ct_disk_write = dw,
            ct_network_receive = nr, ct_network_transmit = nt\<rparr> prev
       \<lparr>hm_cpu = BasisPoints 0, hm_load = Some la, hm_memory_total = mt,
            hm_memory_used = sat_sub mt ma, hm_swap_total = st,
            hm_swap_used = sat_sub st sf, hm_disk_read_rate = 0, hm_disk_write_rate = 0,
            hm_network_receive_rate = 0, hm_network_transmit_rate = 0, hm_resident = rs, hm_threads = th\<rparr>"
    by (auto simp: sample_from_def Let_def read_proc_def split: sum.splits option.splits prod.splits)
  from m show ?thesis by (rule that) (simp_all add: proc_counters_def c sat_sub_def)
qed

text \<open>The part that compares two samples, number by number.\<close>

definition exact_rate :: "nat \<Rightarrow> nat \<Rightarrow> nat \<Rightarrow> nat" where
  "exact_rate elapsed current before = min u64_max (((current - before) * 1000000000 + elapsed div 2) div elapsed)"

lemma add_rates_exact:
  assumes "proc_counters reader current" "before_at < now" "now - before_at < 2 ^ 94"
  shows "hm_disk_read_rate (add_rates now current (Some (before_at, before)) m) = exact_rate (now - before_at) (ct_disk_read current) (ct_disk_read before)"
    "hm_disk_write_rate (add_rates now current (Some (before_at, before)) m) = exact_rate (now - before_at) (ct_disk_write current) (ct_disk_write before)"
    "hm_network_receive_rate (add_rates now current (Some (before_at, before)) m) = exact_rate (now - before_at) (ct_network_receive current) (ct_network_receive before)"
    "hm_network_transmit_rate (add_rates now current (Some (before_at, before)) m) = exact_rate (now - before_at) (ct_network_transmit current) (ct_network_transmit before)"
  using assms(2) proc_counters_le [OF assms(1)]
  by (simp_all add: add_rates_def Let_def rate_exact [OF _ assms(3)] exact_rate_def)

text \<open>Elsewhere: the first sample has no rates, every sample becomes the base of the next, and the network rates are computed from its totals, which
  wrap around at \<^verbatim>\<open>u64\<close>.\<close>

lemma sysinfo_sample:
  assumes "sample_from_sysinfo lib now c = (m, c')"
  shows "\<exists>current. sc_previous c' = Some (now, current) \<and> sc_current_pid c' = sc_current_pid c \<and>
    ct_network_receive current = sum_list (map fst (si_networks lib (sc_networks c'))) mod 2 ^ 64 \<and>
    (sc_previous c = None \<longrightarrow> hm_network_receive_rate m = 0 \<and> hm_network_transmit_rate m = 0) \<and>
    (\<forall>at before. sc_previous c = Some (at, before) \<and> at < now \<longrightarrow>
       hm_network_receive_rate m = rate (ct_network_receive current) (ct_network_receive before) (now - at) \<and>
       hm_network_transmit_rate m = rate (ct_network_transmit current) (ct_network_transmit before) (now - at)) \<and>
    hm_threads m < 2 ^ 32 \<and> (sc_current_pid c = None \<longrightarrow> hm_resident m = 0 \<and> hm_threads m = 0)"
proof -
  obtain r n where u: "process_usage lib (refreshed lib c) = (r, n)" by fastforce
  then have n: "n < 2 ^ 32" "sc_current_pid c = None \<longrightarrow> r = 0 \<and> n = 0"
    by (auto simp: process_usage_def refreshed_def Let_def split: option.splits)
  have p: "sc_previous (refreshed lib c) = sc_previous c" "sc_current_pid (refreshed lib c) = sc_current_pid c"
    "sc_networks (refreshed lib c) = si_refresh_networks lib (sc_networks c)" by (simp_all add: refreshed_def Let_def)
  show ?thesis using assms n
    by (cases "sc_previous c") (auto simp: sample_from_sysinfo_def Let_def u p sum_u64_def network_rates_def split: prod.splits)
qed

section \<open>Properties\<close>

text \<open>C37. On Linux a sample that succeeds never reports more memory or swap used than there is or more than a hundred percent of
  processor time, and it becomes the base of the next, with the counters found in the files. The first one, and one taken in the same instant, reports no rates; every
  other reports for the four counters exactly their growth per second since the base, rounded to the nearest integer and cut off at \<^verbatim>\<open>u64\<close>, and the share of the
  processor time that was busy. A sample that fails leaves the base untouched, so the next rates cover the whole time since the last good one.\<close>

theorem metrics_sample_sound:
  assumes "sample_from pf reader now prev = (r, prev')"
  shows "(\<forall>e. r = Inl e \<longrightarrow> prev' = prev) \<and>
    (\<forall>m. r = Inr m \<longrightarrow>
       hm_memory_used m \<le> hm_memory_total m \<and> hm_swap_used m \<le> hm_swap_total m \<and> (\<exists>b \<le> 10000. hm_cpu m = BasisPoints b) \<and>
       (\<exists>current. prev' = Some (now, current) \<and> proc_counters reader current \<and>
          (prev = None \<or> (\<exists>before. prev = Some (now, before)) \<longrightarrow>
             hm_disk_read_rate m = 0 \<and> hm_disk_write_rate m = 0 \<and> hm_network_receive_rate m = 0 \<and> hm_network_transmit_rate m = 0) \<and>
          (\<forall>at before. prev = Some (at, before) \<and> at < now \<and> now - at < 2 ^ 94 \<longrightarrow>
             hm_disk_read_rate m = exact_rate (now - at) (ct_disk_read current) (ct_disk_read before) \<and>
             hm_disk_write_rate m = exact_rate (now - at) (ct_disk_write current) (ct_disk_write before) \<and>
             hm_network_receive_rate m = exact_rate (now - at) (ct_network_receive current) (ct_network_receive before) \<and>
             hm_network_transmit_rate m = exact_rate (now - at) (ct_network_transmit current) (ct_network_transmit before) \<and>
             (let total = ct_cpu_total current - ct_cpu_total before; idle = ct_cpu_idle current - ct_cpu_idle before in
              (total - idle) * 10000 \<le> u64_max \<longrightarrow> hm_cpu m = BasisPoints ((total - idle) * 10000 div total)))))"
proof (intro conjI allI impI)
  fix e assume "r = Inl e"
  with assms show "prev' = prev" using sample_from_error by blast
next
  fix m assume "r = Inr m"
  with assms have s: "sample_from pf reader now prev = (Inr m, prev')" by simp
  obtain current m0 where b: "prev' = Some (now, current)" "m = add_rates now current prev m0" "proc_counters reader current"
    "hm_memory_used m0 \<le> hm_memory_total m0" "hm_swap_used m0 \<le> hm_swap_total m0"
    and z: "hm_cpu m0 = BasisPoints 0" "hm_disk_read_rate m0 = 0" "hm_disk_write_rate m0 = 0"
    "hm_network_receive_rate m0 = 0" "hm_network_transmit_rate m0 = 0"
    using s by (rule sample_from_ok)
  note rates = add_rates_def Let_def busy_basis_points_le
  show "hm_memory_used m \<le> hm_memory_total m" "hm_swap_used m \<le> hm_swap_total m" "(\<exists>b \<le> 10000. hm_cpu m = BasisPoints b)"
    using b z by (cases prev; force simp: rates)+
  have cpu: "hm_cpu m = BasisPoints ((t - i) * 10000 div t)"
    if "prev = Some (at, before)" "at < now" "t = ct_cpu_total current - ct_cpu_total before" "i = ct_cpu_idle current - ct_cpu_idle before"
      "(t - i) * 10000 \<le> u64_max" for at before t i
    using that b(2) busy_basis_points_exact [OF that(5)] by (simp add: add_rates_def Let_def sat_sub_def)
  have none: "hm_disk_read_rate m = 0 \<and> hm_disk_write_rate m = 0 \<and> hm_network_receive_rate m = 0 \<and> hm_network_transmit_rate m = 0"
    if "prev = None \<or> (\<exists>before. prev = Some (now, before))" using that b(2) z by (auto simp: add_rates_def)
  show "\<exists>current. prev' = Some (now, current) \<and> proc_counters reader current \<and>
      (prev = None \<or> (\<exists>before. prev = Some (now, before)) \<longrightarrow>
         hm_disk_read_rate m = 0 \<and> hm_disk_write_rate m = 0 \<and> hm_network_receive_rate m = 0 \<and> hm_network_transmit_rate m = 0) \<and>
      (\<forall>at before. prev = Some (at, before) \<and> at < now \<and> now - at < 2 ^ 94 \<longrightarrow>
         hm_disk_read_rate m = exact_rate (now - at) (ct_disk_read current) (ct_disk_read before) \<and>
         hm_disk_write_rate m = exact_rate (now - at) (ct_disk_write current) (ct_disk_write before) \<and>
         hm_network_receive_rate m = exact_rate (now - at) (ct_network_receive current) (ct_network_receive before) \<and>
         hm_network_transmit_rate m = exact_rate (now - at) (ct_network_transmit current) (ct_network_transmit before) \<and>
         (let total = ct_cpu_total current - ct_cpu_total before; idle = ct_cpu_idle current - ct_cpu_idle before in
          (total - idle) * 10000 \<le> u64_max \<longrightarrow> hm_cpu m = BasisPoints ((total - idle) * 10000 div total)))"
    using none cpu by (intro exI [of _ current]) (auto simp: b(1,3) b(2) Let_def add_rates_exact [OF b(3)])
qed

text \<open>The second of two samples, two seconds later: a disk has read 20 sectors more.\<close>

theorem metrics_sample_sound_witness:
  "\<exists>m prev' before. sample_from Some
       (\<lambda>p. if p = ''/proc/stat'' then Some ''cpu 9 0 0 1'' else if p = ''/proc/loadavg'' then Some ''a b c''
            else if p = ''/proc/diskstats'' then Some ''8 0 sda 0 0 20 0 0 0 5'' else Some [])
       2000000000 (Some (0, before)) = (Inr m, prev') \<and>
     hm_disk_read_rate m = 5120 \<and> hm_disk_write_rate m = 1280 \<and> hm_cpu m = BasisPoints 9000"
proof -
  define reader where "reader = (\<lambda>p. if p = ''/proc/stat'' then Some ''cpu 9 0 0 1'' else if p = ''/proc/loadavg'' then Some ''a b c''
            else if p = ''/proc/diskstats'' then Some ''8 0 sda 0 0 20 0 0 0 5'' else Some [])"
  let ?before = "\<lparr>ct_cpu_total = 0, ct_cpu_idle = 0, ct_disk_read = 0, ct_disk_write = 0, ct_network_receive = 0, ct_network_transmit = 0\<rparr>"
  have w: "text_lines ''cpu 9 0 0 1'' = [''cpu 9 0 0 1'']" "split_whitespace ''cpu 9 0 0 1'' = [''cpu'', ''9'', ''0'', ''0'', ''1'']"
    "text_lines ''8 0 sda 0 0 20 0 0 0 5'' = [''8 0 sda 0 0 20 0 0 0 5'']"
    "split_whitespace ''8 0 sda 0 0 20 0 0 0 5'' = [''8'', ''0'', ''sda'', ''0'', ''0'', ''20'', ''0'', ''0'', ''0'', ''5'']"
    "split_whitespace ''a b c'' = [''a'', ''b'', ''c'']" "text_lines [] = []" by code_simp+
  have n: "parse_u64 ''9'' = Some 9" "parse_u64 ''0'' = Some 0" "parse_u64 ''1'' = Some 1" "parse_u64 ''20'' = Some 20" "parse_u64 ''5'' = Some 5"
    by (simp_all add: parse_unsigned_def parse_nat_def parse_digit_def u64_max_def)
  have cpu: "parse_cpu ''cpu 9 0 0 1'' = Inr (10, 1)"
    unfolding parse_cpu_def by (simp add: w n starts_with_def) (simp add: sum_u64_def nth_or_zero_def sat_simps u64_max_def)
  have disk: "parse_disk ''8 0 sda 0 0 20 0 0 0 5'' = (10240, 2560)"
    unfolding parse_disk_def by (simp add: parse_disk_line_def w n starts_with_def field_u64_def get_at_def map_filter_def)
      (simp add: add_pair_def sat_simps u64_max_def)
  have net: "parse_network [] = (0, 0)" by (simp add: parse_network_def w)
  have load: "parse_load Some ''a b c'' = Inr (''a'', ''b'', ''c'')" by (simp add: parse_load_def w)
  obtain m prev' where s: "sample_from Some reader 2000000000 (Some (0, ?before)) = (Inr m, prev')"
    by (cases "parse_memory []"; cases "parse_process []")
      (simp add: sample_from_def read_proc_def reader_def cpu disk net load Let_def)
  from metrics_sample_sound [OF s] obtain current where c: "proc_counters reader current"
    "hm_disk_read_rate m = exact_rate 2000000000 (ct_disk_read current) 0" "hm_disk_write_rate m = exact_rate 2000000000 (ct_disk_write current) 0"
    "(ct_cpu_total current - ct_cpu_idle current) * 10000 \<le> u64_max \<longrightarrow>
       hm_cpu m = BasisPoints ((ct_cpu_total current - ct_cpu_idle current) * 10000 div ct_cpu_total current)" by (auto simp: Let_def)
  from c(1) have "ct_disk_read current = 10240" "ct_disk_write current = 2560" "ct_cpu_total current = 10" "ct_cpu_idle current = 1"
    by (simp_all add: proc_counters_def reader_def cpu disk)
  with c have "hm_disk_read_rate m = 5120 \<and> hm_disk_write_rate m = 1280 \<and> hm_cpu m = BasisPoints 9000"
    by (simp add: exact_rate_def u64_max_def)
  with s show ?thesis unfolding reader_def by blast
qed

text \<open>Unless it is cut off at the largest \<^verbatim>\<open>u64\<close>, the rate is the growth of the counter per second rounded to the nearest
  integer: the 128-bit intermediate values never saturate for any two counters and any duration; and a counter that went
  backwards counts as no growth.\<close>

lemma rate_nearest:
  assumes "c \<le> u64_max" "0 < e" "e < 2 ^ 94" "rate c p e < u64_max"
  shows "2 * (rate c p e * e) \<le> 2 * ((c - p) * 1000000000) + e \<and>
    2 * ((c - p) * 1000000000) < 2 * (rate c p e * e) + e + 1 \<and> (c \<le> p \<longrightarrow> rate c p e = 0)"
proof (intro conjI impI)
  note round = div_round_nearest [OF assms(2), of "(c - p) * 1000000000", folded rate_unsaturated [OF assms]]
  show "2 * (rate c p e * e) \<le> 2 * ((c - p) * 1000000000) + e" "2 * ((c - p) * 1000000000) < 2 * (rate c p e * e) + e + 1"
    using round by blast+
  show "rate c p e = 0" if "c \<le> p" using that by (rule rate_zero)
qed

end
