(* ===== verification/Database.thy ===== *)
theory Database
  imports Strings
begin

text \<open>
  \<^verbatim>\<open>base_db/src\<close>: pool configuration, schema migrations, and backup and restore of SQLite files.

  The database engine is an argument: \<open>exec_sql\<close> runs a script on the application's tables (an error comes with the tables it leaves), \<open>rollback before after\<close> is what a
  transaction that is dropped leaves of its changes (SQLite leaves none; MySQL commits schema changes at once). Every
  other call to the engine may fail; \<open>fault\<close> says which one, if any, while a migration is processed.
\<close>

section \<open>Errors and pools\<close>

datatype database_error =
  InvalidPoolConfig string
| Sqlx string
| SqliteIo string
| Integrity string
| MigrationConflict int string string

record pool_config =
  pc_max_size :: nat
  pc_min_idle :: "nat option"
  pc_connection_timeout :: nat
  pc_max_lifetime :: "nat option"
  pc_idle_timeout :: "nat option"
  pc_test_on_check_out :: bool

text \<open>Durations in nanoseconds.\<close>

definition pool_config_default :: pool_config where
  "pool_config_default = \<lparr>pc_max_size = 16, pc_min_idle = Some 1, pc_connection_timeout = 8000000000,
     pc_max_lifetime = Some 1800000000000, pc_idle_timeout = Some 60000000000, pc_test_on_check_out = False\<rparr>"

definition pool_validate :: "pool_config \<Rightarrow> database_error + unit" where
  "pool_validate c =
     (if pc_max_size c = 0 then Inl (InvalidPoolConfig ''max_size must be greater than zero'')
      else if (case pc_min_idle c of None \<Rightarrow> False | Some m \<Rightarrow> m > pc_max_size c)
      then Inl (InvalidPoolConfig ''min_idle must not exceed max_size'')
      else if pc_connection_timeout c = 0 then Inl (InvalidPoolConfig ''connection_timeout must be greater than zero'')
      else Inr ())"

record pool_options =
  po_max_connections :: nat
  po_min_connections :: nat
  po_acquire_timeout :: nat
  po_max_lifetime :: "nat option"
  po_idle_timeout :: "nat option"
  po_test_before_acquire :: bool

definition build_pool :: "pool_config \<Rightarrow> database_error + pool_options" where
  "build_pool c =
     (case pool_validate c of
        Inl e \<Rightarrow> Inl e
      | Inr _ \<Rightarrow> Inr \<lparr>po_max_connections = pc_max_size c,
          po_min_connections = (case pc_min_idle c of None \<Rightarrow> 0 | Some m \<Rightarrow> m),
          po_acquire_timeout = pc_connection_timeout c, po_max_lifetime = pc_max_lifetime c,
          po_idle_timeout = pc_idle_timeout c, po_test_before_acquire = pc_test_on_check_out c\<rparr>)"

datatype journal_mode = Wal | DeleteJournal
datatype synchronous_mode = NormalSync

record sqlite_config =
  sc_path :: string
  sc_read_only :: bool
  sc_create_if_missing :: bool
  sc_foreign_keys :: bool
  sc_journal :: journal_mode
  sc_synchronous :: synchronous_mode
  sc_busy_timeout :: nat

definition sqlite_config_new :: "string \<Rightarrow> sqlite_config" where
  "sqlite_config_new path = \<lparr>sc_path = path, sc_read_only = False, sc_create_if_missing = True, sc_foreign_keys = True,
     sc_journal = Wal, sc_synchronous = NormalSync, sc_busy_timeout = 5000000000\<rparr>"

text \<open>The options handed to the driver: a read-only connection never creates the file.\<close>

definition connect_options :: "sqlite_config \<Rightarrow> sqlite_config" where
  "connect_options c = c\<lparr>sc_create_if_missing := sc_create_if_missing c \<and> \<not> sc_read_only c\<rparr>"

definition build_sqlite_pool :: "sqlite_config \<Rightarrow> pool_config \<Rightarrow> database_error + (sqlite_config \<times> pool_options)" where
  "build_sqlite_pool connection pool =
     (case build_pool pool of Inl e \<Rightarrow> Inl e | Inr po \<Rightarrow> Inr (connect_options connection, po))"

section \<open>Migrations\<close>

record migration =
  mg_version :: int
  mg_name :: string
  mg_sql :: string

record 'd database =
  db_migrations :: "int \<rightharpoonup> (string \<times> int)"     \<comment> \<open>name and time applied\<close>
  db_data :: 'd

datatype engine_fault =
  FailBegin string
| FailSelect string
| FailInsert string
| FailCommit string bool      \<comment> \<open>and whether the commit took effect all the same\<close>

definition now_ms :: "nat option \<Rightarrow> int" where
  "now_ms milliseconds = (let m = (case milliseconds of None \<Rightarrow> 0 | Some m \<Rightarrow> m) in int (min m (2 ^ 63 - 1)))"

definition ensure_migration_matches :: "migration \<Rightarrow> string \<Rightarrow> database_error + unit" where
  "ensure_migration_matches m existing =
     (if existing = mg_name m then Inr () else Inl (MigrationConflict (mg_version m) existing (mg_name m)))"

text \<open>One round of the loop: the error, if any, and the database.\<close>

definition migrate_one ::
  "(string \<Rightarrow> 'd \<Rightarrow> (string \<times> 'd) + 'd) \<Rightarrow> ('d \<Rightarrow> 'd \<Rightarrow> 'd) \<Rightarrow> engine_fault option \<Rightarrow> nat option \<Rightarrow> migration \<Rightarrow> 'd database
     \<Rightarrow> database_error option \<times> 'd database" where
  "migrate_one exec_sql rollback fault clock m db =
     (case fault of
        Some (FailBegin e) \<Rightarrow> (Some (Sqlx e), db)
      | Some (FailSelect e) \<Rightarrow> (Some (Sqlx e), db)
      | _ \<Rightarrow>
          (case db_migrations db (mg_version m) of
             Some (existing, _) \<Rightarrow>
               (case ensure_migration_matches m existing of
                  Inl e \<Rightarrow> (Some e, db)
                | Inr _ \<Rightarrow> (case fault of Some (FailCommit e _) \<Rightarrow> (Some (Sqlx e), db) | _ \<Rightarrow> (None, db)))
           | None \<Rightarrow>
               (case exec_sql (mg_sql m) (db_data db) of
                  Inl (e, partial) \<Rightarrow> (Some (Sqlx e), db\<lparr>db_data := rollback (db_data db) partial\<rparr>)
                | Inr data' \<Rightarrow>
                    (let undone = db\<lparr>db_data := rollback (db_data db) data'\<rparr>;
                         committed = db\<lparr>db_migrations := (db_migrations db)(mg_version m \<mapsto> (mg_name m, now_ms clock)), db_data := data'\<rparr> in
                     case fault of
                       Some (FailInsert e) \<Rightarrow> (Some (Sqlx e), undone)
                     | Some (FailCommit e took_effect) \<Rightarrow> (Some (Sqlx e), if took_effect then committed else undone)
                     | _ \<Rightarrow> (None, committed)))))"

text \<open>The loop: \<open>faults\<close> and \<open>clocks\<close> for the rounds still to come.\<close>

fun migrate_all ::
  "(string \<Rightarrow> 'd \<Rightarrow> (string \<times> 'd) + 'd) \<Rightarrow> ('d \<Rightarrow> 'd \<Rightarrow> 'd) \<Rightarrow> (nat \<Rightarrow> engine_fault option) \<Rightarrow> (nat \<Rightarrow> nat option)
     \<Rightarrow> migration list \<Rightarrow> 'd database \<Rightarrow> database_error option \<times> 'd database" where
  "migrate_all exec_sql rollback faults clocks [] db = (None, db)"
| "migrate_all exec_sql rollback faults clocks (m # ms) db =
     (case migrate_one exec_sql rollback (faults 0) (clocks 0) m db of
        (Some e, db') \<Rightarrow> (Some e, db')
      | (None, db') \<Rightarrow> migrate_all exec_sql rollback (\<lambda>i. faults (Suc i)) (\<lambda>i. clocks (Suc i)) ms db')"

text \<open>\<open>create\<close>: the failure of creating the bookkeeping table, if any. The two functions have the same body; they differ in what their engine
  does with a transaction that is dropped.\<close>

definition run_sqlite_migrations ::
  "(string \<Rightarrow> 'd \<Rightarrow> (string \<times> 'd) + 'd) \<Rightarrow> ('d \<Rightarrow> 'd \<Rightarrow> 'd) \<Rightarrow> string option \<Rightarrow> (nat \<Rightarrow> engine_fault option) \<Rightarrow> (nat \<Rightarrow> nat option)
     \<Rightarrow> migration list \<Rightarrow> 'd database \<Rightarrow> database_error option \<times> 'd database" where
  "run_sqlite_migrations exec_sql rollback create faults clocks ms db =
     (case create of
        Some e \<Rightarrow> (Some (Sqlx e), db)
      | None \<Rightarrow> migrate_all exec_sql rollback faults clocks ms db)"

definition run_mysql_migrations ::
  "(string \<Rightarrow> 'd \<Rightarrow> (string \<times> 'd) + 'd) \<Rightarrow> ('d \<Rightarrow> 'd \<Rightarrow> 'd) \<Rightarrow> string option \<Rightarrow> (nat \<Rightarrow> engine_fault option) \<Rightarrow> (nat \<Rightarrow> nat option)
     \<Rightarrow> migration list \<Rightarrow> 'd database \<Rightarrow> database_error option \<times> 'd database" where
  "run_mysql_migrations exec_sql rollback create faults clocks ms db =
     (case create of
        Some e \<Rightarrow> (Some (Sqlx e), db)
      | None \<Rightarrow> migrate_all exec_sql rollback faults clocks ms db)"

section \<open>Backup and restore\<close>

type_synonym 'c files = "string \<rightharpoonup> 'c"

definition eq_ignore_ascii_case :: "string \<Rightarrow> string \<Rightarrow> bool" where
  "eq_ignore_ascii_case a b \<longleftrightarrow> map lower_char a = map lower_char b"

text \<open>\<open>answer\<close>: what \<^verbatim>\<open>PRAGMA integrity_check\<close> returns for a file's content.\<close>

definition check_sqlite_integrity :: "('c \<Rightarrow> string + string) \<Rightarrow> 'c \<Rightarrow> database_error option" where
  "check_sqlite_integrity answer content =
     (case answer content of
        Inl e \<Rightarrow> Some (Sqlx e)
      | Inr result \<Rightarrow> if eq_ignore_ascii_case result ''ok'' then None else Some (Integrity result))"

definition read_only_pool_config :: pool_config where
  "read_only_pool_config = pool_config_default\<lparr>pc_max_size := 1, pc_min_idle := Some 0\<rparr>"

definition open_read_only_pool :: "'c files \<Rightarrow> string \<Rightarrow> database_error + (sqlite_config \<times> pool_options)" where
  "open_read_only_pool fs path =
     (if fs path = None then Inl (SqliteIo (''sqlite file does not exist: '' @ path))
      else build_sqlite_pool ((sqlite_config_new path)\<lparr>sc_read_only := True, sc_create_if_missing := False, sc_journal := DeleteJournal\<rparr>)
             read_only_pool_config)"

text \<open>Opening a file read-only and checking it.\<close>

definition open_and_check :: "('c \<Rightarrow> string + string) \<Rightarrow> 'c files \<Rightarrow> string \<Rightarrow> database_error option" where
  "open_and_check answer fs path =
     (case open_read_only_pool fs path of
        Inl e \<Rightarrow> Some e
      | Inr (c, _) \<Rightarrow> (case fs (sc_path c) of None \<Rightarrow> Some (Sqlx ''unable to open database file'') | Some content \<Rightarrow> check_sqlite_integrity answer content))"

text \<open>\<^verbatim>\<open>Path::parent\<close> on the components of a path and whether it is absolute; the parent directory is made unless it is the empty path.\<close>

definition path_components :: "string \<Rightarrow> bool \<times> string list" where
  "path_components path =
     (let parts = split_by (\<lambda>c. c = CHR ''/'') path; absolute = starts_with path ''/'' in
      (absolute,
       (if \<not> absolute \<and> hd parts = ''.'' then [''.''] else []) @ filter (\<lambda>c. c \<noteq> [] \<and> c \<noteq> ''.'') parts))"

definition parent_path :: "bool \<times> string list \<Rightarrow> (bool \<times> string list) option" where
  "parent_path p = (if snd p = [] then None else Some (fst p, butlast (snd p)))"

definition ensure_parent_directory :: "(bool \<times> string list \<Rightarrow> string option) \<Rightarrow> string \<Rightarrow> string option" where
  "ensure_parent_directory create_dir_all path =
     (case parent_path (path_components path) of
        None \<Rightarrow> None
      | Some parent \<Rightarrow> if parent = (False, []) then None else create_dir_all parent)"

text \<open>\<open>mkdir\<close> creates directories, \<open>vacuum\<close> is what \<^verbatim>\<open>VACUUM INTO\<close> writes or its error.\<close>

definition backup_sqlite ::
  "(bool \<times> string list \<Rightarrow> string option) \<Rightarrow> string + 'c \<Rightarrow> ('c \<Rightarrow> string + string) \<Rightarrow> string \<Rightarrow> 'c files \<Rightarrow> database_error option \<times> 'c files" where
  "backup_sqlite mkdir vacuum answer destination fs =
     (case ensure_parent_directory mkdir destination of
        Some e \<Rightarrow> (Some (SqliteIo e), fs)
      | None \<Rightarrow>
          if fs destination \<noteq> None then (Some (SqliteIo (''backup destination already exists: '' @ destination)), fs)
          else case vacuum of
                 Inl e \<Rightarrow> (Some (Sqlx e), fs)
               | Inr content \<Rightarrow> (let fs' = fs(destination \<mapsto> content) in (open_and_check answer fs' destination, fs')))"

text \<open>\<^verbatim>\<open>std::fs::copy\<close>: it fails and leaves something or nothing at the destination, or it copies; a file copied onto itself is truncated, as its documentation warns.\<close>

datatype 'c copy_outcome = CopyOk | CopyFailed string "'c option"

definition copied :: "'c \<Rightarrow> string \<Rightarrow> string \<Rightarrow> 'c files \<Rightarrow> 'c files" where
  "copied truncated source_path destination fs =
     (if source_path = destination then fs(destination \<mapsto> truncated) else fs(destination := fs source_path))"

definition restore_sqlite ::
  "(bool \<times> string list \<Rightarrow> string option) \<Rightarrow> 'c \<Rightarrow> 'c copy_outcome \<Rightarrow> ('c \<Rightarrow> string + string) \<Rightarrow> string \<Rightarrow> string \<Rightarrow> 'c files \<Rightarrow>
   database_error option \<times> 'c files" where
  "restore_sqlite mkdir truncated copy answer source_path destination fs =
     (case open_and_check answer fs source_path of
        Some e \<Rightarrow> (Some e, fs)
      | None \<Rightarrow>
          (case ensure_parent_directory mkdir destination of
             Some e \<Rightarrow> (Some (SqliteIo e), fs)
           | None \<Rightarrow>
               (case copy of
                  CopyFailed e left \<Rightarrow> (Some (SqliteIo e), fs(destination := left))
                | CopyOk \<Rightarrow>
                    (let fs' = copied truncated source_path destination fs in (open_and_check answer fs' destination, fs')))))"

text \<open>\<^verbatim>\<open>health.rs\<close>: both databases are asked \<^verbatim>\<open>SELECT 1\<close>.\<close>

definition check_connection :: "(string \<Rightarrow> string + unit) \<Rightarrow> database_error option" where
  "check_connection execute = (case execute ''SELECT 1'' of Inl e \<Rightarrow> Some (Sqlx e) | Inr _ \<Rightarrow> None)"

section \<open>The specification of migrations\<close>

text \<open>What matters of a database: which migrations are recorded under which name, and the data.\<close>

type_synonym 'd schema = "(int \<rightharpoonup> string) \<times> 'd"

definition view :: "'d database \<Rightarrow> 'd schema" where
  "view db = ((\<lambda>v. map_option fst (db_migrations db v)), db_data db)"

definition spec_one :: "(string \<Rightarrow> 'd \<Rightarrow> (string \<times> 'd) + 'd) \<Rightarrow> migration \<Rightarrow> 'd schema \<Rightarrow> database_error option \<times> 'd schema" where
  "spec_one exec_sql m s =
     (case fst s (mg_version m) of
        Some n \<Rightarrow> (if n = mg_name m then None else Some (MigrationConflict (mg_version m) n (mg_name m)), s)
      | None \<Rightarrow>
          (case exec_sql (mg_sql m) (snd s) of
             Inl (e, _) \<Rightarrow> (Some (Sqlx e), s)
           | Inr d \<Rightarrow> (None, ((fst s)(mg_version m \<mapsto> mg_name m), d))))"

fun spec_all :: "(string \<Rightarrow> 'd \<Rightarrow> (string \<times> 'd) + 'd) \<Rightarrow> migration list \<Rightarrow> 'd schema \<Rightarrow> database_error option \<times> 'd schema" where
  "spec_all exec_sql [] s = (None, s)"
| "spec_all exec_sql (m # ms) s =
     (case spec_one exec_sql m s of (Some e, s') \<Rightarrow> (Some e, s') | (None, s') \<Rightarrow> spec_all exec_sql ms s')"

text \<open>A transaction that is dropped leaves nothing behind. SQLite promises it also for changes of the schema; MySQL does not, it commits before and
  after each of them.\<close>

definition atomic_rollback :: "('d \<Rightarrow> 'd \<Rightarrow> 'd) \<Rightarrow> bool" where
  "atomic_rollback rollback \<longleftrightarrow> (\<forall>before after. rollback before after = before)"

lemma migrate_one_no_fault:
  assumes "atomic_rollback rollback" "migrate_one exec rollback None c m db = (r, db')"
  shows "spec_one exec m (view db) = (r, view db')"
  using assms
  by (auto simp: migrate_one_def spec_one_def view_def atomic_rollback_def ensure_migration_matches_def Let_def
      split: option.splits prod.splits sum.splits if_splits)

lemma spec_one_error: "spec_one exec m s = (Some e, s') \<Longrightarrow> s' = s"
  by (auto simp: spec_one_def split: option.splits sum.splits if_splits)

text \<open>With a fault the database is as before, or as after a round without fault.\<close>

lemma migrate_one_fault:
  assumes "atomic_rollback rollback" "migrate_one exec rollback f c m db = (r, db')"
  shows "view db' = view db \<and> r \<noteq> None \<or> spec_one exec m (view db) = (None, view db')"
proof (cases f)
  case None
  with migrate_one_no_fault assms have s: "spec_one exec m (view db) = (r, view db')" by blast
  then show ?thesis using spec_one_error by (cases r) fastforce+
next
  case (Some x)
  note [simp] = migrate_one_def spec_one_def view_def ensure_migration_matches_def Let_def
  have rb: "rollback b a = b" for b a using assms(1) by (simp add: atomic_rollback_def)
  from assms(2) Some show ?thesis
  proof (cases "db_migrations db (mg_version m)")
    case None
    with assms(2) Some rb show ?thesis
      by (cases x; cases "exec (mg_sql m) (db_data db)") (auto split: if_splits)
  next
    case (Some y)
    with assms(2) \<open>f = Some x\<close> show ?thesis by (cases x; cases y) (auto split: if_splits)
  qed
qed

lemma migrate_one_ok:
  assumes "atomic_rollback rollback" "migrate_one exec rollback f c m db = (None, db')"
  shows "spec_one exec m (view db) = (None, view db')"
  using migrate_one_fault [OF assms] by simp

lemma migrate_all_prefix:
  assumes "atomic_rollback rollback" "migrate_all exec rollback faults clocks ms db = (r, db')"
  shows "\<exists>k \<le> length ms. spec_all exec (take k ms) (view db) = (None, view db') \<and> (r = None \<longrightarrow> k = length ms)"
  using assms(2)
proof (induction ms arbitrary: db faults clocks)
  case (Cons m ms)
  obtain r1 db1 where one: "migrate_one exec rollback (faults 0) (clocks 0) m db = (r1, db1)" by fastforce
  show ?case
  proof (cases r1)
    case None
    then have "migrate_all exec rollback (\<lambda>i. faults (Suc i)) (\<lambda>i. clocks (Suc i)) ms db1 = (r, db')"
      using Cons.prems one by simp
    then obtain k where "k \<le> length ms" "spec_all exec (take k ms) (view db1) = (None, view db')" "r = None \<longrightarrow> k = length ms"
      using Cons.IH by blast
    moreover have "spec_one exec m (view db) = (None, view db1)" using migrate_one_ok [OF assms(1)] one None by simp
    ultimately show ?thesis by (intro exI [of _ "Suc k"]) simp
  next
    case (Some e)
    then have r: "r = Some e" "db' = db1" using Cons.prems one by simp_all
    from migrate_one_fault [OF assms(1) one]
    show ?thesis
    proof
      assume "view db1 = view db \<and> r1 \<noteq> None"
      then show ?thesis using r by (intro exI [of _ 0]) simp
    next
      assume "spec_one exec m (view db) = (None, view db1)"
      then show ?thesis using r by (intro exI [of _ 1]) simp
    qed
  qed
qed simp

text \<open>Migrations that went through stay recorded, and running them again changes nothing.\<close>

lemma spec_one_records: "spec_one exec m s = (None, s') \<Longrightarrow> fst s' (mg_version m) = Some (mg_name m) \<and> fst s \<subseteq>\<^sub>m fst s'"
  by (auto simp: spec_one_def map_le_def split: option.splits sum.splits if_splits)

lemma spec_all_records:
  "spec_all exec ms s = (None, s') \<Longrightarrow> (\<forall>m\<in>set ms. fst s' (mg_version m) = Some (mg_name m)) \<and> fst s \<subseteq>\<^sub>m fst s'"
proof (induction ms arbitrary: s)
  case (Cons m ms)
  then obtain s1 where s1: "spec_one exec m s = (None, s1)" "spec_all exec ms s1 = (None, s')"
    by (auto split: option.splits prod.splits)
  from Cons.IH [OF s1(2)] spec_one_records [OF s1(1)] show ?case
    by (auto intro: map_le_trans) (metis map_le_def domI)
qed simp

lemma spec_all_recorded: "\<forall>m\<in>set ms. fst s (mg_version m) = Some (mg_name m) \<Longrightarrow> spec_all exec ms s = (None, s)"
  by (induction ms) (auto simp: spec_one_def)

lemma spec_all_append:
  "spec_all exec ms s = (None, s') \<Longrightarrow> spec_all exec (ms @ ms') s = spec_all exec ms' s'"
proof (induction ms arbitrary: s)
  case (Cons m ms)
  then show ?case by (cases "spec_one exec m s"; cases "fst (spec_one exec m s)") auto
qed simp

lemma spec_all_resume:
  assumes "spec_all exec (take k ms) s = (None, s')"
  shows "spec_all exec ms s' = spec_all exec ms s"
proof -
  have "spec_all exec (take k ms) s' = (None, s')" using spec_all_records [OF assms] by (intro spec_all_recorded) blast
  with assms have "spec_all exec (take k ms @ drop k ms) s' = spec_all exec (take k ms @ drop k ms) s"
    by (simp only: spec_all_append)
  then show ?thesis by simp
qed

lemma migrate_all_no_fault:
  assumes "atomic_rollback rollback" "migrate_all exec rollback (\<lambda>_. None) clocks ms db = (r, db')"
  shows "spec_all exec ms (view db) = (r, view db')"
  using assms(2)
proof (induction ms arbitrary: db clocks)
  case (Cons m ms)
  obtain r1 db1 where one: "migrate_one exec rollback None (clocks 0) m db = (r1, db1)" by fastforce
  with migrate_one_no_fault [OF assms(1) one] Cons show ?case by (cases r1) auto
qed simp

text \<open>On MySQL a failed round leaves the changes of its migration (the schema changes were committed implicitly, and dropping the transaction undoes
  nothing): the migration is not recorded, and the next run executes it a second time.\<close>

lemma mysql_applies_twice:
  assumes "\<And>before after. rollback before after = after" "db_migrations db (mg_version m) = None"
    and "exec (mg_sql m) (db_data db) = Inr d1" "exec (mg_sql m) d1 = Inr d2"
  shows "\<exists>db1. run_mysql_migrations exec rollback None (\<lambda>_. Some (FailInsert e)) clocks [m] db = (Some (Sqlx e), db1) \<and>
    db_data db1 = d1 \<and> db_migrations db1 (mg_version m) = None \<and>
    db_data (snd (run_mysql_migrations exec rollback None (\<lambda>_. None) clocks [m] db1)) = d2"
  using assms by (intro exI [of _ "db\<lparr>db_data := d1\<rparr>"]) (simp add: run_mysql_migrations_def migrate_one_def)

section \<open>Properties\<close>

text \<open>C15. Migrations of SQLite, which undoes schema changes with their transaction, implement their specification and survive any failure: whatever
  call to the engine fails, the database is as if a prefix of the migrations had been run without failure, all of them when
  success is reported; and a later run without failure ends exactly as it would have ended the first time.\<close>

theorem migrations_resumable:
  assumes "atomic_rollback rollback" "run_sqlite_migrations exec rollback create faults clocks ms db = (r, db')"
    and "run_sqlite_migrations exec rollback None (\<lambda>_. None) clocks' ms db' = (r2, db2)"
  shows "(\<exists>k \<le> length ms. spec_all exec (take k ms) (view db) = (None, view db') \<and> (r = None \<longrightarrow> k = length ms)) \<and>
    spec_all exec ms (view db) = (r2, view db2)"
proof -
  have p: "\<exists>k \<le> length ms. spec_all exec (take k ms) (view db) = (None, view db') \<and> (r = None \<longrightarrow> k = length ms)"
  proof (cases create)
    case None
    with assms(2) migrate_all_prefix [OF assms(1)] show ?thesis by (simp add: run_sqlite_migrations_def)
  next
    case (Some e)
    with assms(2) show ?thesis by (intro exI [of _ 0]) (auto simp: run_sqlite_migrations_def)
  qed
  have "spec_all exec ms (view db') = (r2, view db2)"
    using assms(3) migrate_all_no_fault [OF assms(1)] by (simp add: run_sqlite_migrations_def)
  with p show ?thesis using spec_all_resume by metis
qed

theorem migrations_resumable_witness:
  "\<exists>r2 db2. run_sqlite_migrations (\<lambda>sql d. Inr (d @ sql)) (\<lambda>b a. b) None (\<lambda>_. None) (\<lambda>_. None)
       [\<lparr>mg_version = 1, mg_name = ''a'', mg_sql = ''x''\<rparr>] \<lparr>db_migrations = Map.empty, db_data = []\<rparr> = (r2, db2) \<and>
     spec_all (\<lambda>sql d. Inr (d @ sql)) [\<lparr>mg_version = 1, mg_name = ''a'', mg_sql = ''x''\<rparr>]
       (view \<lparr>db_migrations = Map.empty, db_data = []\<rparr>) = (r2, view db2)"
proof -
  let ?ms = "[\<lparr>mg_version = 1, mg_name = ''a'', mg_sql = ''x''\<rparr>]" and ?db = "\<lparr>db_migrations = Map.empty, db_data = []\<rparr>"
  let ?exec = "\<lambda>sql d. Inr (d @ sql)" and ?rb = "\<lambda>b a. b"
  obtain r2 db2 where r: "run_sqlite_migrations ?exec ?rb None (\<lambda>_. None) (\<lambda>_. None) ?ms ?db = (r2, db2)" by fastforce
  have f: "run_sqlite_migrations ?exec ?rb None (\<lambda>_. Some (FailCommit ''io'' False)) (\<lambda>_. None) ?ms ?db = (Some (Sqlx ''io''), ?db)"
    by (simp add: run_sqlite_migrations_def migrate_one_def)
  from migrations_resumable [OF _ f r] r show ?thesis by (auto simp: atomic_rollback_def)
qed

text \<open>A backup that succeeds wrote a new file that passes the integrity check; no backup, successful or not, changes a file
  that existed. A restore to another file writes only after its source passed the check, never another file than the destination, and one
  that succeeds leaves there the content of the source.\<close>

lemma backup_restore_safe:
  "(\<forall>r fs'. backup_sqlite mkdir vacuum answer dst fs = (r, fs') \<longrightarrow>
      (\<forall>p. fs p \<noteq> None \<longrightarrow> fs' p = fs p) \<and> (\<forall>p. p \<noteq> dst \<longrightarrow> fs' p = fs p) \<and>
      (r = None \<longrightarrow> fs dst = None \<and> (\<exists>c. vacuum = Inr c \<and> fs' dst = Some c \<and> check_sqlite_integrity answer c = None))) \<and>
   (\<forall>r fs'. src \<noteq> dst \<and> restore_sqlite mkdir truncated copy answer src dst fs = (r, fs') \<longrightarrow>
      (fs' \<noteq> fs \<longrightarrow> (\<exists>c. fs src = Some c \<and> check_sqlite_integrity answer c = None)) \<and> (\<forall>p. p \<noteq> dst \<longrightarrow> fs' p = fs p) \<and>
      (r = None \<longrightarrow> fs' dst = fs src \<and> fs src \<noteq> None))"
proof -
  have open_ok: "open_and_check answer f p = None \<Longrightarrow> \<exists>c. f p = Some c \<and> check_sqlite_integrity answer c = None" for f p
    by (auto simp: open_and_check_def open_read_only_pool_def build_sqlite_pool_def connect_options_def sqlite_config_new_def
        split: if_splits sum.splits option.splits)
  have b: "(\<forall>p. fs p \<noteq> None \<longrightarrow> fs' p = fs p) \<and> (\<forall>p. p \<noteq> dst \<longrightarrow> fs' p = fs p) \<and>
      (r = None \<longrightarrow> fs dst = None \<and> (\<exists>c. vacuum = Inr c \<and> fs' dst = Some c \<and> check_sqlite_integrity answer c = None))"
    if "backup_sqlite mkdir vacuum answer dst fs = (r, fs')" for r fs'
    using that open_ok [of fs' dst] by (auto simp: backup_sqlite_def Let_def split: option.splits sum.splits if_splits)
  have rs: "(fs' \<noteq> fs \<longrightarrow> (\<exists>c. fs src = Some c \<and> check_sqlite_integrity answer c = None)) \<and> (\<forall>p. p \<noteq> dst \<longrightarrow> fs' p = fs p) \<and>
      (r = None \<longrightarrow> fs' dst = fs src \<and> fs src \<noteq> None)"
    if "src \<noteq> dst" "restore_sqlite mkdir truncated copy answer src dst fs = (r, fs')" for r fs'
  proof (cases "open_and_check answer fs src = None \<and> ensure_parent_directory mkdir dst = None")
    case True
    with open_ok obtain c where c: "fs src = Some c" "check_sqlite_integrity answer c = None" by blast
    show ?thesis
    proof (cases copy)
      case CopyOk
      with that True have "fs' = fs(dst := fs src)" by (simp add: restore_sqlite_def copied_def Let_def)
      with c that(1) show ?thesis by simp
    next
      case (CopyFailed e left)
      with that True have "fs' = fs(dst := left)" "r = Some (SqliteIo e)" by (simp_all add: restore_sqlite_def)
      with c show ?thesis by simp
    qed
  next
    case False
    then consider e where "open_and_check answer fs src = Some e" | e where "open_and_check answer fs src = None" "ensure_parent_directory mkdir dst = Some e"
      by fastforce
    then have "\<exists>e. restore_sqlite mkdir truncated copy answer src dst fs = (Some e, fs)"
      by cases (simp_all add: restore_sqlite_def)
    then have "\<exists>e. fs' = fs \<and> r = Some e" unfolding that(2) prod.inject by blast
    then show ?thesis by auto
  qed
  show ?thesis by (rule conjI; intro allI impI; (elim conjE)?) (rule b, assumption, rule rs)
qed

text \<open>Restoring a file onto itself: the source is checked, then emptied by the copy; an empty file is a sound empty database, so the loss is reported as success.\<close>

lemma restore_onto_itself_loses_data:
  assumes "fs p = Some content" "check_sqlite_integrity answer content = None" "check_sqlite_integrity answer truncated = None"
    and "ensure_parent_directory mkdir p = None"
  shows "restore_sqlite mkdir truncated CopyOk answer p p fs = (None, fs(p \<mapsto> truncated))"
proof -
  have "open_and_check answer f p = check_sqlite_integrity answer (the (f p))" if "f p \<noteq> None" for f :: "'a files"
    using that by (auto simp: open_and_check_def open_read_only_pool_def build_sqlite_pool_def connect_options_def sqlite_config_new_def
        build_pool_def pool_validate_def read_only_pool_config_def pool_config_default_def)
  with assms show ?thesis by (simp add: restore_sqlite_def copied_def)
qed

end
