(* ===== verification/Rpc.thy ===== *)
theory Rpc
  imports Strings
begin

text \<open>
  \<^verbatim>\<open>base_rpc/src\<close>: request metadata (\<^verbatim>\<open>interceptor.rs\<close>), the configuration of channels and servers (\<^verbatim>\<open>config.rs\<close>, \<^verbatim>\<open>channel.rs\<close>,
  \<^verbatim>\<open>server.rs\<close>) and its TLS part. Metadata is a map from names to values; \<open>parse_value\<close> (\<^verbatim>\<open>MetadataValue::from_str\<close>) and \<open>to_str\<close> are the
  library's and arguments. The builders of tonic are represented by the settings they are given. Durations are in
  nanoseconds; \<open>read_file\<close> is the content of a file or the error of reading it.
\<close>

section \<open>Errors\<close>

datatype rpc_error =
  InvalidEndpoint string
| Transport string
| RpcIo string
| InvalidMetadata string string
| Connection string

definition show_rpc_error :: "rpc_error \<Rightarrow> string" where
  "show_rpc_error e =
     (case e of
        InvalidEndpoint s \<Rightarrow> ''invalid endpoint: '' @ s
      | Transport s \<Rightarrow> ''transport error: '' @ s
      | RpcIo s \<Rightarrow> ''io error: '' @ s
      | InvalidMetadata name val \<Rightarrow> ''invalid metadata value for '' @ name @ '': '' @ val
      | Connection s \<Rightarrow> ''connection task failed: '' @ s)"

section \<open>Metadata\<close>

type_synonym metadata_map = "string \<rightharpoonup> string"

record rpc_metadata =
  rm_request_id :: "string option"
  rm_trace_id :: "string option"
  rm_node_id :: "string option"
  rm_instance_id :: "string option"
  rm_protocol_version :: "string option"
  rm_bearer_token :: "string option"

definition REQUEST_ID :: string where "REQUEST_ID = ''x-request-id''"
definition TRACE_ID :: string where "TRACE_ID = ''x-trace-id''"
definition NODE_ID :: string where "NODE_ID = ''x-node-id''"
definition INSTANCE_ID :: string where "INSTANCE_ID = ''x-instance-id''"
definition PROTOCOL_VERSION :: string where "PROTOCOL_VERSION = ''x-protocol-version''"
definition AUTHORIZATION :: string where "AUTHORIZATION = ''authorization''"

lemmas metadata_names = REQUEST_ID_def TRACE_ID_def NODE_ID_def INSTANCE_ID_def PROTOCOL_VERSION_def AUTHORIZATION_def

definition insert_value :: "(string \<Rightarrow> string option) \<Rightarrow> string \<Rightarrow> string \<Rightarrow> metadata_map \<Rightarrow> status + metadata_map" where
  "insert_value parse_value name val metadata =
     (case parse_value val of
        None \<Rightarrow> Inl \<lparr>st_code = Code_InvalidArgument, st_message = show_rpc_error (InvalidMetadata name val), st_metadata = Map.empty\<rparr>
      | Some v \<Rightarrow> Inr (metadata(name \<mapsto> v)))"

definition insert_optional ::
  "(string \<Rightarrow> string option) \<Rightarrow> string \<Rightarrow> string option \<Rightarrow> metadata_map \<Rightarrow> status + metadata_map" where
  "insert_optional parse_value name val metadata =
     (case val of None \<Rightarrow> Inr metadata | Some v \<Rightarrow> insert_value parse_value name v metadata)"

definition and_then :: "'e + 'a \<Rightarrow> ('a \<Rightarrow> 'e + 'b) \<Rightarrow> 'e + 'b" where
  "and_then r k = (case r of Inl e \<Rightarrow> Inl e | Inr x \<Rightarrow> k x)"

definition interceptor_call :: "(string \<Rightarrow> string option) \<Rightarrow> rpc_metadata \<Rightarrow> metadata_map \<Rightarrow> status + metadata_map" where
  "interceptor_call parse_value md request =
     and_then (insert_optional parse_value REQUEST_ID (rm_request_id md) request) (\<lambda>m1.
     and_then (insert_optional parse_value TRACE_ID (rm_trace_id md) m1) (\<lambda>m2.
     and_then (insert_optional parse_value NODE_ID (rm_node_id md) m2) (\<lambda>m3.
     and_then (insert_optional parse_value INSTANCE_ID (rm_instance_id md) m3) (\<lambda>m4.
     and_then (insert_optional parse_value PROTOCOL_VERSION (rm_protocol_version md) m4) (\<lambda>m5.
     case rm_bearer_token md of
       None \<Rightarrow> Inr m5
     | Some token \<Rightarrow> insert_value parse_value AUTHORIZATION (''Bearer '' @ token) m5)))))"

definition get_value :: "(string \<Rightarrow> string option) \<Rightarrow> metadata_map \<Rightarrow> string \<Rightarrow> string option" where
  "get_value to_str metadata name = metadata name \<bind> to_str"

definition extract_rpc_metadata :: "(string \<Rightarrow> string option) \<Rightarrow> metadata_map \<Rightarrow> rpc_metadata" where
  "extract_rpc_metadata to_str metadata =
     \<lparr>rm_request_id = get_value to_str metadata REQUEST_ID,
      rm_trace_id = get_value to_str metadata TRACE_ID,
      rm_node_id = get_value to_str metadata NODE_ID,
      rm_instance_id = get_value to_str metadata INSTANCE_ID,
      rm_protocol_version = get_value to_str metadata PROTOCOL_VERSION,
      rm_bearer_token = get_value to_str metadata AUTHORIZATION \<bind> (\<lambda>v. strip_prefix v ''Bearer '')\<rparr>"

section \<open>Configuration\<close>

datatype client_auth_mode = AuthDisabled | AuthRequired | AuthOptional

record tls_file_config =
  tf_certificate_path :: "string option"
  tf_private_key_path :: "string option"
  tf_ca_certificate_path :: "string option"
  tf_client_certificate_path :: "string option"
  tf_client_private_key_path :: "string option"
  tf_domain_name :: "string option"
  tf_use_native_roots :: bool
  tf_client_auth :: client_auth_mode
  tf_handshake_timeout :: nat

definition tls_file_config_default :: tls_file_config where
  "tls_file_config_default = \<lparr>tf_certificate_path = None, tf_private_key_path = None, tf_ca_certificate_path = None,
     tf_client_certificate_path = None, tf_client_private_key_path = None, tf_domain_name = None,
     tf_use_native_roots = False, tf_client_auth = AuthDisabled, tf_handshake_timeout = 5000000000\<rparr>"

record server_tls_config =
  sl_certificate_pem :: string
  sl_private_key_pem :: string
  sl_client_ca_pem :: "string option"
  sl_client_auth_optional :: bool
  sl_handshake_timeout :: nat

record client_tls_config =
  cl_domain_name :: "string option"
  cl_ca_certificate_pem :: "string option"
  cl_client_certificate_pem :: "string option"
  cl_client_private_key_pem :: "string option"
  cl_use_native_roots :: bool
  cl_handshake_timeout :: nat

record rpc_server_config =
  rs_concurrency_limit :: nat
  rs_tcp_keepalive :: "nat option"
  rs_tcp_keepalive_interval :: "nat option"
  rs_tcp_keepalive_retries :: "nat option"
  rs_http2_keepalive_interval :: "nat option"
  rs_http2_keepalive_timeout :: "nat option"
  rs_tls :: "server_tls_config option"

definition rpc_server_config_default :: rpc_server_config where
  "rpc_server_config_default = \<lparr>rs_concurrency_limit = 256, rs_tcp_keepalive = Some 60000000000,
     rs_tcp_keepalive_interval = Some 30000000000, rs_tcp_keepalive_retries = Some 3,
     rs_http2_keepalive_interval = Some 30000000000, rs_http2_keepalive_timeout = Some 10000000000, rs_tls = None\<rparr>"

record rpc_channel_config =
  rc_endpoint :: string
  rc_connect_timeout :: nat
  rc_request_timeout :: nat
  rc_tcp_keepalive :: "nat option"
  rc_tcp_keepalive_interval :: "nat option"
  rc_tcp_keepalive_retries :: "nat option"
  rc_http2_keepalive_interval :: nat
  rc_http2_keepalive_timeout :: nat
  rc_keep_alive_while_idle :: bool
  rc_tls :: "client_tls_config option"

definition rpc_channel_config_new :: "string \<Rightarrow> rpc_channel_config" where
  "rpc_channel_config_new endpoint = \<lparr>rc_endpoint = endpoint, rc_connect_timeout = 5000000000, rc_request_timeout = 10000000000,
     rc_tcp_keepalive = Some 60000000000, rc_tcp_keepalive_interval = Some 30000000000, rc_tcp_keepalive_retries = Some 3,
     rc_http2_keepalive_interval = 30000000000, rc_http2_keepalive_timeout = 10000000000, rc_keep_alive_while_idle = True,
     rc_tls = None\<rparr>"

definition rpc_scheme :: "bool \<Rightarrow> string" where
  "rpc_scheme tls_enabled = (if tls_enabled then ''grpcs'' else ''grpc'')"

definition rpc_endpoint_uri :: "bool \<Rightarrow> string \<Rightarrow> u16 \<Rightarrow> string" where
  "rpc_endpoint_uri tls_enabled host port =
     (if tls_enabled then ''https'' else ''http'') @ ''://'' @ host @ '':'' @ show_nat (unat port)"

section \<open>TLS\<close>

definition read_optional :: "(string \<Rightarrow> string + string) \<Rightarrow> string option \<Rightarrow> rpc_error + string option" where
  "read_optional read_file path =
     (case path of
        None \<Rightarrow> Inr None
      | Some p \<Rightarrow> (case read_file p of Inl e \<Rightarrow> Inl (RpcIo e) | Inr c \<Rightarrow> Inr (Some c)))"

definition load_client_tls_from_files :: "(string \<Rightarrow> string + string) \<Rightarrow> tls_file_config \<Rightarrow> rpc_error + client_tls_config" where
  "load_client_tls_from_files read_file config =
     and_then (read_optional read_file (tf_ca_certificate_path config)) (\<lambda>ca.
     and_then (read_optional read_file (tf_client_certificate_path config)) (\<lambda>certificate.
     and_then (read_optional read_file (tf_client_private_key_path config)) (\<lambda>private_key.
     Inr \<lparr>cl_domain_name = tf_domain_name config, cl_ca_certificate_pem = ca, cl_client_certificate_pem = certificate,
          cl_client_private_key_pem = private_key, cl_use_native_roots = tf_use_native_roots config,
          cl_handshake_timeout = tf_handshake_timeout config\<rparr>)))"

text \<open>Handing a bound listener to tonic: the answers of the two calls are arguments.\<close>

definition tcp_incoming_from_std :: "string + unit \<Rightarrow> string + 'l \<Rightarrow> rpc_error + 'l" where
  "tcp_incoming_from_std nonblocking from_std =
     (case nonblocking of Inl e \<Rightarrow> Inl (RpcIo e) | Inr _ \<Rightarrow> (case from_std of Inl e \<Rightarrow> Inl (RpcIo e) | Inr l \<Rightarrow> Inr l))"

definition load_server_tls_from_files :: "(string \<Rightarrow> string + string) \<Rightarrow> tls_file_config \<Rightarrow> rpc_error + server_tls_config" where
  "load_server_tls_from_files read_file config =
     (case tf_certificate_path config of
        None \<Rightarrow> Inl (InvalidEndpoint ''server TLS certificate_path is required'')
      | Some certificate_path \<Rightarrow>
          (case tf_private_key_path config of
             None \<Rightarrow> Inl (InvalidEndpoint ''server TLS private_key_path is required'')
           | Some private_key_path \<Rightarrow>
               (case read_file certificate_path of Inl e \<Rightarrow> Inl (RpcIo e) | Inr certificate \<Rightarrow>
                case read_file private_key_path of Inl e \<Rightarrow> Inl (RpcIo e) | Inr private_key \<Rightarrow>
                and_then (read_optional read_file (tf_ca_certificate_path config)) (\<lambda>ca.
                Inr \<lparr>sl_certificate_pem = certificate, sl_private_key_pem = private_key, sl_client_ca_pem = ca,
                     sl_client_auth_optional = (tf_client_auth config = AuthOptional),
                     sl_handshake_timeout = tf_handshake_timeout config\<rparr>))))"

text \<open>The settings given to tonic's TLS builders.\<close>

record client_tls_settings =
  ct_timeout :: nat
  ct_native_roots :: bool
  ct_domain :: "string option"
  ct_ca :: "string option"
  ct_identity :: "(string \<times> string) option"

definition build_client_tls :: "client_tls_config \<Rightarrow> client_tls_settings" where
  "build_client_tls config =
     \<lparr>ct_timeout = cl_handshake_timeout config, ct_native_roots = cl_use_native_roots config, ct_domain = cl_domain_name config,
      ct_ca = cl_ca_certificate_pem config,
      ct_identity = (case (cl_client_certificate_pem config, cl_client_private_key_pem config) of
                       (Some certificate, Some private_key) \<Rightarrow> Some (certificate, private_key)
                     | _ \<Rightarrow> None)\<rparr>"

record server_tls_settings =
  ss_identity :: "string \<times> string"
  ss_timeout :: nat
  ss_client_ca_root :: "string option"
  ss_client_auth_optional :: bool

definition build_server_tls :: "server_tls_config \<Rightarrow> server_tls_settings" where
  "build_server_tls config =
     (let tls = \<lparr>ss_identity = (sl_certificate_pem config, sl_private_key_pem config), ss_timeout = sl_handshake_timeout config,
                 ss_client_ca_root = None, ss_client_auth_optional = False\<rparr> in
      case sl_client_ca_pem config of
        None \<Rightarrow> tls
      | Some client_ca \<Rightarrow>
          tls\<lparr>ss_client_ca_root := Some client_ca, ss_client_auth_optional := sl_client_auth_optional config\<rparr>)"

text \<open>\<open>accepts\<close>: what tonic says to the TLS settings.\<close>

definition build_server ::
  "(server_tls_settings \<Rightarrow> string option) \<Rightarrow> rpc_server_config \<Rightarrow> rpc_error + (rpc_server_config \<times> server_tls_settings option)" where
  "build_server accepts config =
     (case rs_tls config of
        None \<Rightarrow> Inr (config, None)
      | Some tls \<Rightarrow>
          (case accepts (build_server_tls tls) of
             Some e \<Rightarrow> Inl (Transport e)
           | None \<Rightarrow> Inr (config, Some (build_server_tls tls))))"

text \<open>\<open>parse_uri\<close>, \<open>accepts\<close> and \<open>dial\<close> are tonic's: the error of each, if any.\<close>

definition connect_channel ::
  "(string \<Rightarrow> string option) \<Rightarrow> (client_tls_settings \<Rightarrow> string option) \<Rightarrow> (rpc_channel_config \<Rightarrow> client_tls_settings option \<Rightarrow> string + 'ch)
     \<Rightarrow> rpc_channel_config \<Rightarrow> rpc_error + 'ch" where
  "connect_channel parse_uri accepts dial config =
     (case parse_uri (rc_endpoint config) of
        Some e \<Rightarrow> Inl (InvalidEndpoint e)
      | None \<Rightarrow>
          (let tls = map_option build_client_tls (rc_tls config) in
           case (case tls of None \<Rightarrow> None | Some s \<Rightarrow> accepts s) of
             Some e \<Rightarrow> Inl (Transport e)
           | None \<Rightarrow> (case dial config tls of Inl e \<Rightarrow> Inl (Transport e) | Inr ch \<Rightarrow> Inr ch)))"

section \<open>Lemmas\<close>

lemma and_then_Inr [simp]: "and_then r k = Inr y \<longleftrightarrow> (\<exists>x. r = Inr x \<and> k x = Inr y)"
  by (auto simp: and_then_def split: sum.splits)

lemma insert_optional_Inr:
  "insert_optional pv name v m = Inr m' \<longleftrightarrow>
     (case v of None \<Rightarrow> m' = m | Some s \<Rightarrow> \<exists>w. pv s = Some w \<and> m' = m(name \<mapsto> w))"
  by (auto simp: insert_optional_def insert_value_def split: option.splits)

text \<open>What was accepted as a value reads back as the same text.\<close>

definition values_read_back :: "(string \<Rightarrow> string option) \<Rightarrow> (string \<Rightarrow> string option) \<Rightarrow> bool" where
  "values_read_back parse_value to_str \<longleftrightarrow> (\<forall>s w. parse_value s = Some w \<longrightarrow> to_str w = Some s)"

lemma insert_optional_get:
  assumes "values_read_back pv to_str" "insert_optional pv name v m = Inr m'"
  shows "get_value to_str m' n = (if n = name \<and> v \<noteq> None then v else get_value to_str m n)"
  using assms by (auto simp: insert_optional_Inr get_value_def values_read_back_def split: option.splits)

lemma insert_optional_fails:
  "(\<exists>e. insert_optional pv name v m = Inl e) \<longleftrightarrow> (\<exists>s. v = Some s \<and> pv s = None)"
  by (auto simp: insert_optional_def insert_value_def split: option.splits)

definition or_else :: "'a option \<Rightarrow> 'a option \<Rightarrow> 'a option" where
  "or_else a b = (case a of None \<Rightarrow> b | Some _ \<Rightarrow> a)"

text \<open>The fields of the first, where it has them, over those of the second.\<close>

definition merge_metadata :: "rpc_metadata \<Rightarrow> rpc_metadata \<Rightarrow> rpc_metadata" where
  "merge_metadata a b =
     \<lparr>rm_request_id = or_else (rm_request_id a) (rm_request_id b), rm_trace_id = or_else (rm_trace_id a) (rm_trace_id b),
      rm_node_id = or_else (rm_node_id a) (rm_node_id b), rm_instance_id = or_else (rm_instance_id a) (rm_instance_id b),
      rm_protocol_version = or_else (rm_protocol_version a) (rm_protocol_version b),
      rm_bearer_token = or_else (rm_bearer_token a) (rm_bearer_token b)\<rparr>"

text \<open>The interceptor as one loop over the fields it writes.\<close>

definition metadata_fields :: "rpc_metadata \<Rightarrow> (string \<times> string option) list" where
  "metadata_fields md =
     [(REQUEST_ID, rm_request_id md), (TRACE_ID, rm_trace_id md), (NODE_ID, rm_node_id md), (INSTANCE_ID, rm_instance_id md),
      (PROTOCOL_VERSION, rm_protocol_version md), (AUTHORIZATION, map_option ((@) ''Bearer '') (rm_bearer_token md))]"

fun insert_all :: "(string \<Rightarrow> string option) \<Rightarrow> (string \<times> string option) list \<Rightarrow> metadata_map \<Rightarrow> status + metadata_map" where
  "insert_all pv [] m = Inr m"
| "insert_all pv ((n, v) # fs) m = and_then (insert_optional pv n v m) (insert_all pv fs)"

definition metadata_values :: "rpc_metadata \<Rightarrow> string list" where
  "metadata_values md = List.map_filter snd (metadata_fields md)"

lemma and_then_return: "and_then r Inr = r"
  by (simp add: and_then_def sum.case_eq_if)

lemma interceptor_call_loop: "interceptor_call pv md m = insert_all pv (metadata_fields md) m"
proof -
  have step: "insert_all pv ((n, v) # fs) = (\<lambda>m. and_then (insert_optional pv n v m) (insert_all pv fs))"
    and stop: "insert_all pv [] = Inr" for n v fs
    by (simp_all add: fun_eq_iff)
  have opt: "insert_optional pv n None = Inr" "insert_optional pv n (Some s) = insert_value pv n s" for n s
    by (simp_all add: fun_eq_iff insert_optional_def)
  show ?thesis
    by (cases "rm_bearer_token md")
      (simp_all add: interceptor_call_def metadata_fields_def step stop opt and_then_return)
qed

lemma insert_all_total:
  "(\<exists>m'. insert_all pv fs m = Inr m') \<longleftrightarrow> (\<forall>s\<in>set (List.map_filter snd fs). pv s \<noteq> None)"
proof (induction pv fs m rule: insert_all.induct)
  case (2 pv n v fs m)
  show ?case
  proof (cases v)
    case None
    with 2 show ?thesis by (simp add: insert_optional_def map_filter_simps and_then_def)
  next
    case (Some s)
    with 2 show ?thesis by (cases "pv s") (simp_all add: insert_optional_def insert_value_def map_filter_simps and_then_def)
  qed
qed (simp add: map_filter_simps)

lemma insert_all_get:
  assumes "values_read_back pv to_str" "insert_all pv fs m = Inr m'" "distinct (map fst fs)"
  shows "get_value to_str m' n = (case map_of fs n of Some (Some s) \<Rightarrow> Some s | _ \<Rightarrow> get_value to_str m n)"
  using assms(2,3)
proof (induction fs arbitrary: m)
  case (Cons f fs)
  obtain k v where f: "f = (k, v)" by fastforce
  with Cons.prems obtain m1 where m1: "insert_optional pv k v m = Inr m1" "insert_all pv fs m1 = Inr m'" by auto
  have d: "distinct (map fst fs)" "k = n \<Longrightarrow> map_of fs n = None"
    using Cons.prems(2) f by (auto simp: map_of_eq_None_iff)
  note ih = Cons.IH [OF m1(2) d(1)]
  show ?case unfolding f
    using insert_optional_get [OF assms(1), of k v m m1 n] m1(1) ih d(2)
    by (cases "k = n"; cases v) (auto split: option.splits)
qed simp

lemma metadata_fields_distinct: "distinct (map fst (metadata_fields md))"
  by (simp add: metadata_fields_def metadata_names)

lemma interceptor_call_get:
  assumes "values_read_back pv to_str" "interceptor_call pv md m = Inr m'"
  shows "get_value to_str m' n = (case map_of (metadata_fields md) n of Some (Some s) \<Rightarrow> Some s | _ \<Rightarrow> get_value to_str m n)"
  using insert_all_get [OF assms(1) _ metadata_fields_distinct] assms(2) by (simp add: interceptor_call_loop)

lemma interceptor_call_total:
  "(\<exists>m'. interceptor_call pv md m = Inr m') \<longleftrightarrow> (\<forall>s\<in>set (metadata_values md). pv s \<noteq> None)"
  by (simp only: interceptor_call_loop metadata_values_def insert_all_total)

section \<open>Properties\<close>

text \<open>C38. Metadata round trip: a request passes the client's interceptor exactly when every value it has to write is a legal metadata
  value, and then the server extracts every field the client set, and for the others what the request carried before.\<close>

theorem metadata_roundtrip:
  assumes "values_read_back pv to_str"
  shows "((\<exists>m'. interceptor_call pv md m = Inr m') \<longleftrightarrow> (\<forall>s\<in>set (metadata_values md). pv s \<noteq> None)) \<and>
    (\<forall>m'. interceptor_call pv md m = Inr m' \<longrightarrow>
       extract_rpc_metadata to_str m' = merge_metadata md (extract_rpc_metadata to_str m))"
proof -
  have "extract_rpc_metadata to_str m' = merge_metadata md (extract_rpc_metadata to_str m)"
    if "interceptor_call pv md m = Inr m'" for m'
    unfolding extract_rpc_metadata_def interceptor_call_get [OF assms that]
    by (simp add: merge_metadata_def or_else_def metadata_fields_def metadata_names split: option.split)
  with interceptor_call_total show ?thesis by blast
qed

theorem metadata_roundtrip_witness:
  "\<exists>m'. interceptor_call Some \<lparr>rm_request_id = Some ''r1'', rm_trace_id = None, rm_node_id = None, rm_instance_id = None,
       rm_protocol_version = None, rm_bearer_token = Some ''t''\<rparr> Map.empty = Inr m' \<and>
     rm_bearer_token (extract_rpc_metadata Some m') = Some ''t''"
proof -
  let ?md = "\<lparr>rm_request_id = Some ''r1'', rm_trace_id = None, rm_node_id = None, rm_instance_id = None,
       rm_protocol_version = None, rm_bearer_token = Some ''t''\<rparr>"
  have v: "values_read_back Some Some" by (simp add: values_read_back_def)
  from metadata_roundtrip [OF v, of ?md Map.empty]
  obtain m' where m': "interceptor_call Some ?md Map.empty = Inr m'" by auto
  with metadata_roundtrip [OF v, of ?md Map.empty] show ?thesis by (auto simp: merge_metadata_def or_else_def)
qed

text \<open>Client authentication of a server follows from the CA path alone: client certificates are verified exactly when a CA path
  is configured, and demanded unless the mode is \<^verbatim>\<open>Optional\<close>. So mode \<^verbatim>\<open>Required\<close> without a CA path gives a server that asks no client for a
  certificate, and mode \<^verbatim>\<open>Disabled\<close> with one gives a server that demands it.\<close>

lemma server_client_auth:
  assumes "load_server_tls_from_files read_file config = Inr tls"
  shows "(ss_client_ca_root (build_server_tls tls) = None \<longleftrightarrow> tf_ca_certificate_path config = None) \<and>
    ss_client_auth_optional (build_server_tls tls) = (tf_ca_certificate_path config \<noteq> None \<and> tf_client_auth config = AuthOptional)"
  using assms
  by (auto simp: load_server_tls_from_files_def build_server_tls_def read_optional_def Let_def split: option.splits sum.splits)

end
