(* ===== verification/Rpc_Build.thy ===== *)
theory Rpc_Build
  imports Prelude
begin

text \<open>
  The build helper \<^verbatim>\<open>base_rpc_build/src/lib.rs\<close>, which compiles protobuf files with the protoc binary it ships. Where that binary and its include directory are,
  and the compiler of tonic, are parameters. The builder is the settings handed to the compiler.
\<close>

section \<open>Model\<close>

record compile_options =
  co_out_dir :: "string option"
  co_descriptor_path :: "string option"

definition compile_options_default :: compile_options where
  "compile_options_default = \<lparr>co_out_dir = None, co_descriptor_path = None\<rparr>"

datatype 'e io_error = NotFoundError 'e | CompileError string

record compile_job =
  cj_protoc :: string
  cj_out_dir :: "string option"
  cj_descriptor_path :: "string option"
  cj_protos :: "string list"
  cj_includes :: "string list"

definition vendored_error :: "'e \<Rightarrow> 'e io_error" where
  "vendored_error error = NotFoundError error"

definition vendored_path :: "'e + string \<Rightarrow> 'e io_error + string" where
  "vendored_path r = (case r of Inl e \<Rightarrow> Inl (vendored_error e) | Inr p \<Rightarrow> Inr p)"

definition compile_protos_with_options ::
  "'e + string \<Rightarrow> 'e + string \<Rightarrow> (compile_job \<Rightarrow> string + unit) \<Rightarrow> string list \<Rightarrow> string list \<Rightarrow> compile_options \<Rightarrow> 'e io_error + unit" where
  "compile_protos_with_options protoc_bin include_path compile protos includes options =
     (case vendored_path protoc_bin of
        Inl e \<Rightarrow> Inl e
      | Inr protoc \<Rightarrow>
          (case vendored_path include_path of
             Inl e \<Rightarrow> Inl e
           | Inr vendored_include \<Rightarrow>
               (let include_paths = (if vendored_include \<in> set includes then includes else includes @ [vendored_include]) in
                case compile \<lparr>cj_protoc = protoc, cj_out_dir = co_out_dir options, cj_descriptor_path = co_descriptor_path options,
                    cj_protos = protos, cj_includes = include_paths\<rparr> of
                  Inl e \<Rightarrow> Inl (CompileError e)
                | Inr _ \<Rightarrow> Inr ())))"

definition compile_protos ::
  "'e + string \<Rightarrow> 'e + string \<Rightarrow> (compile_job \<Rightarrow> string + unit) \<Rightarrow> string list \<Rightarrow> string list \<Rightarrow> 'e io_error + unit" where
  "compile_protos protoc_bin include_path compile protos includes =
     compile_protos_with_options protoc_bin include_path compile protos includes compile_options_default"

section \<open>Laws\<close>

text \<open>A build that succeeds has compiled exactly the given files, once, with the shipped compiler; the caller's include paths come first and in order, and the shipped
  ones are there, not twice.\<close>

lemma compile_job_shape:
  assumes "compile_protos_with_options protoc_bin include_path compile protos includes options = Inr ()"
  shows "\<exists>protoc vendored job. protoc_bin = Inr protoc \<and> include_path = Inr vendored \<and> compile job = Inr () \<and>
    cj_protoc job = protoc \<and> cj_protos job = protos \<and> cj_out_dir job = co_out_dir options \<and> cj_descriptor_path job = co_descriptor_path options \<and>
    take (length includes) (cj_includes job) = includes \<and> vendored \<in> set (cj_includes job) \<and> (distinct includes \<longrightarrow> distinct (cj_includes job))"
proof -
  obtain protoc vendored where p: "protoc_bin = Inr protoc" "include_path = Inr vendored"
    using assms by (auto simp: compile_protos_with_options_def vendored_path_def split: sum.splits)
  let ?job = "\<lparr>cj_protoc = protoc, cj_out_dir = co_out_dir options, cj_descriptor_path = co_descriptor_path options,
    cj_protos = protos, cj_includes = if vendored \<in> set includes then includes else includes @ [vendored]\<rparr>"
  have "compile ?job = Inr ()"
    using assms p by (auto simp: compile_protos_with_options_def vendored_path_def Let_def split: sum.splits)
  with p show ?thesis by (intro exI [of _ protoc] exI [of _ vendored] exI [of _ ?job]) simp
qed

text \<open>Without the shipped compiler nothing is compiled, whatever the compiler would do.\<close>

lemma missing_protoc:
  "protoc_bin = Inl e \<Longrightarrow> compile_protos_with_options protoc_bin include_path compile protos includes options = Inl (NotFoundError e)"
  by (simp add: compile_protos_with_options_def vendored_path_def vendored_error_def)

end
