(* ===== verification/Secrets.thy ===== *)
theory Secrets
  imports Strings
begin

text \<open>
  \<^verbatim>\<open>base/src/utils/token.rs\<close> (signed tokens) and \<^verbatim>\<open>base/src/utils/crypto.rs\<close> (the formats around the ciphers). Base64, UTF-8 decoding, the ciphers and
  hashes are libraries and arguments of the definitions; what is used of them is stated where it is used. \<open>None\<close> of an operation
  that returns a result is a panic.
\<close>

section \<open>Bytes\<close>

definition bytes_of :: "string \<Rightarrow> u8 list" where
  "bytes_of s = map (\<lambda>c. of_nat (of_char c)) s"

lemma bytes_of_append [simp]: "bytes_of (s @ t) = bytes_of s @ bytes_of t"
  by (simp add: bytes_of_def)

definition hex_digit :: "nat \<Rightarrow> char" where
  "hex_digit n = (if n < 10 then char_of (48 + n) else char_of (87 + n))"

text \<open>\<^verbatim>\<open>format!("{:016x}")\<close> of a \<^verbatim>\<open>u64\<close>.\<close>

definition hex16 :: "u64 \<Rightarrow> string" where
  "hex16 w = map (\<lambda>i. hex_digit (unat (drop_bit (4 * i) w AND 15))) (rev [0..<16])"

section \<open>Tokens\<close>

definition simple_hash :: "u8 list \<Rightarrow> u64" where
  "simple_hash s = foldl (\<lambda>hash b. (push_bit 5 hash + hash) + ucast b) 5381 s"

definition obfuscate :: "u8 list \<Rightarrow> u8 \<Rightarrow> u8 list" where
  "obfuscate data msk = map (\<lambda>b. b XOR msk) (rev data)"

definition deobfuscate :: "u8 list \<Rightarrow> u8 \<Rightarrow> u8 list" where
  "deobfuscate data msk = rev (map (\<lambda>b. b XOR msk) data)"

definition token_raw :: "string \<Rightarrow> string \<Rightarrow> nat \<Rightarrow> nat \<Rightarrow> string" where
  "token_raw ident sec now pid = ident @ ''.'' @ sec @ ''.'' @ show_nat now @ ''.'' @ show_nat pid"

definition encode_token :: "(u8 list \<Rightarrow> string) \<Rightarrow> nat \<Rightarrow> nat \<Rightarrow> string \<Rightarrow> string \<Rightarrow> string \<Rightarrow> string" where
  "encode_token base64 now pid ident sec noc =
     (let raw = token_raw ident sec now pid;
          sig = simple_hash (bytes_of (raw @ noc));
          token = bytes_of (raw @ ''.'' @ hex16 sig) in
      base64 (obfuscate token 0x5A))"

definition NONCE :: string where
  "NONCE = ''Gmv123...''"

definition default_token :: "(u8 list \<Rightarrow> string) \<Rightarrow> nat \<Rightarrow> nat \<Rightarrow> string \<Rightarrow> string \<Rightarrow> string" where
  "default_token base64 now pid ident sec = encode_token base64 now pid ident sec NONCE"

definition verify_token :: "(string \<Rightarrow> u8 list option) \<Rightarrow> (u8 list \<Rightarrow> string option) \<Rightarrow> string \<Rightarrow> string \<Rightarrow> bool" where
  "verify_token unbase64 from_utf8 token key =
     (case unbase64 token of
        None \<Rightarrow> False
      | Some obf \<Rightarrow>
          (case from_utf8 (deobfuscate obf 0x5A) of
             None \<Rightarrow> False
           | Some raw \<Rightarrow>
               (case rsplit_once CHR ''.'' raw of
                  None \<Rightarrow> False
                | Some (raw_str, sig) \<Rightarrow> sig = hex16 (simple_hash (bytes_of (raw_str @ key))))))"

section \<open>AES-256-GCM fields\<close>

definition sys_err :: "string \<Rightarrow> 'a global_result" where
  "sys_err msg = Inl (snd (new_sys_error msg))"

text \<open>\<open>new_cipher\<close> makes a cipher of a key; errors of the libraries come with their debug and display texts.\<close>

definition from_base64_key_no_pad ::
  "(string \<Rightarrow> (string \<times> string) + u8 list) \<Rightarrow> (u8 list \<Rightarrow> 'k option) \<Rightarrow> string \<Rightarrow> 'k global_result" where
  "from_base64_key_no_pad unbase64 new_cipher encoded =
     (case snd (hand_log (unbase64 encoded)) of
        Inl e \<Rightarrow> Inl e
      | Inr key \<Rightarrow>
          if length key \<noteq> 32 then sys_err ''AES-256-GCM key must decode to 32 bytes''
          else case new_cipher key of None \<Rightarrow> sys_err ''invalid AES-256-GCM key'' | Some k \<Rightarrow> Inr k)"

definition encrypt_to_base64_no_pad ::
  "(u8 list \<Rightarrow> string) \<Rightarrow> ('k \<Rightarrow> u8 list \<Rightarrow> u8 list \<Rightarrow> u8 list option) \<Rightarrow> 'k \<Rightarrow> u8 list \<Rightarrow> u8 list \<Rightarrow> string global_result" where
  "encrypt_to_base64_no_pad base64 seal cipher nonce plaintext =
     (case seal cipher nonce plaintext of
        None \<Rightarrow> sys_err ''AES-256-GCM encrypt failed''
      | Some ciphertext \<Rightarrow> Inr (base64 (1 # nonce @ ciphertext)))"

definition decrypt_from_base64_no_pad ::
  "(string \<Rightarrow> (string \<times> string) + u8 list) \<Rightarrow> (u8 list \<Rightarrow> (string \<times> string) + string) \<Rightarrow> ('k \<Rightarrow> u8 list \<Rightarrow> u8 list \<Rightarrow> u8 list option)
     \<Rightarrow> 'k \<Rightarrow> string \<Rightarrow> string global_result option" where
  "decrypt_from_base64_no_pad unbase64 from_utf8 open_sealed cipher encoded =
     (case snd (hand_log (unbase64 encoded)) of
        Inl e \<Rightarrow> Some (Inl e)
      | Inr payload \<Rightarrow>
          if length payload < 1 + 12 + 16 then Some (sys_err ''invalid AES-256-GCM payload'')
          else get_at payload 0 \<bind> (\<lambda>version.
            if version \<noteq> 1 then Some (sys_err ''invalid AES-256-GCM payload'')
            else if length payload < 13 then None
            else Some (case open_sealed cipher (take 12 (drop 1 payload)) (drop 13 payload) of
                    None \<Rightarrow> sys_err ''AES-256-GCM decrypt failed''
                  | Some plaintext \<Rightarrow> snd (hand_log (from_utf8 plaintext)))))"

section \<open>AES-CBC with a prefixed vector\<close>

definition DEFAULT_KEY :: string where
  "DEFAULT_KEY = ''1234567890All in Rust 1234567890''"

text \<open>\<open>iv\<close> is the text that \<^verbatim>\<open>gen_ascii_chars(16)\<close> drew; \<open>new_cbc\<close> checks the lengths of key and vector.\<close>

definition cbc_encrypt ::
  "(u8 list \<Rightarrow> string) \<Rightarrow> (u8 list \<Rightarrow> u8 list \<Rightarrow> (string \<times> string) + 'c) \<Rightarrow> ('c \<Rightarrow> u8 list \<Rightarrow> u8 list) \<Rightarrow> string \<Rightarrow> string \<Rightarrow> u8 list \<Rightarrow> string global_result" where
  "cbc_encrypt base64 new_cbc encrypt_vec iv key data =
     (case snd (hand_log (new_cbc (bytes_of key) (bytes_of iv))) of
        Inl e \<Rightarrow> Inl e
      | Inr cipher \<Rightarrow> Inr (base64 (bytes_of iv @ encrypt_vec cipher data)))"

definition cbc_decrypt ::
  "(string \<Rightarrow> (string \<times> string) + u8 list) \<Rightarrow> (u8 list \<Rightarrow> (string \<times> string) + string) \<Rightarrow> (u8 list \<Rightarrow> u8 list \<Rightarrow> (string \<times> string) + 'c)
     \<Rightarrow> ('c \<Rightarrow> u8 list \<Rightarrow> (string \<times> string) + u8 list) \<Rightarrow> string \<Rightarrow> string \<Rightarrow> string global_result option" where
  "cbc_decrypt unbase64 from_utf8 new_cbc decrypt_vec key data =
     (case snd (hand_log (unbase64 data)) of
        Inl e \<Rightarrow> Some (Inl e)
      | Inr bytes \<Rightarrow>
          if length bytes < 16 then None
          else Some (case snd (hand_log (new_cbc (bytes_of key) (take 16 bytes))) of
                  Inl e \<Rightarrow> Inl e
                | Inr cipher \<Rightarrow>
                    (case snd (hand_log (decrypt_vec cipher (drop 16 bytes))) of
                       Inl e \<Rightarrow> Inl e
                     | Inr plain \<Rightarrow> snd (hand_log (from_utf8 plain)))))"

definition default_encrypt ::
  "(u8 list \<Rightarrow> string) \<Rightarrow> (u8 list \<Rightarrow> u8 list \<Rightarrow> (string \<times> string) + 'c) \<Rightarrow> ('c \<Rightarrow> u8 list \<Rightarrow> u8 list) \<Rightarrow> string \<Rightarrow> u8 list \<Rightarrow> string global_result" where
  "default_encrypt base64 new_cbc encrypt_vec iv data = cbc_encrypt base64 new_cbc encrypt_vec iv DEFAULT_KEY data"

definition default_decrypt ::
  "(string \<Rightarrow> (string \<times> string) + u8 list) \<Rightarrow> (u8 list \<Rightarrow> (string \<times> string) + string) \<Rightarrow> (u8 list \<Rightarrow> u8 list \<Rightarrow> (string \<times> string) + 'c)
     \<Rightarrow> ('c \<Rightarrow> u8 list \<Rightarrow> (string \<times> string) + u8 list) \<Rightarrow> string \<Rightarrow> string global_result option" where
  "default_decrypt unbase64 from_utf8 new_cbc decrypt_vec data = cbc_decrypt unbase64 from_utf8 new_cbc decrypt_vec DEFAULT_KEY data"

text \<open>\<^verbatim>\<open>choose_multiple\<close> draws without replacement.\<close>

definition BASE_STR :: string where
  "BASE_STR = ''ABCDEFGHIJKLMNOPQRSTUVWXYZabcdefghijklmnopqrstuvwxyz0123456789''"

definition gen_ascii_chars ::
  "(u8 list \<Rightarrow> nat \<Rightarrow> u8 list) \<Rightarrow> (u8 list \<Rightarrow> (string \<times> string) + string) \<Rightarrow> nat \<Rightarrow> string global_result" where
  "gen_ascii_chars choose_multiple from_utf8 amount = snd (hand_log (from_utf8 (choose_multiple (bytes_of BASE_STR) amount)))"

text \<open>\<^verbatim>\<open>encrypt\<close> with its random vector.\<close>

definition random_encrypt ::
  "(u8 list \<Rightarrow> nat \<Rightarrow> u8 list) \<Rightarrow> (u8 list \<Rightarrow> (string \<times> string) + string) \<Rightarrow> (u8 list \<Rightarrow> string) \<Rightarrow> (u8 list \<Rightarrow> u8 list \<Rightarrow> (string \<times> string) + 'c)
     \<Rightarrow> ('c \<Rightarrow> u8 list \<Rightarrow> u8 list) \<Rightarrow> string \<Rightarrow> u8 list \<Rightarrow> string global_result" where
  "random_encrypt choose_multiple from_utf8 base64 new_cbc encrypt_vec key data =
     (case gen_ascii_chars choose_multiple from_utf8 16 of
        Inl e \<Rightarrow> Inl e
      | Inr iv \<Rightarrow> cbc_encrypt base64 new_cbc encrypt_vec iv key data)"

definition hmac_sha256_hex ::
  "(u8 list \<Rightarrow> (string \<times> string) + 'm) \<Rightarrow> ('m \<Rightarrow> u8 list \<Rightarrow> 'm) \<Rightarrow> ('m \<Rightarrow> u8 list) \<Rightarrow> (u8 list \<Rightarrow> string) \<Rightarrow> u8 list \<Rightarrow> u8 list list \<Rightarrow> string global_result" where
  "hmac_sha256_hex new_mac update finalize hex secret parts =
     (case snd (hand_log (new_mac secret)) of
        Inl e \<Rightarrow> Inl e
      | Inr mac \<Rightarrow> Inr (hex (finalize (foldl update mac parts))))"

definition generate_token :: "(u8 list \<Rightarrow> u8 list) \<Rightarrow> (u8 list \<Rightarrow> string) \<Rightarrow> string \<Rightarrow> string" where
  "generate_token sha256 hex input = hex (take 16 (sha256 (bytes_of input)))"

section \<open>Lemmas\<close>

lemma deobfuscate_obfuscate: "deobfuscate (obfuscate data msk) msk = data"
  by (simp add: deobfuscate_def obfuscate_def o_def rev_map xor.assoc)

lemma hex_digit_not_dot: "n < 16 \<Longrightarrow> hex_digit n \<noteq> CHR ''.''"
proof -
  have "list_all (\<lambda>n. hex_digit n \<noteq> CHR ''.'') [0..<16]" by code_simp
  then show "n < 16 \<Longrightarrow> hex_digit n \<noteq> CHR ''.''" by (simp add: list_all_iff)
qed

lemma hex16_no_dot: "CHR ''.'' \<notin> set (hex16 w)"
proof -
  have "unat (x AND 15) < 16" for x :: u64
  proof -
    have "x AND 15 \<le> 15" by (rule word_and_le1)
    then have "unat (x AND 15) \<le> unat (15 :: u64)" by (simp only: word_le_nat_alt)
    then show ?thesis by simp
  qed
  then show ?thesis using hex_digit_not_dot by (fastforce simp: hex16_def)
qed

text \<open>The hash is affine in its start value: a suffix contributes the same amount whatever precedes it.\<close>

definition hash_step :: "u64 \<Rightarrow> u8 \<Rightarrow> u64" where
  "hash_step h b = (push_bit 5 h + h) + ucast b"

lemma hash_step_affine: "hash_step h b = 33 * h + ucast b"
  by (simp add: hash_step_def push_bit_eq_mult algebra_simps)

lemma foldl_hash_diff: "foldl hash_step h k - foldl hash_step h' k = (h - h') * 33 ^ length k"
proof (induction k arbitrary: h h')
  case (Cons b k)
  have "foldl hash_step h (b # k) - foldl hash_step h' (b # k) = (hash_step h b - hash_step h' b) * 33 ^ length k"
    using Cons [of "hash_step h b" "hash_step h' b"] by simp
  also have "hash_step h b - hash_step h' b = 33 * (h - h')" by (simp add: hash_step_affine algebra_simps)
  finally show ?case by (simp add: algebra_simps)
qed simp

lemma simple_hash_diff:
  "simple_hash (s @ k) = simple_hash (s' @ k) + (simple_hash s - simple_hash s') * 33 ^ length k"
proof -
  have f: "simple_hash x = foldl hash_step 5381 x" for x by (simp add: simple_hash_def hash_step_def [abs_def])
  show ?thesis using foldl_hash_diff [of "foldl hash_step 5381 s" k "foldl hash_step 5381 s'"] by (simp add: f algebra_simps)
qed

text \<open>Which tokens are accepted.\<close>

lemma verify_token_iff:
  assumes "\<And>b. unbase64 (base64 b) = Some b" "\<And>s. from_utf8 (bytes_of s) = Some s" "CHR ''.'' \<notin> set sig"
  shows "verify_token unbase64 from_utf8 (base64 (obfuscate (bytes_of (raw @ ''.'' @ sig)) 0x5A)) key \<longleftrightarrow>
    sig = hex16 (simple_hash (bytes_of (raw @ key)))"
  using rsplit_once_notin [OF assms(3), of raw] by (simp add: verify_token_def assms(1,2) deobfuscate_obfuscate del: bytes_of_append)

text \<open>A signature for another text from one valid signature and the length of the key.\<close>

definition forged_signature :: "string \<Rightarrow> u64 \<Rightarrow> nat \<Rightarrow> string \<Rightarrow> u64" where
  "forged_signature raw sig key_length raw' =
     sig + (simple_hash (bytes_of raw') - simple_hash (bytes_of raw)) * 33 ^ key_length"

section \<open>Properties\<close>

text \<open>A token verifies under the key it was made with, whatever the identity, the secret, the time and the process, dots in them
  included.\<close>

lemma token_roundtrip:
  assumes "\<And>b. unbase64 (base64 b) = Some b" "\<And>s. from_utf8 (bytes_of s) = Some s"
  shows "verify_token unbase64 from_utf8 (encode_token base64 now pid ident sec noc) noc"
  using verify_token_iff [OF assms hex16_no_dot] by (simp add: encode_token_def Let_def del: bytes_of_append)

text \<open>Texts of the concrete witnesses: base64 and UTF-8 replaced by the byte values.\<close>

definition text_of :: "u8 list \<Rightarrow> string" where
  "text_of bs = map (\<lambda>b. char_of (unat b)) bs"

lemma text_of_bytes [simp]: "text_of (bytes_of s) = s" "bytes_of (text_of b) = b"
proof -
  have "unat (of_nat (of_char c) :: u8) = of_char c" for c :: char
    by (simp add: unat_of_nat)
  then show "text_of (bytes_of s) = s" by (simp add: text_of_def bytes_of_def o_def)
  have "of_nat (of_char (char_of (unat x) :: char)) = x" for x :: u8
  proof -
    have "unat x < 2 ^ LENGTH(8)" by (rule unsigned_less)
    then show ?thesis by simp
  qed
  then show "bytes_of (text_of b) = b" by (simp add: text_of_def bytes_of_def o_def)
qed

text \<open>The signature does not need the key: from one valid token and the length of the key, the signature of any other text is
  computed by adding a multiple of the difference of two hashes of known texts, and the token made with it verifies.\<close>

lemma token_forgeable:
  assumes "\<And>b. unbase64 (base64 b) = Some b" "\<And>s. from_utf8 (bytes_of s) = Some s"
    and "verify_token unbase64 from_utf8 (base64 (obfuscate (bytes_of (raw @ ''.'' @ hex16 sig)) 0x5A)) key"
    and "sig = simple_hash (bytes_of (raw @ key))"
  shows "verify_token unbase64 from_utf8
    (base64 (obfuscate (bytes_of (raw' @ ''.'' @ hex16 (forged_signature raw sig (length key) raw'))) 0x5A)) key"
proof -
  have "length (bytes_of key) = length key" by (simp add: bytes_of_def)
  then have "forged_signature raw sig (length key) raw' = simple_hash (bytes_of (raw' @ key))"
    using simple_hash_diff [of "bytes_of raw'" "bytes_of key" "bytes_of raw"] by (simp add: forged_signature_def assms(4))
  then show ?thesis by (simp only: verify_token_iff [OF assms(1,2) hex16_no_dot])
qed

text \<open>The encrypted field format: decrypting never panics, rejects every payload that is too short or has another version byte,
  and gives back what was encrypted under the same key, for a cipher that opens what it sealed and adds a tag of sixteen
  bytes.\<close>

lemma gcm_field_roundtrip:
  assumes "\<And>b. unbase64 (base64 b) = Inr b" "\<And>s. from_utf8 (bytes_of s) = Inr s"
    and "\<And>n p c. seal k n p = Some c \<Longrightarrow> open_sealed k n c = Some p \<and> length c = length p + 16"
  shows "(length nonce = 12 \<and> encrypt_to_base64_no_pad base64 seal k nonce (bytes_of s) = Inr e \<longrightarrow>
      decrypt_from_base64_no_pad unbase64 from_utf8 open_sealed k e = Some (Inr s)) \<and>
    decrypt_from_base64_no_pad unbase64 from_utf8 open_sealed k t \<noteq> None \<and>
    (length p < 29 \<or> hd p \<noteq> 1 \<longrightarrow>
      decrypt_from_base64_no_pad unbase64 from_utf8 open_sealed k (base64 p) = Some (sys_err ''invalid AES-256-GCM payload''))"
proof (intro conjI impI)
  assume a: "length nonce = 12 \<and> encrypt_to_base64_no_pad base64 seal k nonce (bytes_of s) = Inr e"
  then obtain c where c: "seal k nonce (bytes_of s) = Some c" "e = base64 (1 # nonce @ c)"
    by (auto simp: encrypt_to_base64_no_pad_def sys_err_def split: option.splits)
  from assms(3) [OF c(1)] a show "decrypt_from_base64_no_pad unbase64 from_utf8 open_sealed k e = Some (Inr s)"
    by (simp add: c(2) decrypt_from_base64_no_pad_def assms(1,2) hand_log_def get_at_def)
next
  show "decrypt_from_base64_no_pad unbase64 from_utf8 open_sealed k t \<noteq> None"
    by (auto simp: decrypt_from_base64_no_pad_def get_at_def split: sum.splits if_splits)
next
  assume "length p < 29 \<or> hd p \<noteq> 1"
  then show "decrypt_from_base64_no_pad unbase64 from_utf8 open_sealed k (base64 p) = Some (sys_err ''invalid AES-256-GCM payload'')"
    by (cases p) (auto simp: decrypt_from_base64_no_pad_def assms(1) hand_log_def get_at_def)
qed

text \<open>The older format has no such check: a text that decodes to fewer than sixteen bytes makes the decryption panic.\<close>

lemma default_decrypt_panics:
  assumes "unbase64 t = Inr b" "length b < 16"
  shows "default_decrypt unbase64 from_utf8 new_cbc decrypt_vec t = None"
  using assms by (simp add: default_decrypt_def cbc_decrypt_def hand_log_def)

lemma default_roundtrip:
  assumes "\<And>b. unbase64 (base64 b) = Inr b" "\<And>s. from_utf8 (bytes_of s) = Inr s"
    and "\<And>c p. decrypt_vec c (encrypt_vec c p) = Inr p" "length iv = 16"
    and "default_encrypt base64 new_cbc encrypt_vec iv (bytes_of s) = Inr e"
  shows "default_decrypt unbase64 from_utf8 new_cbc decrypt_vec e = Some (Inr s)"
proof -
  have l: "length (bytes_of iv) = 16" by (simp add: bytes_of_def assms(4))
  from assms(5) obtain cipher where c: "new_cbc (bytes_of DEFAULT_KEY) (bytes_of iv) = Inr cipher"
    "e = base64 (bytes_of iv @ encrypt_vec cipher (bytes_of s))"
    by (auto simp: default_encrypt_def cbc_encrypt_def hand_log_def split: sum.splits prod.splits)
  then show ?thesis by (simp add: default_decrypt_def cbc_decrypt_def assms(1-3) hand_log_def l)
qed

text \<open>Tokens of \<^verbatim>\<open>generate_token\<close> hold sixteen bytes of the digest.\<close>

lemma generate_token_length:
  assumes "\<And>b. length (hex b) = 2 * length b" "length (sha256 (bytes_of input)) = 32"
  shows "length (generate_token sha256 hex input) = 32"
  using assms by (simp add: generate_token_def)

text \<open>The random vector has sixteen characters, all different, when the generator draws distinct elements of a list as documented; with more than 62 it would be shorter
  than asked for.\<close>

lemma gen_ascii_chars_shape:
  assumes "\<And>xs n. length (choose_multiple xs n) = min n (length xs) \<and> set (choose_multiple xs n) \<subseteq> set xs \<and> (distinct xs \<longrightarrow> distinct (choose_multiple xs n))"
    and "\<And>bs s. from_utf8 bs = Inr s \<Longrightarrow> bytes_of s = bs" "gen_ascii_chars choose_multiple from_utf8 amount = Inr s"
  shows "length s = min amount 62 \<and> distinct (bytes_of s)"
proof -
  have u: "from_utf8 (choose_multiple (bytes_of BASE_STR) amount) = Inr s"
    using assms(3) by (auto simp: gen_ascii_chars_def hand_log_def split: sum.splits prod.splits)
  have b: "length (bytes_of BASE_STR) = 62" "distinct (bytes_of BASE_STR)" by code_simp+
  have "length (bytes_of s) = length s" by (simp add: bytes_of_def)
  with assms(1) [of "bytes_of BASE_STR" amount] assms(2) [OF u] b show ?thesis by simp
qed

text \<open>The parts of a message authentication code are not told apart: only their concatenation counts.\<close>

lemma hmac_parts_concatenate:
  assumes "\<And>m a b. update (update m a) b = update m (a @ b)" "\<And>m. update m [] = m"
  shows "hmac_sha256_hex new_mac update finalize hex secret parts = hmac_sha256_hex new_mac update finalize hex secret [concat parts]"
proof -
  have "foldl update m parts = update m (concat parts)" for m
    by (induction parts arbitrary: m) (simp_all add: assms)
  then show ?thesis by (simp add: hmac_sha256_hex_def split: sum.split)
qed

end
