(* ===== verification/Bus.thy ===== *)
theory Bus
  imports Exceptions
begin

text \<open>
  The two typed message buses, \<^verbatim>\<open>base/src/bus/broadcast.rs\<close> and \<^verbatim>\<open>base/src/bus/mpsc.rs\<close>: a table from types to the senders of channels that
  carry values of any type, and receivers that cast what they receive back.

  A type is its \<^verbatim>\<open>TypeId\<close>, a number; a value of any type is its type and a payload. A channel is named by the type it was created for
  and a serial number. Of the channels of tokio the model keeps, for every channel, the values that were accepted by it, and the
  receivers that are alive; in which order they deliver, when they are full, lag or are closed is an outcome given to the receiving and
  sending operations.
\<close>

section \<open>Common parts\<close>

type_synonym 'p any = "nat \<times> 'p"
type_synonym chan = "nat \<times> nat"

definition try_cast :: "nat \<Rightarrow> 'p any \<Rightarrow> message_bus_error + 'p" where
  "try_cast t arc = (if fst arc = t then Inr (snd arc) else Inl TypeMismatch)"

record 'p bus =
  bus_channels :: "nat \<rightharpoonup> chan"
  bus_next :: nat
  bus_sent :: "chan \<Rightarrow> 'p any list"
  bus_receivers :: "(nat \<times> chan) list"      \<comment> \<open>the live receivers: their type and channel\<close>
  bus_doomed :: "nat list"                  \<comment> \<open>types that the cleanup has collected and not yet removed\<close>

definition bus_new :: "'p bus" where
  "bus_new = \<lparr>bus_channels = Map.empty, bus_next = 0, bus_sent = (\<lambda>_. []), bus_receivers = [], bus_doomed = []\<rparr>"

definition receiver_count :: "'p bus \<Rightarrow> chan \<Rightarrow> nat" where
  "receiver_count b c = length (filter (\<lambda>(_, c'). c' = c) (bus_receivers b))"

definition accept_message :: "chan \<Rightarrow> 'p any \<Rightarrow> 'p bus \<Rightarrow> 'p bus" where
  "accept_message c arc b = b\<lparr>bus_sent := (bus_sent b)(c := bus_sent b c @ [arc])\<rparr>"

text \<open>Dropping a receiver.\<close>

definition drop_receiver :: "nat \<times> chan \<Rightarrow> 'p bus \<Rightarrow> 'p bus" where
  "drop_receiver r b = b\<lparr>bus_receivers := remove1 r (bus_receivers b)\<rparr>"

section \<open>Broadcast bus\<close>

text \<open>\<^verbatim>\<open>entry(type_id).or_insert_with(channel)\<close>.\<close>

definition entry_or_insert :: "nat \<Rightarrow> 'p bus \<Rightarrow> chan \<times> 'p bus" where
  "entry_or_insert t b =
     (case bus_channels b t of
        Some c \<Rightarrow> (c, b)
      | None \<Rightarrow> (let c = (t, bus_next b) in (c, b\<lparr>bus_channels := (bus_channels b)(t \<mapsto> c), bus_next := Suc (bus_next b)\<rparr>)))"

text \<open>Sending fails with the value when the channel has no receiver, else tells how many it has.\<close>

definition bcast_publish :: "nat \<Rightarrow> 'p \<Rightarrow> 'p bus \<Rightarrow> ('p any + nat) \<times> 'p bus" where
  "bcast_publish t msg b =
     (let (c, b1) = entry_or_insert t b; n = receiver_count b1 c in
      if n = 0 then (Inl (t, msg), b1) else (Inr n, accept_message c (t, msg) b1))"

definition publish_ref :: "nat \<Rightarrow> 'p \<Rightarrow> 'p bus \<Rightarrow> ('p any + nat) \<times> 'p bus" where
  "publish_ref t msg b = bcast_publish t msg b"

definition bcast_subscribe :: "nat \<Rightarrow> 'p bus \<Rightarrow> (nat \<times> chan) \<times> 'p bus" where
  "bcast_subscribe t b =
     (let (c, b1) = entry_or_insert t b in ((t, c), b1\<lparr>bus_receivers := (t, c) # bus_receivers b1\<rparr>))"

text \<open>The cleanup task: collect the types whose channel has no receiver, then remove them one by one. \<open>keys\<close> is the order of the table.\<close>

definition cleanup_collect :: "nat list \<Rightarrow> 'p bus \<Rightarrow> 'p bus" where
  "cleanup_collect keys b =
     b\<lparr>bus_doomed := filter (\<lambda>t. case bus_channels b t of None \<Rightarrow> False | Some c \<Rightarrow> receiver_count b c = 0) keys\<rparr>"

definition cleanup_remove :: "'p bus \<Rightarrow> 'p bus" where
  "cleanup_remove b =
     (case bus_doomed b of
        [] \<Rightarrow> b
      | t # ts \<Rightarrow> b\<lparr>bus_channels := (bus_channels b)(t := None), bus_doomed := ts\<rparr>)"

text \<open>One round of the cleanup task with nothing in between.\<close>

definition cleanup_round :: "nat list \<Rightarrow> 'p bus \<Rightarrow> 'p bus" where
  "cleanup_round keys b = (let b1 = cleanup_collect keys b in (cleanup_remove ^^ length (bus_doomed b1)) b1)"

datatype 'p recv_outcome = Got "'p any" | RecvClosed | RecvEmpty | RecvLagged | RecvTimeout

definition bcast_try_recv :: "nat \<Rightarrow> 'p recv_outcome \<Rightarrow> message_bus_error + 'p" where
  "bcast_try_recv t out =
     (case out of
        Got arc \<Rightarrow> try_cast t arc
      | RecvClosed \<Rightarrow> Inl ChannelClosed
      | RecvEmpty \<Rightarrow> Inl Empty
      | RecvLagged \<Rightarrow> Inl Lagged
      | RecvTimeout \<Rightarrow> Inl Timeout)"

text \<open>\<^verbatim>\<open>try_recv\<close> and \<^verbatim>\<open>recv\<close> never time out, and \<^verbatim>\<open>recv\<close> is never empty; \<^verbatim>\<open>recv_with_timeout\<close> is never empty; otherwise they map the outcomes the same way.\<close>

definition bcast_recv :: "nat \<Rightarrow> 'p recv_outcome \<Rightarrow> message_bus_error + 'p" where
  "bcast_recv t out =
     (case out of Got arc \<Rightarrow> try_cast t arc | RecvLagged \<Rightarrow> Inl Lagged | _ \<Rightarrow> Inl ChannelClosed)"

definition bcast_recv_with_timeout :: "nat \<Rightarrow> 'p recv_outcome \<Rightarrow> message_bus_error + 'p" where
  "bcast_recv_with_timeout t out = (case out of RecvTimeout \<Rightarrow> Inl Timeout | _ \<Rightarrow> bcast_recv t out)"

datatype 'p bcast_event =
  BPublish nat 'p
| BSubscribe nat
| BDrop "nat \<times> chan"
| BCollect "nat list"
| BRemove

fun bcast_step :: "'p bus \<Rightarrow> 'p bcast_event \<Rightarrow> 'p bus" where
  "bcast_step b (BPublish t msg) = snd (bcast_publish t msg b)"
| "bcast_step b (BSubscribe t) = snd (bcast_subscribe t b)"
| "bcast_step b (BDrop r) = drop_receiver r b"
| "bcast_step b (BCollect keys) = cleanup_collect keys b"
| "bcast_step b BRemove = cleanup_remove b"

section \<open>Single-consumer bus\<close>

datatype send_outcome = SendOk | SendFull | SendClosed

definition mpsc_subscribe :: "nat \<Rightarrow> 'p bus \<Rightarrow> (message_bus_error + nat \<times> chan) \<times> 'p bus" where
  "mpsc_subscribe t b =
     (case bus_channels b t of
        Some _ \<Rightarrow> (Inl AlreadyExists, b)
      | None \<Rightarrow>
          (let c = (t, bus_next b) in
           (Inr (t, c), b\<lparr>bus_channels := (bus_channels b)(t \<mapsto> c), bus_next := Suc (bus_next b),
                           bus_receivers := (t, c) # bus_receivers b\<rparr>)))"

text \<open>\<open>out\<close>: what the channel says; \<^verbatim>\<open>publish\<close> waits for room, so it is never full.\<close>

definition mpsc_try_publish :: "send_outcome \<Rightarrow> nat \<Rightarrow> 'p \<Rightarrow> 'p bus \<Rightarrow> (message_bus_error + unit) \<times> 'p bus" where
  "mpsc_try_publish out t msg b =
     (case bus_channels b t of
        None \<Rightarrow> (Inl NotFound, b)
      | Some c \<Rightarrow>
          (case out of
             SendOk \<Rightarrow> (Inr (), accept_message c (t, msg) b)
           | SendFull \<Rightarrow> (Inl Full, b)
           | SendClosed \<Rightarrow> (Inl ChannelClosed, b)))"

definition mpsc_publish :: "bool \<Rightarrow> nat \<Rightarrow> 'p \<Rightarrow> 'p bus \<Rightarrow> (message_bus_error + unit) \<times> 'p bus" where
  "mpsc_publish closed t msg b =
     (case bus_channels b t of
        None \<Rightarrow> (Inl NotFound, b)
      | Some c \<Rightarrow> if closed then (Inl ChannelClosed, b) else (Inr (), accept_message c (t, msg) b))"

definition mpsc_try_recv :: "nat \<Rightarrow> 'p recv_outcome \<Rightarrow> message_bus_error + 'p" where
  "mpsc_try_recv t out = (case out of Got bo \<Rightarrow> try_cast t bo | RecvEmpty \<Rightarrow> Inl Empty | _ \<Rightarrow> Inl ChannelClosed)"

definition mpsc_recv :: "nat \<Rightarrow> 'p any option \<Rightarrow> message_bus_error + 'p" where
  "mpsc_recv t out = (case out of Some bo \<Rightarrow> try_cast t bo | None \<Rightarrow> Inl ChannelClosed)"

definition mpsc_recv_with_timeout :: "nat \<Rightarrow> 'p any option option \<Rightarrow> message_bus_error + 'p" where
  "mpsc_recv_with_timeout t out =
     (case out of Some (Some bo) \<Rightarrow> try_cast t bo | Some None \<Rightarrow> Inl ChannelClosed | None \<Rightarrow> Inl Timeout)"

datatype 'p mpsc_event =
  MSubscribe nat
| MTryPublish send_outcome nat 'p
| MPublish bool nat 'p
| MDrop "nat \<times> chan"

fun mpsc_step :: "'p bus \<Rightarrow> 'p mpsc_event \<Rightarrow> 'p bus" where
  "mpsc_step b (MSubscribe t) = snd (mpsc_subscribe t b)"
| "mpsc_step b (MTryPublish out t msg) = snd (mpsc_try_publish out t msg b)"
| "mpsc_step b (MPublish closed t msg) = snd (mpsc_publish closed t msg b)"
| "mpsc_step b (MDrop r) = drop_receiver r b"

section \<open>Typing\<close>

text \<open>Every sender is registered, and every receiver reads, under the type its channel was made for, and a channel has accepted
  values of that type only.\<close>

definition bus_typed :: "'p bus \<Rightarrow> bool" where
  "bus_typed b \<longleftrightarrow>
     (\<forall>t c. bus_channels b t = Some c \<longrightarrow> fst c = t) \<and>
     (\<forall>r\<in>set (bus_receivers b). fst (snd r) = fst r) \<and>
     (\<forall>c. \<forall>arc\<in>set (bus_sent b c). fst arc = fst c)"

named_theorems bus_ops "the operations of the buses"

declare entry_or_insert_def [bus_ops] bcast_publish_def [bus_ops] bcast_subscribe_def [bus_ops] drop_receiver_def [bus_ops]
  cleanup_collect_def [bus_ops] cleanup_remove_def [bus_ops] mpsc_subscribe_def [bus_ops] mpsc_try_publish_def [bus_ops]
  mpsc_publish_def [bus_ops] accept_message_def [bus_ops] Let_def [bus_ops]

lemma bus_typed_bcast: "bus_typed b \<Longrightarrow> bus_typed (bcast_step b e)"
  by (cases e) (auto simp: bus_ops bus_typed_def split: option.splits list.splits if_splits dest: set_remove1_subset [THEN subsetD])

lemma bus_typed_mpsc: "bus_typed b \<Longrightarrow> bus_typed (mpsc_step b e)"
  by (cases e) (auto simp: bus_ops bus_typed_def split: option.splits send_outcome.splits if_splits dest: set_remove1_subset [THEN subsetD])

interpretation bcast_run: safe_machine "\<lambda>b e. Some (bcast_step b e)" "\<lambda>_. True" bus_typed
  by unfold_locales (simp add: bus_typed_bcast)

interpretation mpsc_run: safe_machine "\<lambda>b e. Some (mpsc_step b e)" "\<lambda>_. True" bus_typed
  by unfold_locales (simp add: bus_typed_mpsc)

lemma bus_typed_new: "bus_typed bus_new"
  by (simp add: bus_typed_def bus_new_def)

lemma run_steps_total: "run_steps (\<lambda>b e. Some (f b e)) b es = Some (foldl f b es)"
  by (induction es arbitrary: b) auto

lemma bus_histories_typed: "bus_typed (foldl bcast_step bus_new es)" "bus_typed (foldl mpsc_step bus_new es')"
  using bcast_run.run_safe [OF bus_typed_new, of es] mpsc_run.run_safe [OF bus_typed_new, of es']
  by (simp_all add: run_steps_total list_all_iff)

lemma bus_typed_cast:
  assumes "bus_typed b" "(t, c) \<in> set (bus_receivers b)" "arc \<in> set (bus_sent b c)"
  shows "try_cast t arc = Inr (snd arc)"
proof -
  have "fst c = t" using assms(1,2) by (auto simp: bus_typed_def dest: bspec)
  moreover have "fst arc = fst c" using assms(1,3) by (simp add: bus_typed_def del: split_paired_All)
  ultimately show ?thesis by (simp add: try_cast_def)
qed

section \<open>Properties\<close>

text \<open>C39. The casts of the buses never fail: after any history of publications, subscriptions, dropped receivers and cleanups, a
  receiver that gets a value its channel has accepted returns its payload, in every receiving operation of either bus.\<close>

theorem bus_type_safe:
  assumes "b = foldl bcast_step bus_new es \<or> b = foldl mpsc_step bus_new es'"
    and "(t, c) \<in> set (bus_receivers b)" "arc \<in> set (bus_sent b c)"
  shows "bcast_try_recv t (Got arc) = Inr (snd arc) \<and> bcast_recv t (Got arc) = Inr (snd arc) \<and>
    bcast_recv_with_timeout t (Got arc) = Inr (snd arc) \<and> mpsc_try_recv t (Got arc) = Inr (snd arc) \<and>
    mpsc_recv t (Some arc) = Inr (snd arc) \<and> mpsc_recv_with_timeout t (Some (Some arc)) = Inr (snd arc)"
proof -
  have "bus_typed b" using assms(1) bus_histories_typed by blast
  from bus_typed_cast [OF this assms(2,3)] show ?thesis
    by (simp add: bcast_try_recv_def bcast_recv_def bcast_recv_with_timeout_def mpsc_try_recv_def mpsc_recv_def mpsc_recv_with_timeout_def)
qed

theorem bus_type_safe_witness: "bcast_recv 3 (Got (3, ''hello'')) = Inr ''hello''"
proof -
  let ?es = "[BSubscribe 3, BPublish 3 ''hello'']"
  have "(3, (3, 0)) \<in> set (bus_receivers (foldl bcast_step bus_new ?es))" "(3, ''hello'') \<in> set (bus_sent (foldl bcast_step bus_new ?es) (3, 0))"
    by (simp_all add: bus_ops bus_new_def receiver_count_def)
  from bus_type_safe [OF disjI1 [OF refl] this] show ?thesis by simp
qed

text \<open>A value published while a type has receivers on its current channel reaches that channel, and the count that is returned is their
  number.\<close>

lemma bcast_publish_delivers:
  assumes "bus_channels b t = Some c" "0 < receiver_count b c"
  shows "fst (bcast_publish t msg b) = Inr (receiver_count b c) \<and>
    bus_sent (snd (bcast_publish t msg b)) c = bus_sent b c @ [(t, msg)]"
  using assms by (simp add: bus_ops)

text \<open>A type of the single-consumer bus stays taken: also after its receiver was dropped it cannot be subscribed to again.\<close>

lemma mpsc_channel_kept: "bus_channels b t = Some c \<Longrightarrow> bus_channels (mpsc_step b e) t = Some c"
  by (cases e) (auto simp: bus_ops split: option.splits send_outcome.splits)

lemma mpsc_subscribe_once:
  assumes "bus_channels b t = Some c"
  shows "fst (mpsc_subscribe t (foldl mpsc_step b es)) = Inl AlreadyExists"
proof -
  have "bus_channels (foldl mpsc_step b es) t = Some c" using assms
    by (induction es arbitrary: b) (auto intro: mpsc_channel_kept)
  then show ?thesis by (simp add: mpsc_subscribe_def)
qed

text \<open>The cleanup of the broadcast bus can cut off a live subscriber: a subscription between the collection of idle types and their removal
  is left on a channel that is no longer in the table, and what is published afterwards does not reach it.\<close>

lemma cleanup_orphans_subscriber:
  "\<exists>es b. b = foldl bcast_step bus_new es \<and> bus_receivers b = [(7, (7, 0))] \<and> bus_channels b 7 \<noteq> Some (7, 0) \<and>
     bus_sent (bcast_step b (BPublish 7 x)) (7, 0) = []"
  by (rule exI [of _ "[BSubscribe 7, BDrop (7, (7, 0)), BCollect [7], BSubscribe 7, BRemove]"])
    (simp add: bus_ops bus_new_def receiver_count_def)

section \<open>Who is reached\<close>

text \<open>The hazard is the only one. As long as every round of the cleanup runs without a subscription in between, a live receiver of a type always sits on the channel
  that is in the table, so a publication reaches all receivers of its type and returns their number.\<close>

definition receivers_current :: "'p bus \<Rightarrow> bool" where
  "receivers_current b \<longleftrightarrow> (\<forall>t c. (t, c) \<in> set (bus_receivers b) \<longrightarrow> bus_channels b t = Some c)"

fun bcast_round :: "'p bus \<Rightarrow> 'p bcast_event \<Rightarrow> 'p bus" where
  "bcast_round b (BCollect keys) = cleanup_round keys b"
| "bcast_round b BRemove = b"
| "bcast_round b e = bcast_step b e"

lemma cleanup_remove_all:
  "bus_channels ((cleanup_remove ^^ length (bus_doomed b)) b) = (\<lambda>t. if t \<in> set (bus_doomed b) then None else bus_channels b t) \<and>
   bus_receivers ((cleanup_remove ^^ length (bus_doomed b)) b) = bus_receivers b"
proof (induction "bus_doomed b" arbitrary: b)
  case (Cons t ts)
  let ?b = "b\<lparr>bus_channels := (bus_channels b)(t := None), bus_doomed := ts\<rparr>"
  have "bus_doomed b = t # ts" using Cons.hyps(2) by simp
  moreover from this have "cleanup_remove b = ?b" by (simp add: cleanup_remove_def)
  ultimately show ?case using Cons.hyps(1) [of ?b] by (auto simp: funpow_swap1 funpow_Suc_right simp del: funpow.simps)
qed auto

lemma receiver_counted:
  assumes "(t, c) \<in> set (bus_receivers b)"
  shows "receiver_count b c \<noteq> 0"
proof -
  have "(t, c) \<in> set (filter (\<lambda>(_, c'). c' = c) (bus_receivers b))" using assms by (cases c) simp
  then show ?thesis unfolding receiver_count_def by (metis length_0_conv list.set(1) equals0D)
qed

lemma receivers_current_cleanup:
  assumes "receivers_current b"
  shows "receivers_current (cleanup_round keys b)"
proof -
  let ?b = "cleanup_collect keys b"
  have "t \<notin> set (bus_doomed ?b)" if "(t, c) \<in> set (bus_receivers b)" for t c
  proof -
    have "bus_channels b t = Some c" using assms that by (simp add: receivers_current_def del: split_paired_All)
    moreover have "receiver_count b c \<noteq> 0" using that by (rule receiver_counted)
    ultimately show ?thesis by (simp add: cleanup_collect_def)
  qed
  moreover have "bus_channels ?b = bus_channels b" "bus_receivers ?b = bus_receivers b" by (simp_all add: cleanup_collect_def)
  ultimately show ?thesis using assms cleanup_remove_all [of ?b]
    by (simp add: receivers_current_def cleanup_round_def Let_def del: split_paired_All)
qed

lemma receivers_current_round: "receivers_current b \<Longrightarrow> receivers_current (bcast_round b e)"
proof (cases e)
  case (BPublish t msg)
  assume "receivers_current b"
  then show ?thesis unfolding BPublish
    by (auto simp: bus_ops receivers_current_def split: option.split simp del: split_paired_All)
next
  case (BSubscribe t)
  assume "receivers_current b"
  then show ?thesis unfolding BSubscribe
    by (auto simp: bus_ops receivers_current_def split: option.split simp del: split_paired_All)
next
  case (BDrop r)
  assume "receivers_current b"
  then show ?thesis unfolding BDrop
    by (auto simp: bus_ops receivers_current_def dest: set_remove1_subset [THEN subsetD] simp del: split_paired_All)
qed (simp_all add: receivers_current_cleanup)

lemma cleanup_remove_typed: "bus_typed b \<Longrightarrow> bus_typed ((cleanup_remove ^^ n) b)"
  by (induction n) (use bus_typed_bcast [of _ BRemove] in auto)

lemma bus_typed_round: "bus_typed b \<Longrightarrow> bus_typed (bcast_round b e)"
  using bus_typed_bcast [of b e] by (cases e) (auto simp: cleanup_round_def Let_def intro: cleanup_remove_typed)

interpretation rounds: safe_machine "\<lambda>b e. Some (bcast_round b e)" "\<lambda>_. True" "\<lambda>b. bus_typed b \<and> receivers_current b"
  by unfold_locales (simp add: bus_typed_round receivers_current_round)

lemma receivers_of_type:
  assumes "receivers_current b" "bus_typed b" "fst c = t" "bus_channels b t = Some c \<or> bus_channels b t = None"
  shows "receiver_count b c = length (filter (\<lambda>r. fst r = t) (bus_receivers b))"
proof -
  have "snd r = c \<longleftrightarrow> fst r = t" if "r \<in> set (bus_receivers b)" for r
  proof -
    have ch: "bus_channels b (fst r) = Some (snd r)" using that assms(1) unfolding receivers_current_def by (metis prod.collapse)
    then have "fst (snd r) = fst r" using assms(2) by (simp add: bus_typed_def del: split_paired_All)
    with ch assms(3,4) show ?thesis by (metis option.distinct(1) option.inject)
  qed
  then have "filter (\<lambda>r. snd r = c) (bus_receivers b) = filter (\<lambda>r. fst r = t) (bus_receivers b)" by (intro filter_cong) simp_all
  then show ?thesis by (simp add: receiver_count_def split_beta')
qed

lemma bcast_reaches_all:
  fixes es :: "'p bcast_event list" and t :: nat
  defines "b \<equiv> foldl bcast_round bus_new es"
  defines "n \<equiv> length (filter (\<lambda>r. fst r = t) (bus_receivers b))"
  shows "fst (bcast_publish t msg b) = (if n = 0 then Inl (t, msg) else Inr n)"
    and "(t, c) \<in> set (bus_receivers b) \<Longrightarrow> bus_sent (snd (bcast_publish t msg b)) c = bus_sent b c @ [(t, msg)]"
proof -
  have "receivers_current bus_new" by (simp add: receivers_current_def bus_new_def)
  then have ok: "bus_typed b" "receivers_current b"
    using rounds.run_safe [OF conjI [OF bus_typed_new \<open>receivers_current bus_new\<close>], of es] by (simp_all add: run_steps_total list_all_iff b_def)
  have cur: "fst c = t" if "bus_channels b t = Some c" for c using ok(1) that by (auto simp: bus_typed_def simp del: split_paired_All)
  have same: "receiver_count (b\<lparr>bus_channels := x, bus_next := y\<rparr>) c = receiver_count b c" for x y c by (simp add: receiver_count_def)
  show "fst (bcast_publish t msg b) = (if n = 0 then Inl (t, msg) else Inr n)"
    using receivers_of_type [OF ok(2,1)] cur by (auto simp: bus_ops n_def same split: option.split)
  assume c: "(t, c) \<in> set (bus_receivers b)"
  then have ch: "bus_channels b t = Some c" using ok(2) by (auto simp: receivers_current_def simp del: split_paired_All)
  have "receiver_count b c \<noteq> 0" using c by (rule receiver_counted)
  with ch show "bus_sent (snd (bcast_publish t msg b)) c = bus_sent b c @ [(t, msg)]" by (simp add: bus_ops)
qed

end
