(* ===== verification/Constructor.thy ===== *)
theory Constructor
  imports Exceptions
begin

text \<open>
  \<^verbatim>\<open>macros/constructor/src/lib.rs\<close>: the derive macros \<^verbatim>\<open>Get\<close>, \<^verbatim>\<open>Set\<close> and \<^verbatim>\<open>New\<close>. The model starts from the parsed item and ends with the functions that are generated, as
  syntax; what the generated functions do is given by a small interpreter of that syntax on structs as maps from fields to values.
  Fields are named by identifiers, or by their position in a tuple struct. Types are texts. \<open>None\<close> is a panic of the macro, which the compiler
  reports as an error.
\<close>

section \<open>The item\<close>

datatype 'i meta = MetaPath | MetaList "'i list option" | MetaNameValue   \<comment> \<open>a list whose arguments do not parse is \<open>None\<close>\<close>

record attribute =
  at_path :: string
  at_named :: "string meta"     \<comment> \<open>the arguments read as identifiers\<close>
  at_index :: "nat meta"        \<comment> \<open>the arguments read as positions\<close>

datatype fields = Named "(string \<times> string) list" | Unnamed "string list" | UnitFields

datatype item_data = StructData fields | EnumData | UnionData

record derive_input =
  di_attrs :: "attribute list"
  di_data :: item_data

section \<open>Generated functions\<close>

datatype 'i new_body =
  NamedBody "string list" bool           \<comment> \<open>the fields taken from parameters, and whether \<^verbatim>\<open>..Default::default()\<close> follows\<close>
| TupleBody "string option list"         \<comment> \<open>a parameter or \<^verbatim>\<open>Default::default()\<close> per position\<close>

datatype 'i gen_fn =
  GetFn string string 'i                    \<comment> \<open>name, type returned by reference, and the field of the body\<close>
| SetFn string string string 'i string      \<comment> \<open>name, parameter and the type it converts into; the field assigned and the variable converted\<close>
| NewFn "(string \<times> string) list" "'i new_body"

definition IDENT_GET :: string where "IDENT_GET = ''get''"
definition IDENT_SET :: string where "IDENT_SET = ''set''"
definition IDENT_NEW :: string where "IDENT_NEW = ''new''"

definition parse_meta :: "'i meta \<Rightarrow> 'i list option" where
  "parse_meta m = (case m of MetaList (Some xs) \<Rightarrow> Some xs | _ \<Rightarrow> None)"

definition parse_args :: "(attribute \<Rightarrow> 'i meta) \<Rightarrow> attribute list \<Rightarrow> string \<Rightarrow> 'i list option option" where
  "parse_args read attrs ident =
     (case List.find (\<lambda>attr. at_path attr = ident) attrs of
        None \<Rightarrow> Some None
      | Some attr \<Rightarrow> map_option Some (parse_meta (read attr)))"

definition contains_fields :: "'i list option \<Rightarrow> 'i \<Rightarrow> bool" where
  "contains_fields args item = (case args of None \<Rightarrow> True | Some xs \<Rightarrow> item \<in> set xs)"

definition build_named_get_constructor :: "string \<Rightarrow> string \<Rightarrow> string \<Rightarrow> string gen_fn" where
  "build_named_get_constructor field_name field_type constructor_name = GetFn constructor_name field_type field_name"

definition build_unnamed_get_constructor :: "nat \<Rightarrow> string \<Rightarrow> string \<Rightarrow> nat gen_fn" where
  "build_unnamed_get_constructor index field_type constructor_name = GetFn constructor_name field_type index"

definition build_named_set_constructor :: "string \<Rightarrow> string \<Rightarrow> string \<Rightarrow> string gen_fn" where
  "build_named_set_constructor field_name field_type constructor_name = SetFn constructor_name field_name field_type field_name field_name"

text \<open>\<^verbatim>\<open>format_ident!("field_{}", index)\<close>.\<close>

definition tuple_var :: "nat \<Rightarrow> string" where
  "tuple_var index = ''field_'' @ show_nat index"

definition build_unnamed_set_constructor :: "nat \<Rightarrow> string \<Rightarrow> string \<Rightarrow> nat gen_fn" where
  "build_unnamed_set_constructor index field_type constructor_name =
     SetFn constructor_name (tuple_var index) field_type index (tuple_var index)"

definition build_et_named_fn ::
  "(string \<Rightarrow> string \<Rightarrow> string \<Rightarrow> string gen_fn) \<Rightarrow> attribute list \<Rightarrow> (string \<times> string) list \<Rightarrow> string \<Rightarrow> string gen_fn list option" where
  "build_et_named_fn f attrs fds ident =
     (case parse_args at_named attrs ident of
        None \<Rightarrow> None
      | Some args \<Rightarrow>
          Some (map (\<lambda>(field_name, field_type). f field_name field_type (ident @ ''_'' @ field_name))
             (filter (\<lambda>(field_name, _). contains_fields args field_name) fds)))"

definition build_et_unnamed_fn ::
  "(nat \<Rightarrow> string \<Rightarrow> string \<Rightarrow> nat gen_fn) \<Rightarrow> attribute list \<Rightarrow> string list \<Rightarrow> string \<Rightarrow> nat gen_fn list option" where
  "build_et_unnamed_fn f attrs fds ident =
     (case parse_args at_index attrs ident of
        None \<Rightarrow> None
      | Some args \<Rightarrow>
          Some (map (\<lambda>(index, field_type). f index field_type (ident @ ''_'' @ show_nat index))
             (filter (\<lambda>(index, _). contains_fields args index) (zip [0..<length fds] fds))))"

definition build_named_new_constructor :: "attribute list \<Rightarrow> (string \<times> string) list \<Rightarrow> string \<Rightarrow> string gen_fn list option" where
  "build_named_new_constructor attrs fds ident =
     (case parse_args at_named attrs ident of
        None \<Rightarrow> None
      | Some args \<Rightarrow>
          (let taken = filter (\<lambda>(field_name, _). contains_fields args field_name) fds;
               b = list_ex (\<lambda>(field_name, _). \<not> contains_fields args field_name) fds in
           Some [NewFn taken (NamedBody (map fst taken) b)]))"

definition build_unnamed_new_constructor :: "attribute list \<Rightarrow> string list \<Rightarrow> string \<Rightarrow> nat gen_fn list option" where
  "build_unnamed_new_constructor attrs fds ident =
     (case parse_args at_index attrs ident of
        None \<Rightarrow> None
      | Some args \<Rightarrow>
          (let ifs = zip [0..<length fds] fds in
           Some [NewFn (map (\<lambda>(index, ty). (tuple_var index, ty)) (filter (\<lambda>(index, _). contains_fields args index) ifs))
                   (TupleBody (map (\<lambda>(index, _). if contains_fields args index then Some (tuple_var index) else None) ifs))]))"

datatype generated = NamedImpl "string gen_fn list" | TupleImpl "nat gen_fn list"

definition handle_struct :: "attribute list \<Rightarrow> fields \<Rightarrow> string \<Rightarrow> generated option" where
  "handle_struct attrs fds ident =
     (case fds of
        Named fs \<Rightarrow>
          map_option NamedImpl
            (if ident = IDENT_GET then build_et_named_fn build_named_get_constructor attrs fs ident
             else if ident = IDENT_SET then build_et_named_fn build_named_set_constructor attrs fs ident
             else if ident = IDENT_NEW then build_named_new_constructor attrs fs ident
             else None)
      | Unnamed ts \<Rightarrow>
          map_option TupleImpl
            (if ident = IDENT_GET then build_et_unnamed_fn build_unnamed_get_constructor attrs ts ident
             else if ident = IDENT_SET then build_et_unnamed_fn build_unnamed_set_constructor attrs ts ident
             else if ident = IDENT_NEW then build_unnamed_new_constructor attrs ts ident
             else None)
      | UnitFields \<Rightarrow> None)"

definition drive :: "derive_input \<Rightarrow> string \<Rightarrow> generated option" where
  "drive ast ident = (case di_data ast of StructData fds \<Rightarrow> handle_struct (di_attrs ast) fds ident | _ \<Rightarrow> None)"

definition drive_get :: "derive_input \<Rightarrow> generated option" where
  "drive_get input = drive input IDENT_GET"

definition drive_set :: "derive_input \<Rightarrow> generated option" where
  "drive_set input = drive input IDENT_SET"

definition drive_new :: "derive_input \<Rightarrow> generated option" where
  "drive_new input = drive input IDENT_NEW"

section \<open>What the generated functions do\<close>

type_synonym ('i, 'v) struct_value = "'i \<Rightarrow> 'v"

fun eval_get :: "'i gen_fn \<Rightarrow> ('i, 'v) struct_value \<Rightarrow> 'v option" where
  "eval_get (GetFn _ _ f) s = Some (s f)"
| "eval_get _ s = None"

text \<open>\<open>into\<close>: the conversions \<^verbatim>\<open>Into\<close> into each type. A body that names another variable than the parameter does not compile.\<close>

fun eval_set :: "(string \<Rightarrow> 'a \<Rightarrow> 'v) \<Rightarrow> 'i gen_fn \<Rightarrow> 'a \<Rightarrow> ('i, 'v) struct_value \<Rightarrow> ('i, 'v) struct_value option" where
  "eval_set into (SetFn _ param ty f var) x s = (if var = param then Some (s(f := into ty x)) else None)"
| "eval_set into _ x s = None"

text \<open>Calls of the generated functions by name; \<open>None\<close> when there is no such function.\<close>

definition fn_name :: "'i gen_fn \<Rightarrow> string" where
  "fn_name g = (case g of GetFn n _ _ \<Rightarrow> n | SetFn n _ _ _ _ \<Rightarrow> n | NewFn _ _ \<Rightarrow> IDENT_NEW)"

definition call_get :: "'i gen_fn list \<Rightarrow> string \<Rightarrow> ('i, 'v) struct_value \<Rightarrow> 'v option" where
  "call_get fns name s = (case List.find (\<lambda>g. fn_name g = name) fns of None \<Rightarrow> None | Some g \<Rightarrow> eval_get g s)"

definition call_set :: "(string \<Rightarrow> 'a \<Rightarrow> 'v) \<Rightarrow> 'i gen_fn list \<Rightarrow> string \<Rightarrow> 'a \<Rightarrow> ('i, 'v) struct_value \<Rightarrow> ('i, 'v) struct_value option" where
  "call_set into fns name x s = (case List.find (\<lambda>g. fn_name g = name) fns of None \<Rightarrow> None | Some g \<Rightarrow> eval_set into g x s)"

text \<open>A call of \<^verbatim>\<open>new\<close> of a struct with fields \<open>all\<close>: parameters by position, defaults per field. A struct literal whose list of fields is empty but is followed by
  the comma before the base does not parse, and one without a base has to give every field.\<close>

definition eval_named_new :: "string list \<Rightarrow> string gen_fn \<Rightarrow> 'v list \<Rightarrow> (string \<Rightarrow> 'v) \<Rightarrow> (string, 'v) struct_value option" where
  "eval_named_new all g args dflt =
     (case g of
        NewFn params (NamedBody names base) \<Rightarrow>
          if (base \<and> names = []) \<or> (\<not> base \<and> \<not> set all \<subseteq> set names) \<or> length args \<noteq> length params then None
          else Some (\<lambda>f. case map_of (zip (map fst params) args) f of
                 Some v \<Rightarrow> if f \<in> set names then v else dflt f
               | None \<Rightarrow> dflt f)
      | _ \<Rightarrow> None)"

definition eval_tuple_new :: "nat gen_fn \<Rightarrow> 'v list \<Rightarrow> (nat \<Rightarrow> 'v) \<Rightarrow> (nat, 'v) struct_value option" where
  "eval_tuple_new g args dflt =
     (case g of
        NewFn params (TupleBody vars) \<Rightarrow>
          if length args \<noteq> length params then None
          else Some (\<lambda>i. case (if i < length vars then vars ! i else None) of
                 Some v \<Rightarrow> (case map_of (zip (map fst params) args) v of Some x \<Rightarrow> x | None \<Rightarrow> dflt i)
               | None \<Rightarrow> dflt i)
      | _ \<Rightarrow> None)"

section \<open>Lemmas\<close>

text \<open>The fields a derive is asked for, in the order of the struct.\<close>

definition selected :: "'i list option \<Rightarrow> ('i \<times> string) list \<Rightarrow> ('i \<times> string) list" where
  "selected args fds = filter (\<lambda>(f, _). args = None \<or> f \<in> set (the args)) fds"

lemma contains_fields_iff: "contains_fields args f \<longleftrightarrow> args = None \<or> f \<in> set (the args)"
  by (simp add: contains_fields_def split: option.split)

lemma selected_alt: "filter (\<lambda>(f, _). contains_fields args f) fds = selected args fds"
  by (simp add: selected_def contains_fields_iff)

lemma selected_names: "f \<in> set (map fst (selected args fds)) \<longleftrightarrow> f \<in> set (map fst fds) \<and> contains_fields args f"
  by (force simp: selected_def contains_fields_iff)

lemma selected_distinct: "distinct (map fst fds) \<Longrightarrow> distinct (map fst (selected args fds))"
  by (simp add: selected_def distinct_map_filter)

lemma drive_named:
  assumes "di_data ast = StructData (Named fds)" "parse_args at_named (di_attrs ast) ident = Some args"
  shows "ident = IDENT_GET \<Longrightarrow> drive ast ident =
      Some (NamedImpl (map (\<lambda>(f, t). GetFn (''get_'' @ f) t f) (selected args fds)))"
    "ident = IDENT_SET \<Longrightarrow> drive ast ident =
      Some (NamedImpl (map (\<lambda>(f, t). SetFn (''set_'' @ f) f t f f) (selected args fds)))"
    "ident = IDENT_NEW \<Longrightarrow> drive ast ident =
      Some (NamedImpl [NewFn (selected args fds) (NamedBody (map fst (selected args fds)) (selected args fds \<noteq> fds))])"
proof -
  have b: "list_ex (\<lambda>(f, _). \<not> contains_fields args f) fds \<longleftrightarrow> selected args fds \<noteq> fds"
    by (auto simp: list_ex_iff filter_id_conv simp flip: selected_alt)
  show "ident = IDENT_GET \<Longrightarrow> drive ast ident = Some (NamedImpl (map (\<lambda>(f, t). GetFn (''get_'' @ f) t f) (selected args fds)))"
    "ident = IDENT_SET \<Longrightarrow> drive ast ident = Some (NamedImpl (map (\<lambda>(f, t). SetFn (''set_'' @ f) f t f f) (selected args fds)))"
    "ident = IDENT_NEW \<Longrightarrow> drive ast ident =
      Some (NamedImpl [NewFn (selected args fds) (NamedBody (map fst (selected args fds)) (selected args fds \<noteq> fds))])"
    using assms b
    by (simp_all add: drive_def handle_struct_def IDENT_GET_def IDENT_SET_def IDENT_NEW_def build_et_named_fn_def
        build_named_get_constructor_def build_named_set_constructor_def build_named_new_constructor_def Let_def
        selected_alt)
qed

text \<open>Binding distinct names to as many values.\<close>

lemma map_bound:
  assumes "distinct ns" "length vs = length ns"
  shows "map (\<lambda>n. case map_of (zip ns vs) n of Some v \<Rightarrow> v | None \<Rightarrow> d n) ns = vs"
proof (rule nth_equalityI)
  fix i assume "i < length (map (\<lambda>n. case map_of (zip ns vs) n of Some v \<Rightarrow> v | None \<Rightarrow> d n) ns)"
  with assms show "map (\<lambda>n. case map_of (zip ns vs) n of Some v \<Rightarrow> v | None \<Rightarrow> d n) ns ! i = vs ! i"
    by (simp add: map_of_zip_nth)
qed (simp add: assms)

lemma not_bound: "length vs = length ns \<Longrightarrow> n \<notin> set ns \<Longrightarrow> map_of (zip ns vs) n = None"
  by simp

text \<open>Constructing a struct with named fields: the parameters hold the arguments in order, the other fields their defaults.\<close>

lemma eval_named_new_spec:
  assumes "distinct (map fst params)" "length vs = length params" "\<not> (b \<and> map fst params = [])" "b \<or> set all \<subseteq> set (map fst params)"
  shows "\<exists>s. eval_named_new all (NewFn params (NamedBody (map fst params) b)) vs dflt = Some s \<and>
    map s (map fst params) = vs \<and> (\<forall>f. f \<notin> set (map fst params) \<longrightarrow> s f = dflt f)"
proof -
  let ?m = "map_of (zip (map fst params) vs)"
  define s where "s = (\<lambda>f. case ?m f of Some v \<Rightarrow> v | None \<Rightarrow> dflt f)"
  have none: "?m f = None" if "f \<notin> set (map fst params)" for f
    by (rule not_bound) (use that assms(2) in simp_all)
  have "(case ?m f of Some v \<Rightarrow> if f \<in> set (map fst params) then v else dflt f | None \<Rightarrow> dflt f) = s f" for f
  proof (cases "f \<in> set (map fst params)")
    case False
    then show ?thesis unfolding s_def none [OF False] by simp
  qed (simp only: s_def if_True)
  then have "eval_named_new all (NewFn params (NamedBody (map fst params) b)) vs dflt = Some s"
    using assms(2-4) by (simp add: eval_named_new_def fun_eq_iff)
  moreover have "map s (map fst params) = vs"
    unfolding s_def by (rule map_bound) (simp_all add: assms)
  moreover have "s f = dflt f" if "f \<notin> set (map fst params)" for f
    unfolding s_def none [OF that] by simp
  ultimately show ?thesis by blast
qed

lemma drive_tuple_new:
  assumes "di_data ast = StructData (Unnamed ts)" "parse_args at_index (di_attrs ast) IDENT_NEW = Some args"
  shows "drive ast IDENT_NEW = Some (TupleImpl
    [NewFn (map (\<lambda>(i, ty). (tuple_var i, ty)) (selected args (zip [0..<length ts] ts)))
       (TupleBody (map (\<lambda>i. if contains_fields args i then Some (tuple_var i) else None) [0..<length ts]))])"
proof -
  have z: "map (\<lambda>(index, _). if contains_fields args index then Some (tuple_var index) else None) (zip [0..<length ts] ts) =
      map (\<lambda>i. if contains_fields args i then Some (tuple_var i) else None) [0..<length ts]"
    by (rule nth_equalityI) auto
  show ?thesis
    using assms z
    by (simp add: drive_def handle_struct_def IDENT_GET_def IDENT_SET_def IDENT_NEW_def build_unnamed_new_constructor_def
        selected_alt)
qed

lemma selected_positions: "map fst (selected args (zip [0..<length ts] ts)) = filter (contains_fields args) [0..<length ts]"
proof -
  have "map fst (filter (\<lambda>x. contains_fields args (fst x)) ps) = filter (contains_fields args) (map fst ps)" for ps :: "(nat \<times> string) list"
    by (induction ps) auto
  from this [of "zip [0..<length ts] ts"] show ?thesis by (simp add: case_prod_beta' flip: selected_alt)
qed

lemma tuple_var_distinct: "distinct is \<Longrightarrow> distinct (map tuple_var is)"
  by (simp add: distinct_map inj_on_def tuple_var_def show_nat_inj)

text \<open>Constructing a tuple struct: the selected positions hold the arguments in order, the others their defaults.\<close>

lemma eval_tuple_new_spec:
  assumes "map fst params = map tuple_var is" "is = filter p [0..<n]" "length vs = length is"
    and "eval_tuple_new (NewFn params (TupleBody (map (\<lambda>i. if p i then Some (tuple_var i) else None) [0..<n]))) vs dflt = Some s"
  shows "map s is = vs" "i < n \<Longrightarrow> \<not> p i \<Longrightarrow> s i = dflt i"
proof -
  have s: "s = (\<lambda>i. case (if i < n then (if p i then Some (tuple_var i) else None) else None) of
      Some v \<Rightarrow> (case map_of (zip (map tuple_var is) vs) v of Some x \<Rightarrow> x | None \<Rightarrow> dflt i) | None \<Rightarrow> dflt i)"
    using assms(4) by (auto simp: eval_tuple_new_def assms(1) fun_eq_iff split: if_splits)
  show "i < n \<Longrightarrow> \<not> p i \<Longrightarrow> s i = dflt i" by (simp add: s)
  have d: "distinct (map tuple_var is)" by (rule tuple_var_distinct) (simp add: assms(2))
  show "map s is = vs"
  proof (rule nth_equalityI)
    fix k assume "k < length (map s is)"
    then have k: "k < length is" by simp
    then have "is ! k < n" "p (is ! k)" using nth_mem [OF k] by (auto simp: assms(2))
    moreover have "map_of (zip (map tuple_var is) vs) (tuple_var (is ! k)) = Some (vs ! k)"
      using map_of_zip_nth [of "map tuple_var is" vs k] d k assms(3) by simp
    ultimately show "map s is ! k = vs ! k" using k by (simp add: s)
  qed (simp add: assms(3))
qed

lemma derive_tuple_new:
  assumes "di_data ast = StructData (Unnamed ts)" "parse_args at_index (di_attrs ast) IDENT_NEW = Some args"
    and "is = filter (contains_fields args) [0..<length ts]" "length vs = length is"
  shows "\<exists>g s. drive ast IDENT_NEW = Some (TupleImpl [g]) \<and> eval_tuple_new g vs dflt = Some s \<and>
    map s is = vs \<and> (\<forall>i < length ts. \<not> contains_fields args i \<longrightarrow> s i = dflt i)"
proof -
  let ?params = "map (\<lambda>(i, ty). (tuple_var i, ty)) (selected args (zip [0..<length ts] ts))"
  let ?g = "NewFn ?params (TupleBody (map (\<lambda>i. if contains_fields args i then Some (tuple_var i) else None) [0..<length ts]))"
  have "map fst ?params = map tuple_var (map fst (selected args (zip [0..<length ts] ts)))" by (simp add: case_prod_beta')
  then have names: "map fst ?params = map tuple_var is" by (simp only: selected_positions assms(3))
  have len: "length vs = length ?params" using arg_cong [OF names, of length] assms(4) by simp
  then obtain s where s: "eval_tuple_new ?g vs dflt = Some s" by (simp add: eval_tuple_new_def)
  from eval_tuple_new_spec [OF names assms(3,4) s] drive_tuple_new [OF assms(1,2)] s show ?thesis by blast
qed

text \<open>The generated functions are found by the names of their fields.\<close>

lemma find_named:
  assumes "\<And>f t. fn_name (gen f t) = pre @ f"
  shows "List.find (\<lambda>g. fn_name g = pre @ f) (map (\<lambda>(f, t). gen f t) sel) = map_option (gen f) (map_of sel f)"
  by (induction sel) (auto simp: assms)

lemma map_of_selected: "map_of (selected args fds) f = (if contains_fields args f then map_of fds f else None)"
  by (induction fds) (auto simp: selected_def contains_fields_iff)

lemma call_get_named:
  "call_get (map (\<lambda>(f, t). GetFn (''get_'' @ f) t f) (selected args fds)) (''get_'' @ f) r =
     (if f \<in> fst ` set fds \<and> contains_fields args f then Some (r f) else None)"
proof -
  let ?gen = "\<lambda>f t. GetFn (''get_'' @ f) t f"
  have "List.find (\<lambda>g. fn_name g = ''get_'' @ f) (map (\<lambda>(f, t). ?gen f t) (selected args fds)) = map_option (?gen f) (map_of (selected args fds) f)"
    by (rule find_named) (simp add: fn_name_def)
  moreover have "map_of fds f = None \<longleftrightarrow> f \<notin> fst ` set fds" by (rule map_of_eq_None_iff)
  ultimately show ?thesis
    unfolding call_get_def by (cases "map_of fds f") (simp_all add: map_of_selected del: append.simps)
qed

lemma call_set_named:
  assumes "distinct (map fst fds)" "(f, t) \<in> set fds"
  shows "call_set into (map (\<lambda>(f, t). SetFn (''set_'' @ f) f t f f) (selected args fds)) (''set_'' @ f) x r =
     (if contains_fields args f then Some (r(f := into t x)) else None)"
proof -
  let ?gen = "\<lambda>f t. SetFn (''set_'' @ f) f t f f"
  have "List.find (\<lambda>g. fn_name g = ''set_'' @ f) (map (\<lambda>(f, t). ?gen f t) (selected args fds)) = map_option (?gen f) (map_of (selected args fds) f)"
    by (rule find_named) (simp add: fn_name_def)
  moreover have "map_of fds f = Some t" using assms by simp
  ultimately show ?thesis unfolding call_set_def by (simp add: map_of_selected del: append.simps)
qed

section \<open>Properties\<close>

text \<open>C40. The derives of a struct with named fields whose attributes parse, when the selection of \<^verbatim>\<open>new\<close> is not empty (unless the struct is): \<^verbatim>\<open>new\<close>
  takes exactly the selected fields, in the order of the struct, and gives every other field its default. There is a getter \<^verbatim>\<open>get_f\<close> or a setter \<^verbatim>\<open>set_f\<close>
  exactly for the fields selected for it. Called by its name the setter stores its argument, converted into the type of the field, in that field only, and the
  getter returns its field: after \<^verbatim>\<open>set_g\<close> the getter \<^verbatim>\<open>get_g\<close> returns the converted argument and every other getter what it returned before.\<close>

theorem derive_laws:
  fixes vs :: "'v list" and dflt :: "string \<Rightarrow> 'v" and into :: "string \<Rightarrow> 'a \<Rightarrow> 'v"
  assumes "di_data ast = StructData (Named fds)" "distinct (map fst fds)"
    and "parse_args at_named (di_attrs ast) IDENT_NEW = Some an" "parse_args at_named (di_attrs ast) IDENT_GET = Some ag"
    and "parse_args at_named (di_attrs ast) IDENT_SET = Some as" "selected an fds \<noteq> [] \<or> fds = []"
    and "length vs = length (selected an fds)"
  shows "\<exists>new getters setters s. drive ast IDENT_NEW = Some (NamedImpl [new]) \<and> drive ast IDENT_GET = Some (NamedImpl getters) \<and>
    drive ast IDENT_SET = Some (NamedImpl setters) \<and>
    eval_named_new (map fst fds) new vs dflt = Some s \<and> map s (map fst (selected an fds)) = vs \<and>
    (\<forall>f. f \<notin> set (map fst (selected an fds)) \<longrightarrow> s f = dflt f) \<and>
    (\<forall>f (r :: (string, 'v) struct_value). call_get getters (''get_'' @ f) r =
       (if f \<in> set (map fst fds) \<and> (ag = None \<or> f \<in> set (the ag)) then Some (r f) else None)) \<and>
    (\<forall>g t x (r :: (string, 'v) struct_value). (g, t) \<in> set fds \<longrightarrow> call_set into setters (''set_'' @ g) x r =
       (if as = None \<or> g \<in> set (the as) then Some (r(g := into t x)) else None)) \<and>
    (\<forall>f v g t x (r :: (string, 'v) struct_value) r'. call_get getters (''get_'' @ f) r = Some v \<and> (g, t) \<in> set fds \<and>
       call_set into setters (''set_'' @ g) x r = Some r' \<longrightarrow> call_get getters (''get_'' @ f) r' = Some (if f = g then into t x else v))"
proof -
  let ?sel = "selected an fds" and ?gs = "map (\<lambda>(f, t). GetFn (''get_'' @ f) t f) (selected ag fds)"
    and ?ss = "map (\<lambda>(f, t). SetFn (''set_'' @ f) f t f f) (selected as fds)"
  let ?new = "NewFn ?sel (NamedBody (map fst ?sel) (?sel \<noteq> fds))"
  note d = drive_named(3) [OF assms(1,3) refl] drive_named(1) [OF assms(1,4) refl] drive_named(2) [OF assms(1,5) refl]
  have lit: "\<not> (?sel \<noteq> fds \<and> map fst ?sel = [])" using assms(6) by (auto simp: selected_def)
  have "?sel \<noteq> fds \<or> set (map fst fds) \<subseteq> set (map fst ?sel)" by auto
  from eval_named_new_spec [OF selected_distinct [OF assms(2)] assms(7) lit this] obtain s where
    s: "eval_named_new (map fst fds) ?new vs dflt = Some s"
      "map s (map fst ?sel) = vs" "\<forall>f. f \<notin> set (map fst ?sel) \<longrightarrow> s f = dflt f" by blast
  have g: "\<forall>f (r :: (string, 'v) struct_value). call_get ?gs (''get_'' @ f) r =
      (if f \<in> set (map fst fds) \<and> (ag = None \<or> f \<in> set (the ag)) then Some (r f) else None)"
    unfolding call_get_named contains_fields_iff by simp
  have t: "\<forall>g t x (r :: (string, 'v) struct_value). (g, t) \<in> set fds \<longrightarrow> call_set into ?ss (''set_'' @ g) x r =
      (if as = None \<or> g \<in> set (the as) then Some (r(g := into t x)) else None)"
    by (intro allI impI) (simp only: call_set_named [OF assms(2)] contains_fields_iff)
  have "\<forall>f v g t x (r :: (string, 'v) struct_value) r'. call_get ?gs (''get_'' @ f) r = Some v \<and> (g, t) \<in> set fds \<and>
      call_set into ?ss (''set_'' @ g) x r = Some r' \<longrightarrow> call_get ?gs (''get_'' @ f) r' = Some (if f = g then into t x else v)"
  proof (intro allI impI, elim conjE)
    fix f v g0 t0 x and r r' :: "(string, 'v) struct_value"
    assume a: "call_get ?gs (''get_'' @ f) r = Some v" "(g0, t0) \<in> set fds" "call_set into ?ss (''set_'' @ g0) x r = Some r'"
    have "r' = r(g0 := into t0 x)" using a(3) unfolding t [rule_format, OF a(2)] by (auto split: if_splits)
    then show "call_get ?gs (''get_'' @ f) r' = Some (if f = g0 then into t0 x else v)"
      using a(1) unfolding g [rule_format] by (auto split: if_splits)
  qed
  then show ?thesis using d s g t
    by (rule_tac x = ?new in exI, rule_tac x = ?gs in exI, rule_tac x = ?ss in exI, rule_tac x = s in exI) (intro conjI)
qed

theorem derive_laws_witness:
  "\<exists>new setters getters s. drive \<lparr>di_attrs = [\<lparr>at_path = ''new'', at_named = MetaList (Some [''b'']), at_index = MetaPath\<rparr>],
       di_data = StructData (Named [(''a'', ''u8''), (''b'', ''u8'')])\<rparr> IDENT_NEW = Some (NamedImpl [new]) \<and>
     eval_named_new [''a'', ''b''] new [5::nat] (\<lambda>_. 0) = Some s \<and> s ''b'' = 5 \<and> s ''a'' = 0 \<and>
     Option.bind (call_set (\<lambda>_. Suc) setters (''set_'' @ ''a'') 6 s) (call_get getters (''get_'' @ ''a'')) = Some 7"
proof -
  let ?ast = "\<lparr>di_attrs = [\<lparr>at_path = ''new'', at_named = MetaList (Some [''b'']), at_index = MetaPath\<rparr>],
       di_data = StructData (Named [(''a'', ''u8''), (''b'', ''u8'')])\<rparr>"
  let ?fds = "[(''a'', ''u8''), (''b'', ''u8'')]"
  have sel: "selected (Some [''b'']) ?fds = [(''b'', ''u8'')]" by (simp add: selected_def)
  have args: "parse_args at_named (di_attrs ?ast) IDENT_NEW = Some (Some [''b''])" "parse_args at_named (di_attrs ?ast) IDENT_GET = Some None"
    "parse_args at_named (di_attrs ?ast) IDENT_SET = Some None"
    by (simp_all add: parse_args_def parse_meta_def IDENT_NEW_def IDENT_GET_def IDENT_SET_def)
  have pre: "di_data ?ast = StructData (Named ?fds)" "distinct (map fst ?fds)"
    "selected (Some [''b'']) ?fds \<noteq> [] \<or> ?fds = []" "length [5::nat] = length (selected (Some [''b'']) ?fds)"
    by (simp_all add: sel)
  obtain new getters setters s where "drive ?ast IDENT_NEW = Some (NamedImpl [new])"
    "eval_named_new [''a'', ''b''] new [5::nat] (\<lambda>_. 0) = Some s"
    and s: "map s (map fst (selected (Some [''b'']) ?fds)) = [5]"
      "\<forall>f. f \<notin> set (map fst (selected (Some [''b'']) ?fds)) \<longrightarrow> s f = 0"
    and get: "\<forall>f (r :: (string, nat) struct_value). call_get getters (''get_'' @ f) r = (if f \<in> set [''a'', ''b''] \<and> (None = (None :: string list option) \<or> f \<in> set (the None)) then Some (r f) else None)"
    and set: "\<forall>g t x (r :: (string, nat) struct_value). (g, t) \<in> set ?fds \<longrightarrow> call_set (\<lambda>_. Suc) setters (''set_'' @ g) x r =
       (if None = (None :: string list option) \<or> g \<in> set (the None) then Some (r(g := Suc x)) else None)"
    using derive_laws [OF pre(1,2) args pre(3,4), of "\<lambda>_. 0" "\<lambda>_. Suc", unfolded list.map fst_conv]
    by (elim exE conjE) (rule that)
  moreover have "s ''b'' = 5" "s ''a'' = 0" using s unfolding sel by simp_all
  moreover have "call_set (\<lambda>_. Suc) setters (''set_'' @ ''a'') 6 s = Some (s(''a'' := Suc 6))"
    using set by (auto simp del: append.simps)
  moreover have "call_get getters (''get_'' @ ''a'') (s(''a'' := Suc 6)) = Some 7" using get by (auto simp del: append.simps)
  ultimately show ?thesis by (metis bind.bind_lunit)
qed

text \<open>An empty selection on a struct that has fields generates a \<^verbatim>\<open>new\<close> that does not compile: the comma before \<^verbatim>\<open>..Default::default()\<close> follows no field.\<close>

lemma derive_new_empty_selection:
  assumes "di_data ast = StructData (Named fds)" "parse_args at_named (di_attrs ast) IDENT_NEW = Some (Some [])" "fds \<noteq> []"
  shows "\<exists>new. drive ast IDENT_NEW = Some (NamedImpl [new]) \<and> eval_named_new (map fst fds) new vs dflt = None"
proof -
  have "selected (Some []) fds = []" by (simp add: selected_def)
  then show ?thesis using drive_named(3) [OF assms(1,2) refl] assms(3) by (auto simp: eval_named_new_def)
qed

end
