(* ===== verification/Cfg_Macro.thy ===== *)
theory Cfg_Macro
  imports Daemon
begin

text \<open>
  The attribute macro \<^verbatim>\<open>conf\<close> of \<^verbatim>\<open>macros/cfg_lib/cfg_macro/src/lib.rs\<close>: the parser of its arguments, the function \<^verbatim>\<open>conf()\<close> and the registration it generates, and
  what the two do together with the start-up of \<^verbatim>\<open>conf.rs\<close> (theory \<^verbatim>\<open>Daemon\<close>).

  The model starts from tokens and from the parsed item. \<open>None\<close> of the operations that generate code is a panic of the macro, which the
  compiler reports; \<open>None\<close> of the generated functions is a panic of the service. A YAML document, its parser and the deserialisers that serde derives
  are parameters. Letters are ASCII.
\<close>

section \<open>Arguments of the attribute\<close>

datatype token = TIdent string | TPunct char | TLiteral string | TGroup   \<comment> \<open>a literal is its source text, quotes included\<close>

record con_attr =
  ca_path :: "string option"
  ca_prefix :: "string option"
  ca_data_type :: "string option"
  ca_lib :: "string option"
  ca_check :: bool
  ca_default :: bool

definition con_attr_default :: con_attr where
  "con_attr_default = \<lparr>ca_path = None, ca_prefix = None, ca_data_type = None, ca_lib = None, ca_check = False, ca_default = True\<rparr>"

definition quote_char :: char where
  "quote_char = CHR 0x22"

text \<open>An identifier becomes the key; three of them have an effect of their own.\<close>

definition attr_key :: "string \<Rightarrow> con_attr \<Rightarrow> con_attr" where
  "attr_key key attr =
     (if key = ''lib'' then attr\<lparr>ca_lib := Some []\<rparr>
      else if key = ''check'' then attr\<lparr>ca_check := True\<rparr>
      else if key = ''default'' then attr\<lparr>ca_default := True\<rparr>
      else attr)"

definition attr_literal :: "string \<Rightarrow> string \<Rightarrow> con_attr \<Rightarrow> con_attr option" where
  "attr_literal key value attr =
     (if key = ''lib'' then Some (attr\<lparr>ca_lib := Some value\<rparr>)
      else if key = ''path'' then Some (attr\<lparr>ca_path := Some value\<rparr>)
      else if key = ''prefix'' then Some (attr\<lparr>ca_prefix := Some value\<rparr>)
      else if key = ''data_type'' then Some (attr\<lparr>ca_data_type := Some (map upper_char value)\<rparr>)
      else if key = ''default'' then
        (if map lower_char value = ''false'' then Some (attr\<lparr>ca_default := False\<rparr>)
         else if map lower_char value = ''true'' then Some (attr\<lparr>ca_default := True\<rparr>)
         else None)
      else None)"

fun parse_attr_loop :: "token list \<Rightarrow> con_attr \<Rightarrow> string \<Rightarrow> con_attr option" where
  "parse_attr_loop [] attr key = Some attr"
| "parse_attr_loop (TIdent ident # ts) attr key =
     (if key = ''default'' \<and> (ident = ''true'' \<or> ident = ''false'')
      then parse_attr_loop ts (attr\<lparr>ca_default := (ident \<noteq> ''false'')\<rparr>) []
      else parse_attr_loop ts (attr_key ident attr) ident)"
| "parse_attr_loop (TPunct _ # ts) attr key = parse_attr_loop ts attr key"
| "parse_attr_loop (TLiteral lit # ts) attr key =
     (case attr_literal key (trim_matches quote_char lit) attr of
        None \<Rightarrow> None
      | Some attr' \<Rightarrow> parse_attr_loop ts attr' key)"
| "parse_attr_loop (TGroup # ts) attr key = None"

definition parse_attr :: "token list \<Rightarrow> con_attr option" where
  "parse_attr args = parse_attr_loop args con_attr_default []"

section \<open>Generated code\<close>

type_synonym item_attr = "string \<times> string"   \<comment> \<open>path and arguments of an attribute\<close>

record field_decl =
  fd_attrs :: "item_attr list"
  fd_name :: string
  fd_type :: string

datatype conf_data = NamedStruct "field_decl list" | OtherStruct | NotStruct

record conf_ast =
  cst_ident :: string
  cst_attrs :: "item_attr list"
  cst_data :: conf_data

text \<open>The attributes and fields a deserialiser is derived from.\<close>

record container =
  ct_attrs :: "item_attr list"
  ct_fields :: "field_decl list"

datatype crate_root = BaseCrate | LibCrate string | CurrentCrate

datatype conf_body =
  FromValue
| ViaProxy string container "string list"      \<comment> \<open>name and declaration of the proxy, and the fields copied from it\<close>

record conf_fn =
  cf_lib :: crate_root
  cf_path :: "string option"
  cf_prefix :: "string option"
  cf_body :: conf_body

record registration =
  rg_fn :: string
  rg_root :: crate_root
  rg_check :: bool

definition camel_to_snake :: "string \<Rightarrow> string" where
  "camel_to_snake s =
     concat (map (\<lambda>(i, c). if is_upper c then (if i > 0 then ''_'' else []) @ [lower_char c] else [c]) (enumerate 0 s))"

text \<open>\<open>path_ok\<close>: whether \<^verbatim>\<open>syn\<close> parses a text as a path.\<close>

definition lib_root :: "(string \<Rightarrow> bool) \<Rightarrow> string option \<Rightarrow> crate_root option" where
  "lib_root path_ok lib =
     (case lib of
        None \<Rightarrow> Some BaseCrate
      | Some l \<Rightarrow> if l \<noteq> [] then (if path_ok l then Some (LibCrate l) else None) else Some CurrentCrate)"

definition build_register_constructor :: "(string \<Rightarrow> bool) \<Rightarrow> con_attr \<Rightarrow> string \<Rightarrow> registration option option" where
  "build_register_constructor path_ok attr struct_name =
     (if ca_path attr \<noteq> None then Some None
      else map_option (\<lambda>root. Some \<lparr>rg_fn = ''register_instance_'' @ camel_to_snake struct_name, rg_root = root, rg_check = ca_check attr\<rparr>)
             (lib_root path_ok (ca_lib attr)))"

definition is_serde :: "item_attr \<Rightarrow> bool" where
  "is_serde a \<longleftrightarrow> fst a = ''serde''"

definition build_default_data_type :: "conf_ast \<Rightarrow> conf_body option" where
  "build_default_data_type ast =
     (case cst_data ast of
        NamedStruct fds \<Rightarrow>
          Some (ViaProxy (''__CfgMacroDefaultProxyFor'' @ cst_ident ast)
            \<lparr>ct_attrs = filter is_serde (cst_attrs ast),
             ct_fields = map (\<lambda>fd. \<lparr>fd_attrs = filter is_serde (fd_attrs fd), fd_name = fd_name fd, fd_type = fd_type fd\<rparr>) fds\<rparr>
            (map fd_name fds))
      | OtherStruct \<Rightarrow> None
      | NotStruct \<Rightarrow> None)"

definition build_conf_constructor :: "(string \<Rightarrow> bool) \<Rightarrow> con_attr \<Rightarrow> conf_ast \<Rightarrow> conf_fn option" where
  "build_conf_constructor path_ok attr ast =
     (case lib_root path_ok (ca_lib attr) of
        None \<Rightarrow> None
      | Some root \<Rightarrow>
          (let fn = (\<lambda>body. \<lparr>cf_lib = root, cf_path = ca_path attr, cf_prefix = ca_prefix attr, cf_body = body\<rparr>) in
           if ca_data_type attr = None \<or> ca_data_type attr = Some ''YAML''
           then (if ca_default attr then map_option fn (build_default_data_type ast) else Some (fn FromValue))
           else None))"

definition conf :: "(string \<Rightarrow> bool) \<Rightarrow> token list \<Rightarrow> conf_ast \<Rightarrow> (conf_fn \<times> registration option) option" where
  "conf path_ok attrs ast =
     (case parse_attr attrs of
        None \<Rightarrow> None
      | Some attr \<Rightarrow>
          (case build_register_constructor path_ok attr (cst_ident ast) of
             None \<Rightarrow> None
           | Some register_constructor \<Rightarrow>
               map_option (\<lambda>f. (f, register_constructor)) (build_conf_constructor path_ok attr ast)))"

section \<open>What the generated code does\<close>

record ('y, 's, 'v) conf_env =
  ce_read :: "string \<Rightarrow> string option"                  \<comment> \<open>the text of a file\<close>
  ce_parse :: "string \<Rightarrow> 'y option"                     \<comment> \<open>the YAML parser\<close>
  ce_mapping :: "'y \<Rightarrow> (string \<Rightarrow> 'y option) option"    \<comment> \<open>a mapping's entries under string keys\<close>
  ce_own :: "'y \<Rightarrow> 's option"                           \<comment> \<open>the deserialiser of the struct\<close>
  ce_derived :: "container \<Rightarrow> 'y \<Rightarrow> (string \<Rightarrow> 'v) option"   \<comment> \<open>the one derived for a declaration with named fields\<close>
  ce_struct :: "(string \<times> 'v) list \<Rightarrow> 's"                \<comment> \<open>the struct literal\<close>

fun walk_prefix :: "('y \<Rightarrow> (string \<Rightarrow> 'y option) option) \<Rightarrow> string list \<Rightarrow> 'y \<Rightarrow> 'y option" where
  "walk_prefix as_mapping [] target_value = Some target_value"
| "walk_prefix as_mapping (key # keys) target_value =
     (case as_mapping target_value of
        None \<Rightarrow> None
      | Some m \<Rightarrow> (case m key of None \<Rightarrow> None | Some v \<Rightarrow> walk_prefix as_mapping keys v))"

definition run_body :: "('y, 's, 'v) conf_env \<Rightarrow> conf_body \<Rightarrow> 'y \<Rightarrow> 's option" where
  "run_body env body target_value =
     (case body of
        FromValue \<Rightarrow> ce_own env target_value
      | ViaProxy _ decl assigned \<Rightarrow>
          map_option (\<lambda>proxy. ce_struct env (map (\<lambda>f. (f, proxy f)) assigned)) (ce_derived env decl target_value))"

definition run_conf :: "('y, 's, 'v) conf_env \<Rightarrow> conf_fn \<Rightarrow> config_state \<Rightarrow> 's option" where
  "run_conf env f s =
     (case (case cf_path f of None \<Rightarrow> get_config s | Some path \<Rightarrow> ce_read env path) of
        None \<Rightarrow> None
      | Some yaml_content \<Rightarrow>
          (case ce_parse env yaml_content of
             None \<Rightarrow> None
           | Some yaml_value \<Rightarrow>
               (case (case cf_prefix f of
                        None \<Rightarrow> Some yaml_value
                      | Some pre \<Rightarrow> walk_prefix (ce_mapping env) (split_by (\<lambda>c. c = CHR ''.'') pre) yaml_value) of
                  None \<Rightarrow> None
                | Some target_value \<Rightarrow> run_body env (cf_body f) target_value)))"

text \<open>The macros of \<^verbatim>\<open>macros/cfg_lib/src/util.rs\<close>: one field of a YAML text or file. Indexing with a key that is not there, or something that is not a mapping, gives
  \<open>null\<close>.\<close>

definition yaml_index :: "('y, 's, 'v) conf_env \<Rightarrow> 'y \<Rightarrow> 'y \<Rightarrow> string \<Rightarrow> 'y" where
  "yaml_index env null y field =
     (case ce_mapping env y of None \<Rightarrow> null | Some m \<Rightarrow> (case m field of None \<Rightarrow> null | Some v \<Rightarrow> v))"

definition load_str_yaml_field_to_struct :: "('y, 's, 'v) conf_env \<Rightarrow> 'y \<Rightarrow> string \<Rightarrow> string \<Rightarrow> 's option" where
  "load_str_yaml_field_to_struct env null the_str field =
     (case ce_parse env the_str of None \<Rightarrow> None | Some yaml_value \<Rightarrow> ce_own env (yaml_index env null yaml_value field))"

definition load_file_yaml_field_to_struct :: "('y, 's, 'v) conf_env \<Rightarrow> 'y \<Rightarrow> string \<Rightarrow> string \<Rightarrow> 's option" where
  "load_file_yaml_field_to_struct env null file_path field =
     (case ce_read env file_path of None \<Rightarrow> None | Some contents \<Rightarrow> load_str_yaml_field_to_struct env null contents field)"

text \<open>The closure of the registration, called after the configuration text has been stored; \<open>field_check\<close> is \<^verbatim>\<open>_field_check\<close> of the struct.\<close>

definition run_check :: "('y, 's, 'v) conf_env \<Rightarrow> ('s \<Rightarrow> string option) \<Rightarrow> conf_fn \<Rightarrow> bool \<Rightarrow> validator" where
  "run_check env field_check f check text =
     (case run_conf env f \<lparr>cs_conf = Some text, cs_instances = []\<rparr> of
        None \<Rightarrow> None
      | Some v \<Rightarrow> Some (if check then field_check v else None))"

text \<open>A type with the attribute, and the constructors that run before \<^verbatim>\<open>main\<close>.\<close>

record ('y, 's, 'v) conf_type =
  cy_name :: string                         \<comment> \<open>\<^verbatim>\<open>std::any::type_name\<close>\<close>
  cy_attrs :: "token list"
  cy_ast :: conf_ast
  cy_env :: "('y, 's, 'v) conf_env"
  cy_field_check :: "'s \<Rightarrow> string option"

definition run_ctor :: "(string \<Rightarrow> bool) \<Rightarrow> ('y, 's, 'v) conf_type \<Rightarrow> config_state \<Rightarrow> config_state" where
  "run_ctor path_ok t s =
     (case conf path_ok (cy_attrs t) (cy_ast t) of
        Some (f, Some r) \<Rightarrow> register_function (cy_name t) (run_check (cy_env t) (cy_field_check t) f (rg_check r)) s
      | _ \<Rightarrow> s)"

definition run_ctors :: "(string \<Rightarrow> bool) \<Rightarrow> ('y, 's, 'v) conf_type list \<Rightarrow> config_state \<Rightarrow> config_state" where
  "run_ctors path_ok ts s = fold (run_ctor path_ok) ts s"

text \<open>The macros and the attribute load a field the same way, for a type that cannot be made of nothing.\<close>

lemma split_by_whole: "(\<forall>x\<in>set s. \<not> P x) \<Longrightarrow> split_by P s = [s]"
  by (induction s) auto

lemma load_field_eq_conf:
  assumes "cf_prefix f = Some field" "CHR ''.'' \<notin> set field" "cf_body f = FromValue" "ce_own env null = None"
  shows "cf_path f = None \<Longrightarrow> get_config s = Some text' \<Longrightarrow> run_conf env f s = load_str_yaml_field_to_struct env null text' field"
    and "cf_path f = Some path \<Longrightarrow> run_conf env f s = load_file_yaml_field_to_struct env null path field"
proof -
  have sp: "split_by (\<lambda>c. c = CHR ''.'') field = [field]" using assms(2) by (intro split_by_whole) auto
  note defs = run_conf_def load_str_yaml_field_to_struct_def load_file_yaml_field_to_struct_def yaml_index_def run_body_def
  show "cf_path f = None \<Longrightarrow> get_config s = Some text' \<Longrightarrow> run_conf env f s = load_str_yaml_field_to_struct env null text' field"
    and "cf_path f = Some path \<Longrightarrow> run_conf env f s = load_file_yaml_field_to_struct env null path field"
    using assms(1,3,4) sp by (simp_all add: defs split: option.split)
qed

section \<open>The parser\<close>

text \<open>The clauses of the documented syntax, their tokens and their meaning.\<close>

datatype default_form = DefBare | DefIdent bool | DefLiteral string

datatype clause = CPath string | CPrefix string | CDataType string | CLib "string option" | CCheck | CDefault default_form

definition quoted :: "string \<Rightarrow> token" where
  "quoted v = TLiteral (quote_char # v @ [quote_char])"

definition assign :: "string \<Rightarrow> token \<Rightarrow> token list" where
  "assign key v = [TIdent key, TPunct (CHR ''=''), v]"

definition flag_text :: "bool \<Rightarrow> string" where
  "flag_text b = (if b then ''true'' else ''false'')"

fun clause_tokens :: "clause \<Rightarrow> token list" where
  "clause_tokens (CPath v) = assign ''path'' (quoted v)"
| "clause_tokens (CPrefix v) = assign ''prefix'' (quoted v)"
| "clause_tokens (CDataType v) = assign ''data_type'' (quoted v)"
| "clause_tokens (CLib None) = [TIdent ''lib'']"
| "clause_tokens (CLib (Some v)) = assign ''lib'' (quoted v)"
| "clause_tokens CCheck = [TIdent ''check'']"
| "clause_tokens (CDefault DefBare) = [TIdent ''default'']"
| "clause_tokens (CDefault (DefIdent b)) = assign ''default'' (TIdent (flag_text b))"
| "clause_tokens (CDefault (DefLiteral v)) = assign ''default'' (quoted v)"

fun apply_clause :: "clause \<Rightarrow> con_attr \<Rightarrow> con_attr" where
  "apply_clause (CPath v) a = a\<lparr>ca_path := Some v\<rparr>"
| "apply_clause (CPrefix v) a = a\<lparr>ca_prefix := Some v\<rparr>"
| "apply_clause (CDataType v) a = a\<lparr>ca_data_type := Some (map upper_char v)\<rparr>"
| "apply_clause (CLib v) a = a\<lparr>ca_lib := Some (case v of None \<Rightarrow> [] | Some l \<Rightarrow> l)\<rparr>"
| "apply_clause CCheck a = a\<lparr>ca_check := True\<rparr>"
| "apply_clause (CDefault DefBare) a = a\<lparr>ca_default := True\<rparr>"
| "apply_clause (CDefault (DefIdent b)) a = a\<lparr>ca_default := b\<rparr>"
| "apply_clause (CDefault (DefLiteral v)) a = a\<lparr>ca_default := (map lower_char v = ''true'')\<rparr>"

definition plain_text :: "string \<Rightarrow> bool" where
  "plain_text v \<longleftrightarrow> v = [] \<or> hd v \<noteq> quote_char \<and> last v \<noteq> quote_char"

fun plain_clause :: "clause \<Rightarrow> bool" where
  "plain_clause (CPath v) = plain_text v"
| "plain_clause (CPrefix v) = plain_text v"
| "plain_clause (CDataType v) = plain_text v"
| "plain_clause (CLib v) = (case v of None \<Rightarrow> True | Some l \<Rightarrow> plain_text l)"
| "plain_clause (CDefault (DefLiteral v)) \<longleftrightarrow> plain_text v \<and> map lower_char v \<in> {''true'', ''false''}"
| "plain_clause _ = True"

definition clauses_tokens :: "clause list \<Rightarrow> token list" where
  "clauses_tokens cs = concat (map (\<lambda>c. clause_tokens c @ [TPunct (CHR '','')]) cs)"

lemma trim_quoted: "plain_text v \<Longrightarrow> trim_matches quote_char (quote_char # v @ [quote_char]) = v"
  by (rule trim_matches_quoted) (simp add: plain_text_def)

lemma parse_clause:
  assumes "plain_clause c"
  shows "\<exists>key'. parse_attr_loop (clause_tokens c @ ts) attr key = parse_attr_loop ts (apply_clause c attr) key'"
  using assms
  by (cases c rule: clause_tokens.cases)
    (auto simp: assign_def quoted_def trim_quoted attr_literal_def attr_key_def flag_text_def split: option.splits)

lemma parse_clauses:
  assumes "\<forall>c\<in>set cs. plain_clause c"
  shows "parse_attr_loop (clauses_tokens cs) attr key = Some (fold apply_clause cs attr)"
  using assms
proof (induction cs arbitrary: attr key)
  case (Cons c cs)
  then have "plain_clause c" by simp
  from parse_clause [OF this] obtain key' where "parse_attr_loop (clause_tokens c @ TPunct (CHR '','') # clauses_tokens cs) attr key =
      parse_attr_loop (TPunct (CHR '','') # clauses_tokens cs) (apply_clause c attr) key'" by blast
  with Cons show ?case by (simp add: clauses_tokens_def)
qed (simp add: clauses_tokens_def)

text \<open>The arguments of the attribute mean what its documentation says, in every order and with repetitions: each clause sets its option, a later one wins,
  and without arguments the default is on and everything else is off.\<close>

lemma parse_attr_clauses:
  assumes "\<forall>c\<in>set cs. plain_clause c"
  shows "parse_attr (clauses_tokens cs) = Some (fold apply_clause cs con_attr_default)"
  unfolding parse_attr_def by (rule parse_clauses [OF assms])

text \<open>A literal is taken as its source text: an escape sequence is not decoded. The path \<^verbatim>\<open>"C:\\x"\<close> keeps both backslashes.\<close>

lemma literal_escapes_kept:
  assumes "bs = CHR 0x5C"
  shows "map_option ca_path (parse_attr (assign ''path'' (quoted [CHR ''C'', CHR '':'', bs, bs, CHR ''x'']))) =
    Some (Some [CHR ''C'', CHR '':'', bs, bs, CHR ''x''])"
  using assms by (simp add: parse_attr_def assign_def quoted_def attr_literal_def attr_key_def trim_matches_def quote_char_def)

section \<open>Names of registrations\<close>

text \<open>The inverse on names in camel case.\<close>

fun camel_of :: "string \<Rightarrow> string" where
  "camel_of [] = []"
| "camel_of (c # cs) =
     (if c = CHR ''_'' then (case cs of [] \<Rightarrow> [] | d # ds \<Rightarrow> upper_char d # camel_of ds) else c # camel_of cs)"

lemma camel_to_snake_tail:
  assumes "0 < i" "CHR ''_'' \<notin> set cs"
  shows "camel_of (concat (map (\<lambda>(i, c). if is_upper c then (if i > 0 then ''_'' else []) @ [lower_char c] else [c]) (enumerate i cs))) = cs"
  using assms by (induction cs arbitrary: i) (auto simp: upper_lower_char)

text \<open>Two types whose names are in camel case get registration functions with different names.\<close>

lemma camel_to_snake_inj:
  assumes "camel_to_snake (c # cs) = camel_to_snake (d # ds)" "is_upper c" "is_upper d"
    and "CHR ''_'' \<notin> set cs" "CHR ''_'' \<notin> set ds"
  shows "c # cs = d # ds"
proof -
  let ?tail = "\<lambda>cs. concat (map (\<lambda>(i, c). if is_upper c then (if i > 0 then ''_'' else []) @ [lower_char c] else [c]) (enumerate (Suc 0) cs))"
  have snake: "camel_to_snake (x # xs) = lower_char x # ?tail xs" if "is_upper x" for x xs
    using that by (simp add: camel_to_snake_def)
  have low: "lower_char c = lower_char d" and t: "?tail cs = ?tail ds"
    using assms(1) unfolding snake [OF assms(2)] snake [OF assms(3)] by (rule list.inject [THEN iffD1, THEN conjunct1], rule list.inject [THEN iffD1, THEN conjunct2])
  have "c = upper_char (lower_char c)" by (rule upper_lower_char [OF assms(2), symmetric])
  also have "\<dots> = d" unfolding low by (rule upper_lower_char [OF assms(3)])
  finally have "c = d" .
  have "cs = camel_of (?tail cs)" by (rule camel_to_snake_tail [OF zero_less_Suc assms(4), symmetric])
  also have "\<dots> = ds" unfolding t by (rule camel_to_snake_tail [OF zero_less_Suc assms(5)])
  finally show ?thesis using \<open>c = d\<close> by simp
qed

section \<open>Start-up\<close>

text \<open>What a type with the attribute puts into the table of validators.\<close>

definition ctor_entry :: "(string \<Rightarrow> bool) \<Rightarrow> ('y, 's, 'v) conf_type \<Rightarrow> (string \<times> validator) option" where
  "ctor_entry path_ok t =
     (case conf path_ok (cy_attrs t) (cy_ast t) of
        Some (f, Some r) \<Rightarrow> Some (cy_name t, run_check (cy_env t) (cy_field_check t) f (rg_check r))
      | _ \<Rightarrow> None)"

lemma run_ctor_entry:
  "run_ctor path_ok t s = (case ctor_entry path_ok t of None \<Rightarrow> s | Some (n, g) \<Rightarrow> register_function n g s)"
  by (simp add: run_ctor_def ctor_entry_def split: option.split)

lemma ctor_entry_name: "ctor_entry path_ok t = Some (n, g) \<Longrightarrow> n = cy_name t"
  by (auto simp: ctor_entry_def split: option.splits)

lemma register_function_new:
  "n \<notin> fst ` set (cs_instances s) \<Longrightarrow> set (cs_instances (register_function n g s)) = insert (n, g) (set (cs_instances s))"
  by (force simp: register_function_def)

lemma run_ctor_instances:
  assumes "cy_name t \<notin> fst ` set (cs_instances s)"
  shows "set (cs_instances (run_ctor path_ok t s)) = set (cs_instances s) \<union> {e. ctor_entry path_ok t = Some e}"
proof (cases "ctor_entry path_ok t")
  case (Some e)
  then obtain n g where e: "ctor_entry path_ok t = Some (n, g)" by (cases e) auto
  with ctor_entry_name [OF e] assms show ?thesis by (simp add: run_ctor_entry register_function_new)
qed (simp add: run_ctor_entry)

lemma run_ctors_instances:
  assumes "distinct (map cy_name ts)" "\<forall>t\<in>set ts. cy_name t \<notin> fst ` set (cs_instances s)"
  shows "set (cs_instances (run_ctors path_ok ts s)) = set (cs_instances s) \<union> {e. \<exists>t\<in>set ts. ctor_entry path_ok t = Some e}"
  using assms
proof (induction ts arbitrary: s)
  case (Cons t ts)
  let ?s = "run_ctor path_ok t s"
  have i: "set (cs_instances ?s) = set (cs_instances s) \<union> {e. ctor_entry path_ok t = Some e}"
    by (rule run_ctor_instances) (use Cons.prems in simp)
  have e: "fst ` {e. ctor_entry path_ok t = Some e} \<subseteq> {cy_name t}" by (auto dest: ctor_entry_name)
  have "cy_name u \<notin> fst ` set (cs_instances ?s)" if u: "u \<in> set ts" for u
  proof -
    from Cons.prems(1) u have "cy_name u \<noteq> cy_name t" by (auto simp: image_iff)
    moreover from Cons.prems(2) u have "cy_name u \<notin> fst ` set (cs_instances s)" by simp
    ultimately show ?thesis using e unfolding i image_Un by blast
  qed
  with Cons.IH [of ?s] Cons.prems(1)
  have "set (cs_instances (run_ctors path_ok ts ?s)) = set (cs_instances ?s) \<union> {e. \<exists>t\<in>set ts. ctor_entry path_ok t = Some e}"
    by simp
  moreover have "run_ctors path_ok (t # ts) s = run_ctors path_ok ts ?s" by (simp add: run_ctors_def)
  ultimately show ?case unfolding i by auto
qed (simp add: run_ctors_def)

lemma run_ctors_conf [simp]: "cs_conf (run_ctors path_ok ts s) = cs_conf s"
  by (induction ts arbitrary: s) (auto simp: run_ctors_def run_ctor_entry register_function_def split: option.splits)

text \<open>A call of \<^verbatim>\<open>conf()\<close> depends on the stored text only.\<close>

lemma run_conf_cell: "get_config s = Some text \<Longrightarrow> run_conf env f s = run_conf env f \<lparr>cs_conf = Some text, cs_instances = []\<rparr>"
  by (cases "cf_path f") (simp_all add: run_conf_def get_config_def)

lemma run_check_accepts:
  "run_check env field_check f check text = Some None \<longleftrightarrow>
     (\<exists>v. run_conf env f \<lparr>cs_conf = Some text, cs_instances = []\<rparr> = Some v \<and> (check \<longrightarrow> field_check v = None))"
  by (auto simp: run_check_def split: option.split)

lemma conf_registers:
  assumes "conf path_ok attrs ast = Some (f, reg)" "parse_attr attrs = Some attr"
  shows "ca_path attr = None \<longleftrightarrow> (\<exists>r. reg = Some r)"
    and "reg = Some r \<Longrightarrow> rg_check r = ca_check attr"
  using assms by (auto simp: conf_def build_register_constructor_def split: option.splits if_splits)

lemma conf_parses: "conf path_ok attrs ast = Some c \<Longrightarrow> \<exists>attr. parse_attr attrs = Some attr"
  by (auto simp: conf_def split: option.splits)

text \<open>The flag is set exactly by the word.\<close>

lemma attr_literal_check: "attr_literal key v attr = Some attr' \<Longrightarrow> ca_check attr' = ca_check attr"
  by (auto simp: attr_literal_def split: if_splits)

lemma parse_attr_loop_check:
  "parse_attr_loop ts attr key = Some a \<Longrightarrow> ca_check a \<longleftrightarrow> ca_check attr \<or> TIdent ''check'' \<in> set ts"
  by (induction ts attr key rule: parse_attr_loop.induct)
    (auto simp: attr_key_def dest: attr_literal_check split: if_splits option.splits)

lemma parse_attr_check: "parse_attr attrs = Some attr \<Longrightarrow> ca_check attr \<longleftrightarrow> TIdent ''check'' \<in> set attrs"
  using parse_attr_loop_check [of attrs con_attr_default "[]" attr] by (simp add: parse_attr_def con_attr_default_def)

lemma ctor_entry_accepts:
  assumes "get_config s = Some text"
  shows "(\<forall>e. ctor_entry path_ok t = Some e \<longrightarrow> snd e text = Some None) \<longleftrightarrow>
    (\<forall>attr f reg. parse_attr (cy_attrs t) = Some attr \<and> ca_path attr = None \<and> conf path_ok (cy_attrs t) (cy_ast t) = Some (f, reg) \<longrightarrow>
       (\<exists>v. run_conf (cy_env t) f s = Some v \<and> (TIdent ''check'' \<in> set (cy_attrs t) \<longrightarrow> cy_field_check t v = None)))"
proof (cases "conf path_ok (cy_attrs t) (cy_ast t)")
  case (Some c)
  then obtain f reg where c: "conf path_ok (cy_attrs t) (cy_ast t) = Some (f, reg)" by (cases c) auto
  then obtain attr where a: "parse_attr (cy_attrs t) = Some attr" using conf_parses by blast
  note r = conf_registers [OF c a] parse_attr_check [OF a]
  show ?thesis
    by (cases reg) (use c a r in \<open>auto simp: ctor_entry_def run_check_accepts run_conf_cell [OF assms]\<close>)
qed (simp add: ctor_entry_def)

lemma ctor_entries_accept:
  assumes "get_config s = Some text"
  shows "(\<forall>t\<in>set ts. \<forall>e. ctor_entry path_ok t = Some e \<longrightarrow> snd e text = Some None) \<longleftrightarrow>
    (\<forall>t\<in>set ts. \<forall>attr f reg. parse_attr (cy_attrs t) = Some attr \<and> ca_path attr = None \<and>
         conf path_ok (cy_attrs t) (cy_ast t) = Some (f, reg) \<longrightarrow>
       (\<exists>v. run_conf (cy_env t) f s = Some v \<and> (TIdent ''check'' \<in> set (cy_attrs t) \<longrightarrow> cy_field_check t v = None)))"
  by (rule ball_cong [OF refl]) (rule ctor_entry_accepts [OF assms])

text \<open>C23. A service whose configured types registered themselves starts exactly when the configuration file can be read, \<^verbatim>\<open>conf()\<close> of every type that
  compiles and has no \<^verbatim>\<open>path\<close> of its own returns a value on its text, and the field check accepts this value where the attribute of the type has the word
  \<^verbatim>\<open>check\<close>. After such a start the stored text is that of the file. (A type with a \<^verbatim>\<open>path\<close> takes no part in the start-up, whether it asks for a check or not:
  \<open>check_ignored_with_path\<close>.)\<close>

theorem configured_start:
  assumes "distinct (map cy_name ts)" "cs_instances s = []" "cs_conf s = None"
    and "init_cfg read_file path (run_ctors path_ok ts s) = (out, s')"
  shows "out = InitOk \<longleftrightarrow> read_file path \<noteq> None \<and> get_config s' = read_file path \<and>
    (\<forall>t\<in>set ts. \<forall>attr f reg. parse_attr (cy_attrs t) = Some attr \<and> ca_path attr = None \<and>
         conf path_ok (cy_attrs t) (cy_ast t) = Some (f, reg) \<longrightarrow>
       (\<exists>v. run_conf (cy_env t) f s' = Some v \<and> (TIdent ''check'' \<in> set (cy_attrs t) \<longrightarrow> cy_field_check t v = None)))"
proof (cases "read_file path")
  case None
  with assms(4) show ?thesis by (auto simp: init_cfg_def)
next
  case (Some content)
  have ins: "set (cs_instances (run_ctors path_ok ts s)) = {e. \<exists>t\<in>set ts. ctor_entry path_ok t = Some e}"
    using run_ctors_instances [OF assms(1), of s] assms(2) by simp
  have c: "cs_conf (run_ctors path_ok ts s) = None" by (simp add: assms(3))
  have g: "get_config s' = Some content" using init_cfg_accepts(2) [where read_file = read_file and path = path, OF Some c] assms(4) by simp
  have "out = InitOk \<longleftrightarrow> (\<forall>t\<in>set ts. \<forall>e. ctor_entry path_ok t = Some e \<longrightarrow> snd e content = Some None)"
    using init_cfg_accepts(1) [where read_file = read_file and path = path, OF Some c] assms(4) unfolding ins by (auto simp: case_prod_beta')
  with ctor_entries_accept [OF g, of ts path_ok] Some g show ?thesis by simp
qed

theorem configured_start_witness:
  "fst (init_cfg (\<lambda>_. Some ''abc'') ''c.yml'' (run_ctors (\<lambda>_. True)
     [\<lparr>cy_name = ''Log'', cy_attrs = [TIdent ''check''], cy_ast = \<lparr>cst_ident = ''Log'', cst_attrs = [],
        cst_data = NamedStruct [\<lparr>fd_attrs = [], fd_name = ''x'', fd_type = ''u8''\<rparr>]\<rparr>,
       cy_env = \<lparr>ce_read = \<lambda>_. None, ce_parse = \<lambda>t. Some (length t), ce_mapping = \<lambda>_. None, ce_own = \<lambda>_. None,
         ce_derived = \<lambda>_ y. Some (\<lambda>_. y), ce_struct = map snd\<rparr>,
       cy_field_check = \<lambda>v. if v = [0] then Some ''empty'' else None\<rparr>]
     \<lparr>cs_conf = None, cs_instances = []\<rparr>)) = InitOk"
proof -
  let ?ast = "\<lparr>cst_ident = ''Log'', cst_attrs = [], cst_data = NamedStruct [\<lparr>fd_attrs = [], fd_name = ''x'', fd_type = ''u8''\<rparr>]\<rparr>"
  let ?t = "\<lparr>cy_name = ''Log'', cy_attrs = [TIdent ''check''], cy_ast = ?ast,
       cy_env = \<lparr>ce_read = \<lambda>_. None, ce_parse = \<lambda>t. Some (length t), ce_mapping = \<lambda>_. None, ce_own = \<lambda>_. None,
         ce_derived = \<lambda>_ y. Some (\<lambda>_. y), ce_struct = map snd\<rparr>,
       cy_field_check = \<lambda>v. if v = [0] then Some ''empty'' else None\<rparr>"
  let ?s = "\<lparr>cs_conf = None, cs_instances = []\<rparr>"
  obtain out s' where i: "init_cfg (\<lambda>_. Some ''abc'') ''c.yml'' (run_ctors (\<lambda>_. True) [?t] ?s) = (out, s')" by (rule prod.exhaust)
  have g: "get_config s' = Some ''abc''"
    using init_cfg_accepts(2) [of "\<lambda>_. Some ''abc''" "''c.yml''" "''abc''" "run_ctors (\<lambda>_. True) [?t] ?s"] i by simp
  let ?f = "\<lparr>cf_lib = BaseCrate, cf_path = None, cf_prefix = None, cf_body = ViaProxy (''__CfgMacroDefaultProxyFor'' @ ''Log'')
    \<lparr>ct_attrs = [], ct_fields = [\<lparr>fd_attrs = [], fd_name = ''x'', fd_type = ''u8''\<rparr>]\<rparr> [''x'']\<rparr>"
  have c: "conf (\<lambda>_. True) [TIdent ''check''] ?ast =
      Some (?f, Some \<lparr>rg_fn = ''register_instance_'' @ camel_to_snake ''Log'', rg_root = BaseCrate, rg_check = True\<rparr>)"
    by (simp add: conf_def parse_attr_def attr_key_def con_attr_default_def build_register_constructor_def lib_root_def
        build_conf_constructor_def build_default_data_type_def)
  have "run_conf (cy_env ?t) ?f s' = Some [3]" using g by (simp add: run_conf_def run_body_def)
  with configured_start [OF _ _ _ i] g c have "out = InitOk" by (simp del: append.simps)
  with i show ?thesis by simp
qed

text \<open>The proxy: when serde derives the struct's own deserialiser from the same fields and looks only at its own attributes, \<^verbatim>\<open>default\<close> does not change the value.\<close>

definition serde_view :: "container \<Rightarrow> container" where
  "serde_view c = \<lparr>ct_attrs = filter is_serde (ct_attrs c), ct_fields = map (\<lambda>fd. fd\<lparr>fd_attrs := filter is_serde (fd_attrs fd)\<rparr>) (ct_fields c)\<rparr>"

lemma conf_default_same_value:
  assumes "cst_data ast = NamedStruct fds"
    and "\<And>y. ce_own env y = map_option (\<lambda>r. ce_struct env (map (\<lambda>f. (f, r f)) (map fd_name fds)))
           (ce_derived env \<lparr>ct_attrs = cst_attrs ast, ct_fields = fds\<rparr> y)"
    and "\<And>c. ce_derived env (serde_view c) = ce_derived env c"
    and "build_conf_constructor path_ok (attr\<lparr>ca_default := True\<rparr>) ast = Some f"
    and "build_conf_constructor path_ok (attr\<lparr>ca_default := False\<rparr>) ast = Some g"
  shows "run_conf env f s = run_conf env g s"
proof -
  have view: "\<lparr>ct_attrs = filter is_serde (cst_attrs ast),
      ct_fields = map (\<lambda>fd. \<lparr>fd_attrs = filter is_serde (fd_attrs fd), fd_name = fd_name fd, fd_type = fd_type fd\<rparr>) fds\<rparr> =
    serde_view \<lparr>ct_attrs = cst_attrs ast, ct_fields = fds\<rparr>" by (simp add: serde_view_def)
  have same: "run_body env (cf_body f) = run_body env (cf_body g)" "cf_path f = cf_path g" "cf_prefix f = cf_prefix g"
    using assms(1,4,5)
    by (auto simp: build_conf_constructor_def build_default_data_type_def Let_def fun_eq_iff run_body_def view assms(2,3)
        split: option.splits if_splits)
  show ?thesis unfolding run_conf_def same by (rule refl)
qed

text \<open>With a path of its own a type is not registered, so a field check that was asked for is never made.\<close>

lemma check_ignored_with_path:
  assumes "parse_attr (cy_attrs t) = Some attr" "ca_path attr \<noteq> None"
  shows "run_ctor path_ok t s = s"
  using assms by (auto simp: run_ctor_def conf_def build_register_constructor_def split: option.splits)

text \<open>An empty prefix is not the whole document but its entry with the empty key.\<close>

lemma empty_prefix_is_key:
  "walk_prefix as_mapping (split_by (\<lambda>c. c = CHR ''.'') []) y = Option.bind (as_mapping y) (\<lambda>m. m [])"
  by (auto split: option.split)

end
