(* ===== verification/Service_Status.thy ===== *)
theory Service_Status
  imports Daemon Logging
begin

text \<open>
  What the service prints: the report of the status command (\<^verbatim>\<open>base/src/daemon/unix.rs\<close>), the panic hook (\<^verbatim>\<open>base/src/daemon/mod.rs\<close>) and the tree of commands handed to
  clap (\<^verbatim>\<open>macros/cfg_lib/src/conf.rs\<close>).

  The answers of \<^verbatim>\<open>ps\<close> and the date parser of chrono are arguments. Printed text is a list of lines.
\<close>

section \<open>Text\<close>

text \<open>\<^verbatim>\<open>str::replace\<close> for a non-empty pattern, and \<^verbatim>\<open>trim_start_matches\<close>.\<close>

function replace_all :: "'a list \<Rightarrow> 'a list \<Rightarrow> 'a list \<Rightarrow> 'a list" where
  "replace_all pat to s =
     (case s of
        [] \<Rightarrow> []
      | x # xs \<Rightarrow>
          if pat \<noteq> [] \<and> starts_with s pat then to @ replace_all pat to (drop (length pat) s)
          else x # replace_all pat to xs)"
  by pat_completeness auto
termination by (relation "measure (\<lambda>(_, _, s). length s)") auto

declare replace_all.simps [simp del]

function trim_start_matches :: "'a list \<Rightarrow> 'a list \<Rightarrow> 'a list" where
  "trim_start_matches pat s =
     (if pat \<noteq> [] \<and> starts_with s pat \<and> s \<noteq> [] then trim_start_matches pat (drop (length pat) s) else s)"
  by pat_completeness auto
termination by (relation "measure (\<lambda>(_, s). length s)") auto

declare trim_start_matches.simps [simp del]

definition apostrophe :: char where "apostrophe = CHR 0x27"

section \<open>Status\<close>

text \<open>An answer of \<^verbatim>\<open>ps\<close>: whether it succeeded and its output, as text if it is UTF-8 and with replacements otherwise.\<close>

record ps_output =
  ps_success :: bool
  ps_utf8 :: "string option"
  ps_lossy :: string

record ('d, 'n) chrono =
  dt_parse :: "string \<Rightarrow> string \<Rightarrow> 'd option"          \<comment> \<open>\<^verbatim>\<open>DateTime::parse_from_str\<close>\<close>
  dt_format :: "'d \<Rightarrow> string \<Rightarrow> string"
  naive_parse :: "string \<Rightarrow> string \<Rightarrow> 'n option"
  naive_format :: "'n \<Rightarrow> string \<Rightarrow> string"

definition start_formats :: "string list" where
  "start_formats = [''%a %b %e %H:%M:%S %Y'', ''%a %b %d %H:%M:%S %Y'', ''%b %e %H:%M'', ''%b %d %H:%M'']"

definition format_start_time_friendly :: "('d, 'n) chrono \<Rightarrow> string \<Rightarrow> string + string" where
  "format_start_time_friendly ch s =
     (case find_map (dt_parse ch s) start_formats of
        Some dt \<Rightarrow> Inr (dt_format ch dt ''%Y-%m-%d %H:%M:%S'')
      | None \<Rightarrow>
          (case naive_parse ch s ''%a %b %e %H:%M:%S %Y'' of
             Some dt \<Rightarrow> Inr (naive_format ch dt ''%Y-%m-%d %H:%M:%S'')
           | None \<Rightarrow> Inl ''unsupported time format''))"

text \<open>The friendly start time, if the first call of \<^verbatim>\<open>ps\<close> gives one.\<close>

definition friendly_start :: "('d, 'n) chrono \<Rightarrow> ps_output option \<Rightarrow> string option" where
  "friendly_start ch out = do {
     output \<leftarrow> out;
     raw \<leftarrow> (if ps_success output then ps_utf8 output else None);
     let raw = trim raw;
     if raw = [] then None
     else case format_start_time_friendly ch (replace_all ''  '' '' '' raw) of Inl _ \<Rightarrow> None | Inr t \<Rightarrow> Some t
   }"

definition started_at :: "('d, 'n) chrono \<Rightarrow> (nat \<Rightarrow> ps_output option) \<Rightarrow> string list" where
  "started_at ch lstart =
     (case friendly_start ch (lstart 0) of
        Some t \<Rightarrow> [''Started at: '' @ t]
      | None \<Rightarrow>
          (case lstart 1 of
             None \<Rightarrow> []
           | Some output \<Rightarrow> (case ps_utf8 output of None \<Rightarrow> [] | Some raw \<Rightarrow> [''Started at: '' @ trim raw])))"

definition process_info :: "ps_output option \<Rightarrow> string list" where
  "process_info out =
     (case out of
        None \<Rightarrow> []
      | Some output \<Rightarrow>
          (let trimmed = trim (ps_lossy output) in
           if trimmed = [] then [] else [''Process info:'', trim_start_matches ''PID'' trimmed]))"

definition status_lines ::
  "(int \<Rightarrow> string) \<Rightarrow> ('d, 'n) chrono \<Rightarrow> (nat \<Rightarrow> ps_output option) \<Rightarrow> ps_output option \<Rightarrow> service_status \<Rightarrow> string list" where
  "status_lines show_pid ch lstart info st =
     (case st of
        RunningStatus pid \<Rightarrow> [''Service is running with PID: '' @ show_pid pid] @ started_at ch lstart @ process_info info
      | StaleStatus pid \<Rightarrow>
          [''Service PID file exists (PID '' @ show_pid pid @ '') but process is not running'',
           ''This may indicate a stale PID file. You can run '' @ [apostrophe] @ ''stop'' @ [apostrophe] @ '' to clean it up.'']
      | NotRunningStatus \<Rightarrow> [''Service is not running (no PID file found)''])"

text \<open>\<^verbatim>\<open>DateTime::parse_from_str\<close> needs an offset or a timestamp in its format.\<close>

definition has_infix :: "'a list \<Rightarrow> 'a list \<Rightarrow> bool" where
  "has_infix pat s \<longleftrightarrow> (\<exists>i\<in>set [0..<Suc (length s)]. starts_with (drop i s) pat)"

definition names_offset :: "string \<Rightarrow> bool" where
  "names_offset fmt \<longleftrightarrow> (\<exists>pat\<in>set [''%z'', ''%:z'', ''%::z'', ''%:::z'', ''%#z'', ''%+'', ''%s'', ''%c'']. has_infix pat fmt)"

definition needs_offset :: "('d, 'n) chrono \<Rightarrow> bool" where
  "needs_offset ch \<longleftrightarrow> (\<forall>s fmt. \<not> names_offset fmt \<longrightarrow> dt_parse ch s fmt = None)"

section \<open>The panic hook\<close>

datatype panic_payload = StrPayload string | StringPayload string | OtherPayload

record panic_location =
  pl_file :: string
  pl_line :: nat
  pl_column :: nat

definition panic_message :: "panic_payload \<Rightarrow> string" where
  "panic_message p = (case p of StrPayload m \<Rightarrow> m | StringPayload m \<Rightarrow> m | OtherPayload \<Rightarrow> ''Box<dyn Any>'')"

definition panic_report :: "string option \<Rightarrow> panic_payload \<Rightarrow> panic_location option \<Rightarrow> string" where
  "panic_report thread p loc =
     (let thread_name = (case thread of None \<Rightarrow> ''unnamed'' | Some n \<Rightarrow> n);
          who = ''thread '' @ [apostrophe] @ thread_name @ [apostrophe] @ '' panicked'' in
      (case loc of
         Some l \<Rightarrow> who @ '' at '' @ display_source_file (pl_file l) @ '':'' @ show_nat (pl_line l) @ '':'' @ show_nat (pl_column l) @ '':''
       | None \<Rightarrow> who @ '':'') @ [newline] @ panic_message p)"

text \<open>\<^verbatim>\<open>install_sanitized_panic_hook\<close> sets the hook once per process: \<open>h\<close> is the hook in force, the flag that of \<^verbatim>\<open>Once\<close>.\<close>

definition install_sanitized_panic_hook :: "bool \<times> 'h \<Rightarrow> 'h \<Rightarrow> bool \<times> 'h" where
  "install_sanitized_panic_hook st sanitized = (case st of (installed, h) \<Rightarrow> if installed then (True, h) else (True, sanitized))"

section \<open>The commands\<close>

record cli_basic =
  cb_name :: string
  cb_version :: string
  cb_author :: string
  cb_about :: string

text \<open>\<^verbatim>\<open>default_cli_basic!\<close> takes the values from the environment of cargo at compile time; a missing one does not compile.\<close>

definition default_cli_basic :: "(string \<Rightarrow> string option) \<Rightarrow> cli_basic option" where
  "default_cli_basic env = do {
     name \<leftarrow> env ''CARGO_PKG_NAME'';
     version \<leftarrow> env ''CARGO_PKG_VERSION'';
     author \<leftarrow> env ''CARGO_PKG_AUTHORS'';
     about \<leftarrow> env ''CARGO_PKG_DESCRIPTION'';
     Some \<lparr>cb_name = name, cb_version = version, cb_author = author, cb_about = about\<rparr>
   }"

record cli_arg =
  ar_id :: string
  ar_short :: char
  ar_long :: string
  ar_help :: string
  ar_default :: "string option"
  ar_flag :: bool                \<comment> \<open>\<^verbatim>\<open>ArgAction::SetTrue\<close>\<close>

record cli_subcommand =
  su_name :: string
  su_about :: string
  su_args :: "cli_arg list"

definition get_arg_cmd :: "cli_basic \<Rightarrow> cli_basic \<times> cli_subcommand list" where
  "get_arg_cmd app_info = (app_info,
     [\<lparr>su_name = ''start'', su_about = ''Start the service'', su_args =
         [\<lparr>ar_id = ''config'', ar_short = CHR ''c'', ar_long = ''config'', ar_help = ''Path to configuration file'',
            ar_default = Some ''./config.yml'', ar_flag = False\<rparr>,
          \<lparr>ar_id = ''daemon'', ar_short = CHR ''d'', ar_long = ''daemon'', ar_help = ''Run as a daemon'', ar_default = None, ar_flag = True\<rparr>]\<rparr>,
      \<lparr>su_name = ''stop'', su_about = ''Stop the service'', su_args = []\<rparr>,
      \<lparr>su_name = ''restart'', su_about = ''Restart the service'', su_args = []\<rparr>,
      \<lparr>su_name = ''status'', su_about = ''status the service'', su_args = []\<rparr>])"

text \<open>What \<^verbatim>\<open>run\<close> makes of a match: the subcommand, the value of \<^verbatim>\<open>config\<close> and the flag \<^verbatim>\<open>daemon\<close>.\<close>

definition command_of :: "string option \<Rightarrow> string \<Rightarrow> bool \<Rightarrow> command" where
  "command_of sub config daemon =
     (if sub = Some ''start'' then CmdStart config daemon
      else if sub = Some ''stop'' then CmdStop
      else if sub = Some ''restart'' then CmdRestart
      else if sub = Some ''status'' then CmdStatus
      else CmdOther)"

section \<open>What the report shows\<close>

lemma start_formats_without_offset: "\<forall>fmt\<in>set start_formats. \<not> names_offset fmt"
  by code_simp

lemma find_map_None: "(\<forall>x\<in>set xs. f x = None) \<Longrightarrow> find_map f xs = None"
  by (induction xs) auto

text \<open>None of the four formats of the table names an offset, so the table never matches: only the format tried last counts, and the start times without a year
  that the comments promise are printed as \<^verbatim>\<open>ps\<close> gives them.\<close>

lemma start_formats_never_match:
  assumes "needs_offset ch"
  shows "format_start_time_friendly ch s =
    (case naive_parse ch s ''%a %b %e %H:%M:%S %Y'' of
       Some dt \<Rightarrow> Inr (naive_format ch dt ''%Y-%m-%d %H:%M:%S'')
     | None \<Rightarrow> Inl ''unsupported time format'')"
proof -
  have "find_map (dt_parse ch s) start_formats = None"
    using assms start_formats_without_offset by (intro find_map_None) (auto simp: needs_offset_def)
  then show ?thesis by (simp add: format_start_time_friendly_def)
qed

text \<open>The status command only reports: a running service is reported with at most four lines, whatever \<^verbatim>\<open>ps\<close> answers, and the first names its process.\<close>

lemma status_lines_running:
  assumes "status_service answer h = Some (RunningStatus pid)"
  shows "\<exists>rest. status_lines show_pid ch lstart info (RunningStatus pid) = (''Service is running with PID: '' @ show_pid pid) # rest \<and>
    length rest \<le> 3 \<and> read_pid h = Some (Some pid) \<and> 0 < pid \<and> answer = ProbeOk"
proof -
  have "length (started_at ch lstart) \<le> 1" "length (process_info info) \<le> 2"
    by (simp_all add: started_at_def process_info_def Let_def split: option.split)
  moreover have "read_pid h = Some (Some pid)" "0 < pid" "answer = ProbeOk"
    using assms unfolding status_service_def is_process_running_def
    by (cases "read_pid h"; cases "the (read_pid h)"; simp split: if_splits)+
  ultimately show ?thesis unfolding status_lines_def by auto
qed

text \<open>Installing the hook again changes nothing.\<close>

lemma panic_hook_once: "install_sanitized_panic_hook (install_sanitized_panic_hook st h) h' = install_sanitized_panic_hook st h"
  by (simp add: install_sanitized_panic_hook_def split: prod.split)

text \<open>Every declared subcommand is handled, and nothing else is.\<close>

lemma declared_commands_handled:
  "sub \<in> set (map su_name (snd (get_arg_cmd app_info))) \<longleftrightarrow> command_of (Some sub) config daemon \<noteq> CmdOther"
  by (simp add: get_arg_cmd_def command_of_def)

end
