(* ===== verification/Error_Macro.thy ===== *)
theory Error_Macro
  imports Exceptions
begin

text \<open>
  The macro \<^verbatim>\<open>define_errors!\<close> of \<^verbatim>\<open>base/src/err.rs\<close> in general: what it generates for any list of errors, when the compiler accepts it, and what reaches the registry.
  A variant of the generated enum is its position in the list. \<^verbatim>\<open>BaseErrorCode\<close> (theory \<^verbatim>\<open>Exceptions\<close>) is an instance.
\<close>

section \<open>Generated code\<close>

record error_def =
  ed_name :: string
  ed_code :: u16
  ed_out :: "nat list"
  ed_meta :: "bool option"        \<comment> \<open>\<^verbatim>\<open>retryable = ...\<close>\<close>

definition error_retryable :: "bool option \<Rightarrow> bool" where
  "error_retryable meta = (case meta of None \<Rightarrow> False | Some b \<Rightarrow> b)"

definition gen_code :: "error_def list \<Rightarrow> nat \<Rightarrow> u16" where
  "gen_code defs v = ed_code (defs ! v)"

definition gen_out_msg :: "error_def list \<Rightarrow> nat \<Rightarrow> nat list" where
  "gen_out_msg defs v = ed_out (defs ! v)"

definition gen_code_name :: "error_def list \<Rightarrow> nat \<Rightarrow> string" where
  "gen_code_name defs v = ed_name (defs ! v)"

definition gen_retryable :: "error_def list \<Rightarrow> nat \<Rightarrow> bool" where
  "gen_retryable defs v = error_retryable (ed_meta (defs ! v))"

definition gen_output :: "error_def list \<Rightarrow> nat \<Rightarrow> error_output" where
  "gen_output defs v =
     \<lparr>eo_code = gen_code defs v, eo_code_name = gen_code_name defs v, eo_user_message = gen_out_msg defs v, eo_retryable = gen_retryable defs v\<rparr>"

definition gen_from_code :: "error_def list \<Rightarrow> u16 \<Rightarrow> nat option" where
  "gen_from_code defs c = List.find (\<lambda>v. ed_code (defs ! v) = c) [0..<length defs]"

definition gen_register :: "error_def list \<Rightarrow> registry \<Rightarrow> registry \<times> u16 list" where
  "gen_register defs m =
     register_outputs (map (\<lambda>d. \<lparr>eo_code = ed_code d, eo_code_name = ed_name d, eo_user_message = ed_out d, eo_retryable = error_retryable (ed_meta d)\<rparr>) defs) m"

text \<open>A module with its invocations of the macro compiles when no enum repeats a variant and no code occurs twice, since every code becomes a constant of that name in the module.
  A crate is a list of modules.\<close>

definition module_compiles :: "error_def list list \<Rightarrow> bool" where
  "module_compiles groups \<longleftrightarrow> list_all (\<lambda>defs. distinct (map ed_name defs)) groups \<and> distinct (map ed_code (concat groups))"

definition crate_compiles :: "error_def list list list \<Rightarrow> bool" where
  "crate_compiles modules \<longleftrightarrow> list_all module_compiles modules"

section \<open>Laws\<close>

lemma gen_from_code_sound:
  assumes "gen_from_code defs c = Some v"
  shows "v < length defs \<and> gen_code defs v = c"
  using assms by (auto simp: gen_from_code_def gen_code_def find_Some_iff)

lemma gen_from_code_complete:
  assumes "distinct (map ed_code defs)" "v < length defs"
  shows "gen_from_code defs (gen_code defs v) = Some v"
proof -
  have "ed_code (defs ! w) = ed_code (defs ! v) \<longleftrightarrow> w = v" if "w < length defs" for w
    using assms that by (metis length_map nth_eq_iff_index_eq nth_map)
  then show ?thesis using assms(2) by (auto simp: gen_from_code_def gen_code_def find_Some_iff)
qed

lemma group_distinct:
  "module_compiles groups \<Longrightarrow> defs \<in> set groups \<Longrightarrow> distinct (map ed_code defs)"
  by (induction groups) (auto simp: module_compiles_def)

text \<open>Within one module every variant is found by its code, with its own output.\<close>

lemma module_codes_unambiguous:
  assumes "module_compiles groups" "defs \<in> set groups"
  shows "v < length defs \<Longrightarrow> gen_from_code defs (gen_code defs v) = Some v"
    and "gen_from_code defs c = Some v \<Longrightarrow> eo_code (gen_output defs v) = c"
  using gen_from_code_complete [OF group_distinct [OF assms]] gen_from_code_sound by (auto simp: gen_output_def)

lemma register_map_outputs:
  "gen_register defs m = register_outputs (map (gen_output defs) [0..<length defs]) m"
proof -
  have "map (\<lambda>d. \<lparr>eo_code = ed_code d, eo_code_name = ed_name d, eo_user_message = ed_out d, eo_retryable = error_retryable (ed_meta d)\<rparr>) defs =
      map (gen_output defs) [0..<length defs]"
    by (rule nth_equalityI) (simp_all add: gen_output_def gen_code_def gen_code_name_def gen_out_msg_def gen_retryable_def)
  then show ?thesis by (simp add: gen_register_def)
qed

lemma register_outputs_lookup:
  assumes "distinct (map eo_code outs)" "out \<in> set outs"
  shows "fst (register_outputs outs m) (eo_code out) = Some out"
proof -
  let ?kv = "rev (map (\<lambda>out. (eo_code out, out)) outs)"
  have "distinct (map fst ?kv)" using assms(1) by (simp add: rev_map [symmetric] comp_def)
  then have "map_of ?kv (eo_code out) = Some out" using assms(2) by simp
  then show ?thesis by (simp add: register_outputs_map map_add_Some_iff)
qed

text \<open>Registering a group that compiles makes every variant known under its code, whatever was registered before.\<close>

lemma registered_variant:
  assumes "module_compiles groups" "defs \<in> set groups" "v < length defs"
  shows "fst (gen_register defs m) (gen_code defs v) = Some (gen_output defs v)"
proof -
  let ?outs = "map (gen_output defs) [0..<length defs]"
  have "map eo_code ?outs = map ed_code defs" by (rule nth_equalityI) (simp_all add: gen_output_def gen_code_def)
  then have "distinct (map eo_code ?outs)" using group_distinct [OF assms(1,2)] by simp
  moreover have "gen_output defs v \<in> set ?outs" using assms(3) by simp
  ultimately show ?thesis unfolding register_map_outputs
    using register_outputs_lookup [of ?outs "gen_output defs v" m] by (simp add: gen_output_def)
qed

text \<open>The check is one of modules, not of crates: two modules can use one code, and the one that is registered last wins.\<close>

lemma crate_codes_can_clash:
  "\<exists>a b. crate_compiles [[[a]], [[b]]] \<and> ed_code a = ed_code b \<and> fst (gen_register [b] (fst (gen_register [a] Map.empty))) \<noteq>
     fst (gen_register [a] (fst (gen_register [b] Map.empty)))"
proof -
  let ?a = "\<lparr>ed_name = ''A'', ed_code = 1140, ed_out = [1], ed_meta = None\<rparr>" and ?b = "\<lparr>ed_name = ''B'', ed_code = 1140, ed_out = [2], ed_meta = None\<rparr>"
  show ?thesis by (rule exI [of _ ?a], rule exI [of _ ?b])
      (auto simp: crate_compiles_def module_compiles_def gen_register_def fun_eq_iff)
qed

section \<open>The base errors\<close>

definition base_defs :: "error_def list" where
  "base_defs = map (\<lambda>e. \<lparr>ed_name = base_code_name e, ed_code = base_code e, ed_out = base_out_msg e,
     ed_meta = (if base_retryable e then Some True else None)\<rparr>) all_base_errors"

lemma base_defs_compile: "module_compiles [base_defs]"
  by (simp add: module_compiles_def base_defs_def all_base_errors_def)

lemma base_defs_output: "v < length base_defs \<Longrightarrow> gen_output base_defs v = base_output (all_base_errors ! v)"
  by (simp add: base_defs_def gen_output_def gen_code_def gen_code_name_def gen_out_msg_def gen_retryable_def error_retryable_def base_output_def)

end
