(* ===== verification/Spec2Isabelle.thy ===== *)
theory Spec2Isabelle
  imports C100k_Cache Exceptions Packet_Writer_Conc Wire Managed_Io_Inv
    Service_Net Delay_Cache_Inv Dig62 Supervisor Daemon Logging Episode Metrics Database Rpc Rpc_Build
    Secrets Bus Constructor Cfg_Macro Service_Status Error_Macro
begin

text \<open>
  \<^bold>\<open>Verification of the pigs workspace.\<close>

  Pigs is a set of Rust crates for network services: \<^verbatim>\<open>base\<close> (runtimes and shutdown, network endpoints, caches, message buses, logging, the
  service command line, small codecs), \<^verbatim>\<open>exception\<close> (error types), \<^verbatim>\<open>base_rpc\<close> (gRPC channels, servers, metadata, stream supervision),
  \<^verbatim>\<open>base_db\<close> (pools, migrations, backup), \<^verbatim>\<open>sys_metrics\<close> (host metrics), \<^verbatim>\<open>macros\<close> (configuration loading and code generation) and
  \<^verbatim>\<open>base_rpc_build\<close>. An application registers runtimes, spawns tasks on them, opens a managed network endpoint whose connection tasks
  share a packet writer, keeps expiring state in one of the two caches, and ends through an ordered shutdown that the service
  commands start with a signal.

  \<^bold>\<open>Conventions.\<close> A struct is a record, an enum a datatype, stateful code passes its state. \<open>None\<close> of an operation whose text says so is a panic or
  undefined behaviour; \<open>Inl\<close> is \<^verbatim>\<open>Err\<close>. Third-party code (tokio, fern, tonic, sqlx, ciphers, base64, the operating system) is never defined: its
  answers are arguments of the operations that ask for them, and where a property needs a documented law of it, the law is a
  hypothesis. Integers are words where bits or wrapping matter and natural numbers with their bounds or saturation written out
  elsewhere; unchecked sums wrap around, as in a release build. Concurrency is modelled at the points where other tasks can run, as step relations or step functions over events.

  \<^bold>\<open>Theories and sources\<close> (paths under \<^verbatim>\<open>src/\<close>).

  \<^item> \<^verbatim>\<open>Prelude\<close>, \<^verbatim>\<open>Strings\<close>: saturating arithmetic, vectors, the string functions of the standard library; the locales \<open>safe_machine\<close> (a step function that never
    panics from a state with the invariant) and \<open>inductive_system\<close> (a step relation that keeps an invariant), interpreted by the components.
  \<^item> \<^verbatim>\<open>Exceptions\<close>, \<^verbatim>\<open>Error_Macro\<close>: \<^verbatim>\<open>exception/src\<close>, \<^verbatim>\<open>base/src/err.rs\<close>, \<^verbatim>\<open>base_rpc/src/error.rs\<close>. The registry of error codes does not depend on the order in which groups are
    collected; what \<^verbatim>\<open>define_errors!\<close> generates for any list of errors finds every variant of a module by its code.
  \<^item> \<^verbatim>\<open>C100k\<close> (operations), \<^verbatim>\<open>C100k_Slab\<close>, \<^verbatim>\<open>C100k_Keys\<close>, \<^verbatim>\<open>C100k_Wheel\<close>, \<^verbatim>\<open>C100k_Inv\<close>: the timer-wheel cache \<^verbatim>\<open>base/src/cache/c100k.rs\<close>, one shard with slab, hash index, three wheel levels and its
    task. No history panics or reads an uninitialised key, and no key is leaked or dropped twice; entries expire at their tick or one after it; every expiry is reported once; the
    shard refines a map from keys to deadlines.
  \<^item> \<^verbatim>\<open>C100k_Cache\<close>: the same cache as a whole, its shards behind their command channels with calls and tasks interleaved. Every command reaches the shard of its key,
    in order, and the contents of all shards together refine one map.
  \<^item> \<^verbatim>\<open>Delay_Cache\<close>, \<^verbatim>\<open>Delay_Cache_Inv\<close>: the channel-driven cache \<^verbatim>\<open>base/src/cache/mod.rs\<close>: calls in the two halves other threads can see, the task that owns the delay
    queue, and the callback worker with its semaphore. The task and its queue agree in every interleaving, and each value handed over is called back at most once.
  \<^item> \<^verbatim>\<open>Packet_Codec\<close>, \<^verbatim>\<open>Net_State\<close>, \<^verbatim>\<open>Packet_Writer\<close>, \<^verbatim>\<open>Packet_Writer_Inv\<close>, \<^verbatim>\<open>Packet_Writer_Conc\<close>, \<^verbatim>\<open>Tcp_Connection\<close>, \<^verbatim>\<open>Tcp_Connection_Inv\<close>, \<^verbatim>\<open>Managed_Io\<close>, \<^verbatim>\<open>Managed_Io_Inv\<close>: the network
    layer \<^verbatim>\<open>base/src/net\<close>, from the encoding of packets and the vectored write loop over the registry of peer writers and the tasks of a connection to
    the endpoint that owns them. \<^verbatim>\<open>Wire\<close> joins the two ends of a stream: what a direct or queued connection sends with the length-prefix encoder is what the read loop of a peer
    that splits by it delivers, whatever the chunking; the registry refines a list of registrations, also under
    concurrent use; waiting for a peer loses no wake-up; closing accounts for every task once and can be resumed.
  \<^item> \<^verbatim>\<open>Runtime\<close>, \<^verbatim>\<open>Runtime_Inv\<close>: \<^verbatim>\<open>base/src/utils/rt.rs\<close> and \<^verbatim>\<open>base/src/daemon/signal.rs\<close>. Every task is accounted for; the ordered shutdown leaves nothing behind.
  \<^item> \<^verbatim>\<open>Application\<close>: the functions of \<^verbatim>\<open>GlobalRuntime\<close> over the process-wide registry and exit token. A failure is never lost: it starts the shutdown and makes it incomplete.
  \<^item> \<^verbatim>\<open>Service_Net\<close>: endpoints opened on those runtimes. The ordered shutdown stops every endpoint and lets none be opened after it.
  \<^item> \<^verbatim>\<open>Daemon\<close>, \<^verbatim>\<open>Service_Status\<close>: \<^verbatim>\<open>macros/cfg_lib/src\<close>, \<^verbatim>\<open>base/src/daemon/mod.rs\<close>, \<^verbatim>\<open>base/src/daemon/unix.rs\<close>. Stop, start, restart and status over a PID file, the declared
    command line, what status prints and the panic hook; the property at the end of this theory joins the stop command with the shutdown of \<^verbatim>\<open>Runtime\<close>.
  \<^item> \<^verbatim>\<open>Logging\<close>, \<^verbatim>\<open>Episode\<close>: \<^verbatim>\<open>base/src/logger.rs\<close>, \<^verbatim>\<open>base/src/logger/episode.rs\<close>.
  \<^item> \<^verbatim>\<open>Bus\<close>: \<^verbatim>\<open>base/src/bus\<close>. The casts of the typed buses never fail; as long as no subscription falls into a round of the cleanup, a
    publication reaches every live receiver of its type (\<open>bcast_reaches_all\<close>).
  \<^item> \<^verbatim>\<open>Dig62\<close>, \<^verbatim>\<open>Secrets\<close>: \<^verbatim>\<open>base/src/utils/dig62.rs\<close>, \<^verbatim>\<open>token.rs\<close>, \<^verbatim>\<open>crypto.rs\<close>. Round trips, and what malformed input does.
  \<^item> \<^verbatim>\<open>Retry\<close>, \<^verbatim>\<open>Supervisor\<close>, \<^verbatim>\<open>Rpc\<close>, \<^verbatim>\<open>Rpc_Build\<close>: \<^verbatim>\<open>base_rpc/src\<close>, \<^verbatim>\<open>base_rpc_build/src\<close>. The bounds of the retry delays, computed in floating point with the rounding as a parameter;
    the supervising task in every interleaving with reporters and shutdown; metadata round trip; TLS settings; the job handed to protoc.
  \<^item> \<^verbatim>\<open>Database\<close>: \<^verbatim>\<open>base_db/src\<close>. Migrations refine their specification and can be resumed after any failure, on an engine that undoes dropped
    transactions completely, as SQLite does.
  \<^item> \<^verbatim>\<open>Metrics\<close>: \<^verbatim>\<open>sys_metrics/src/lib.rs\<close>, the collector for Linux, whose rates are exact, and the one over the sysinfo library.
  \<^item> \<^verbatim>\<open>Cfg_Macro\<close>: \<^verbatim>\<open>macros/cfg_lib/cfg_macro/src/lib.rs\<close> and the YAML macros of \<^verbatim>\<open>macros/cfg_lib/src/util.rs\<close>, on top of the start-up in \<^verbatim>\<open>Daemon\<close>. A service starts exactly when every type with the attribute and without a path
    of its own can be loaded and, where its attribute asks for the check, accepts its values.
  \<^item> \<^verbatim>\<open>Constructor\<close>: \<^verbatim>\<open>macros/constructor/src/lib.rs\<close>. The derives for constructors, getters and setters, and the laws of the functions they generate.

  \<^bold>\<open>Loops.\<close> Loops over data are structural. Loops driven by the environment take the list of what happens in their rounds and answer \<open>None\<close> while they
  would still wait; that they end is proved (the stop command needs 51 rounds, \<open>stop_service_terminates\<close>; the supervisor two steps after shutdown,
  \<open>shutdown_terminates\<close>). The closing loop of the endpoint runs on fuel, and two rounds more than the connections it owns are enough; the parser of a
  stream runs on the length of its buffer.

  \<^bold>\<open>What modelling showed.\<close> Besides the properties, lemmas exhibit behaviour that is hardly meant: an entry of the timer wheel that a cascade meets at its
  tick expires one tick late; a failing splitter leaves its connection in the registry (\<open>read_error_keeps_registration\<close>); an old deadline can remove
  a fresh value (\<open>stale_expiry_removes_new_value\<close>); a stale report overwrites the state of a stopped supervisor
  (\<open>stale_report_overwrites_stopped\<close>); a stop without permission removes the PID file of a live service (\<open>stop_not_permitted\<close>); a foreground start hides
  a daemon from stop (\<open>foreground_start_hides_daemon\<close>); client authentication follows the CA path, not the mode (\<open>server_client_auth\<close>); tokens can be
  forged (\<open>token_forgeable\<close>); malformed input panics two decoders (\<open>dig62_decode_panics\<close>, \<open>default_decrypt_panics\<close>); the cleanup of the bus can cut off a
  subscriber (\<open>cleanup_orphans_subscriber\<close>); an empty selection makes the derived constructor of a struct with named fields
  fail to compile (\<open>derive_new_empty_selection\<close>); a field check is ignored for a type with a path of its own, and literals of the attribute keep their
  escapes (\<open>check_ignored_with_path\<close>, \<open>literal_escapes_kept\<close>); a shutdown that a panic started leaves the exit token alone
  (\<open>panic_leaves_exit_token\<close>); a reader that fails can leave its first loop running (\<open>reader_partial_start\<close>); the handle of a closed connection writes into its
  successor (\<open>stale_handle_writes_to_successor\<close>); overlapping inserts of one key leave a value that never expires (\<open>overlapping_inserts_leak\<close>) and a very long time to live panics
  the task of the cache (\<open>long_ttl_panics\<close>); a retry policy with a jitter that is no number, or with the longest duration as its maximum, panics the supervisor
  (\<open>nan_jitter_panics\<close>, \<open>huge_max_delay_panics\<close>), and one without initial delay jumps to its maximum (\<open>zero_initial_delay_jumps\<close>); restoring a database onto itself
  empties it and reports success (\<open>restore_onto_itself_loses_data\<close>); on MySQL a migration whose bookkeeping fails is applied twice
  (\<open>mysql_applies_twice\<close>); dropping the future of a direct write half way leaves torn bytes on a sink that stays open (\<open>dropped_write_tears_stream\<close>), and dropping
  that of an endpoint's close while it closes the writer forgets the sinks not yet closed (\<open>dropped_writer_close_forgets\<close>); a PID file that is no text panics every service
  command; the table of start-time formats never matches (\<open>start_formats_never_match\<close>); two modules of
  one crate can declare the same error code (\<open>crate_codes_can_clash\<close>).

  \<^bold>\<open>Not modelled.\<close> What third-party code does: the parsing and printing of tokens in the procedural macros, clap, YAML and JSON, the scheduler, clocks, channels and
  runtimes of tokio, sockets, ciphers, the SQL engines, tonic and protoc, the rendering of colours and dates. IEEE rounding is a parameter with its documented laws. Memory orderings of
  atomics are taken as sequentially consistent, cloning of handles and reference counts as sharing, and re-exports, trait declarations without code and test modules are
  left out.
\<close>

section \<open>Stopping a service in time\<close>

text \<open>The application's shutdown budget in milliseconds.\<close>

definition APPLICATION_SHUTDOWN_TIMEOUT :: nat where
  "APPLICATION_SHUTDOWN_TIMEOUT = 8000"

text \<open>No stage is given more than what is left of the budget, so stages that keep their timeouts end within it.\<close>

lemma stage_timeout_le_rest: "stage_timeout deadline now k \<le> deadline - now"
  by (cases "k = 0") (auto simp: stage_timeout_def checked_div_def sat_sub_def split: option.splits)

lemma stages_within_budget:
  assumes "\<forall>i<n. clock (Suc i) \<le> clock i + stage_timeout (clock 0 + budget) (clock i) (left_over i)" "i \<le> n"
  shows "clock i \<le> clock 0 + budget"
  using assms(2)
proof (induction i)
  case (Suc i)
  then have "clock (Suc i) \<le> clock i + (clock 0 + budget - clock i)"
    using assms(1) stage_timeout_le_rest [of "clock 0 + budget" "clock i" "left_over i"]
    by (meson Suc_le_lessD add_left_mono le_trans)
  with Suc show ?case by simp
qed simp

text \<open>The waiting loop of the stop command sees a process that is gone before its own timeout.\<close>

lemma wait_sees_exit:
  assumes "i < length rounds" "\<forall>j\<le>i. fst (rounds ! j) < t * 1000" "\<not> is_process_running pid (snd (rounds ! i))"
  shows "wait_for_process_exit pid t rounds = Some True"
  using assms
proof (induction pid t rounds arbitrary: i rule: wait_for_process_exit.induct)
  case (2 pid t e a rounds)
  have e: "e < t * 1000" using "2.prems"(2) by force
  show ?case
  proof (cases "is_process_running pid a")
    case True
    with "2.prems" obtain i' where i: "i = Suc i'" by (cases i) auto
    have "\<forall>j\<le>i'. fst (rounds ! j) < t * 1000" using "2.prems"(2) i by force
    with "2.IH" [OF e _, of i'] "2.prems" True i e show ?thesis by simp
  qed (simp add: e)
qed simp

text \<open>Rounds at most \<open>gap\<close> apart make a probe in every window of that length before the end of the loop.\<close>

lemma probe_in_window:
  fixes b gap :: nat
  assumes "\<forall>j. Suc j < length rounds \<longrightarrow> fst (rounds ! Suc j) \<le> fst (rounds ! j) + gap" "fst (rounds ! 0) < b"
    and "i < length rounds" "b \<le> fst (rounds ! i)"
  shows "\<exists>k < length rounds. b \<le> fst (rounds ! k) \<and> (\<forall>j\<le>k. fst (rounds ! j) < b + gap)"
proof -
  define k where "k = (LEAST k. b \<le> fst (rounds ! k))"
  have k: "b \<le> fst (rounds ! k)" "k \<le> i"
    using LeastI [of "\<lambda>k. b \<le> fst (rounds ! k)" i] Least_le [of "\<lambda>k. b \<le> fst (rounds ! k)" i] assms(4) by (simp_all add: k_def)
  have before: "fst (rounds ! j) < b" if "j < k" for j
    using not_less_Least [of j "\<lambda>k. b \<le> fst (rounds ! k)"] that by (simp add: k_def not_le)
  from k(1) assms(2) obtain l where l: "k = Suc l" by (cases k) auto
  then have "fst (rounds ! k) \<le> fst (rounds ! l) + gap" using assms(1,3) k(2) by simp
  then have "fst (rounds ! k) < b + gap" using before [of l] l by simp
  then have "\<forall>j\<le>k. fst (rounds ! j) < b + gap" using before by (metis le_neq_implies_less trans_less_add1)
  with k assms(3) show ?thesis by (intro exI [of _ k]) auto
qed

text \<open>C22. A service that is shut down by its exit signal and whose stages keep the timeouts they are given is stopped by \<^verbatim>\<open>SIGTERM\<close> alone: the
  budget of eight seconds for all stages ends two seconds before the stop command gives up, so when no round of its waiting loop (a probe and 200
  milliseconds of sleep) takes longer than that, it finds the process gone, reports success without \<^verbatim>\<open>SIGKILL\<close> and removes the PID file.\<close>

theorem graceful_service_stop:
  assumes stages: "\<forall>i<n. clock (Suc i) \<le> clock i + stage_timeout (clock 0 + APPLICATION_SHUTDOWN_TIMEOUT) (clock i) (n - i)"
    and signal: "clock 0 = 0"
    and gone: "\<forall>j < length (se_rounds env). clock n \<le> fst (se_rounds env ! j) \<longrightarrow> snd (se_rounds env ! j) = NoSuchProcess"
    and slept: "50 < length (se_rounds env)" "\<forall>j < length (se_rounds env). 200 * j \<le> fst (se_rounds env ! j)"
    and brisk: "fst (se_rounds env ! 0) \<le> 2000"
      "\<forall>j. Suc j < length (se_rounds env) \<longrightarrow> fst (se_rounds env ! Suc j) \<le> fst (se_rounds env ! j) + 2000"
    and alive: "read_pid h = Some (Some pid)" "se_first env = ProbeOk" "se_term env = KillStatus (Some 0)"
  shows "stop_service env h = Some (StopReturns True, remove_pid_file (se_removable env) h, [SigTerm pid])"
proof -
  let ?t = APPLICATION_SHUTDOWN_TIMEOUT
  have "10000 \<le> fst (se_rounds env ! 50)" using slept by fastforce
  then obtain k where k: "k < length (se_rounds env)" "?t \<le> fst (se_rounds env ! k)" "\<forall>j\<le>k. fst (se_rounds env ! j) < ?t + 2000"
    using probe_in_window [OF brisk(2) _ slept(1), of ?t] brisk(1) by (auto simp: APPLICATION_SHUTDOWN_TIMEOUT_def)
  have "clock n \<le> ?t" using stages_within_budget [OF stages order_refl] signal by simp
  then have "snd (se_rounds env ! k) = NoSuchProcess" using gone k(1,2) by auto
  then have "wait_for_process_exit pid DAEMON_STOP_TIMEOUT_SECS (se_rounds env) = Some True"
    using wait_sees_exit [OF k(1), of DAEMON_STOP_TIMEOUT_SECS pid] k(3)
    by (simp add: DAEMON_STOP_TIMEOUT_SECS_def APPLICATION_SHUTDOWN_TIMEOUT_def is_process_running_def)
  then show ?thesis
    using alive read_pid_positive [OF alive(1)] by (simp add: stop_service_def is_process_running_def send_terminate_signal_def)
qed

theorem graceful_service_stop_witness:
  "stop_service \<lparr>se_first = ProbeOk, se_term = KillStatus (Some 0),
     se_rounds = map (\<lambda>j. (200 * j, if j < 40 then ProbeOk else NoSuchProcess)) [0..<51],
     se_last = NoSuchProcess, se_removable = True\<rparr> \<lparr>h_pid_file = Some (PidText ''7''), h_meta = None\<rparr> =
   Some (StopReturns True, \<lparr>h_pid_file = None, h_meta = None\<rparr>, [SigTerm 7])"
proof -
  define rounds where "rounds = map (\<lambda>j. (200 * j, if j < 40 then ProbeOk else NoSuchProcess)) [0..<51]"
  define env where "env = \<lparr>se_first = ProbeOk, se_term = KillStatus (Some 0), se_rounds = rounds, se_last = NoSuchProcess, se_removable = True\<rparr>"
  let ?clock = "\<lambda>i::nat. 4000 * i" and ?h = "\<lparr>h_pid_file = Some (PidText ''7''), h_meta = None\<rparr>"
  have r: "length rounds = 51" "\<And>j. j < 51 \<Longrightarrow> rounds ! j = (200 * j, if j < 40 then ProbeOk else NoSuchProcess)"
    by (simp_all del: upt_rec_numeral add: rounds_def)
  have "stop_service env ?h = Some (StopReturns True, remove_pid_file (se_removable env) ?h, [SigTerm 7])"
    by (rule graceful_service_stop [where clock = ?clock and n = 2])
      (auto simp: env_def r APPLICATION_SHUTDOWN_TIMEOUT_def stage_timeout_def checked_div_def sat_sub_def less_2_cases_iff)
  then show ?thesis by (simp add: env_def rounds_def remove_pid_file_def del: upt_rec_numeral)
qed

end
